(* ===== verification/Prelude.thy ===== *)
theory Prelude
  imports Main "HOL-Library.Word" "HOL-Library.AList"
begin

unbundle bit_operations_syntax

text \<open>
  Shared material of the development.

  \<^item> the machine integers of the Rust code as words, byte buffers as lists of \<open>8 word\<close>;
  \<^item> the errors of the code: every \<open>bail!\<close>, \<open>ensure!\<close> and \<open>err_msg\<close> is an \<open>Err\<close> with the
    message of the source, every panic the source can reach a \<open>Panicked\<close>, and a fallible function
    returns \<open>wg_error + 'a\<close>;
  \<^item> \<open>and_then\<close>, the \<open>?\<close> operator of a method that has \<open>&mut self\<close>: an error stops the method but
    keeps the state written so far;
  \<^item> slices, \<open>copy_from_slice\<close> and the little and big endian encodings of \<open>byteorder\<close>;
  \<^item> hash maps as association lists with distinct keys.
\<close>

section \<open>Machine integers and buffers\<close>

type_synonym u8 = "8 word"
type_synonym u16 = "16 word"
type_synonym u32 = "32 word"
type_synonym u64 = "64 word"
type_synonym i64 = "64 word"
type_synonym i32 = "32 word"

type_synonym bytes = "u8 list"

text \<open>Durations and instants are counted in nanoseconds of the monotonic clock.\<close>

type_synonym duration = nat
type_synonym instant = nat

named_theorems word_nat \<open>reading masked and shifted words as natural numbers\<close>
named_theorems codec \<open>lengths and round trips of byte encodings\<close>

section \<open>Errors\<close>

datatype panic =
    IndexOutOfBounds
  | UnwrapFailed
  | ArithmeticOverflow
  | Unreachable

text \<open>An \<open>Err\<close> carries the message of the \<open>bail!\<close>, \<open>ensure!\<close> or \<open>err_msg\<close> that returned it. \<open>Looping\<close> is no
  result of the code: it is the value of a loop that has not returned when the random draws it was
  given run out.\<close>

datatype wg_error = Err string | Panicked panic | Looping

type_synonym 'a result = "wg_error + 'a"

section \<open>Early return with state\<close>

definition and_then ::
  "('e + 'a) \<times> 's \<Rightarrow> ('a \<Rightarrow> 's \<Rightarrow> ('e + 'b) \<times> 's) \<Rightarrow> ('e + 'b) \<times> 's" where
  "and_then r k = (case fst r of Inl e \<Rightarrow> (Inl e, snd r) | Inr x \<Rightarrow> k x (snd r))"

lemma and_then_simps [simp]:
  "and_then (Inl e, s) k = (Inl e, s)"
  "and_then (Inr x, s) k = k x s"
  by (simp_all add: and_then_def)

lemma and_then_split:
  "P (and_then r k) \<longleftrightarrow>
     (\<forall>e s. r = (Inl e, s) \<longrightarrow> P (Inl e, s)) \<and> (\<forall>x s. r = (Inr x, s) \<longrightarrow> P (k x s))"
  by (cases r; cases "fst r") (auto simp: and_then_def)

lemma and_then_split_asm:
  "P (and_then r k) \<longleftrightarrow>
     \<not> ((\<exists>e s. r = (Inl e, s) \<and> \<not> P (Inl e, s)) \<or> (\<exists>x s. r = (Inr x, s) \<and> \<not> P (k x s)))"
  by (subst and_then_split) blast

lemmas and_then_splits = and_then_split and_then_split_asm

lemma and_then_InrE:
  assumes "and_then r k = (Inr y, s')"
  obtains x s where "r = (Inr x, s)" "k x s = (Inr y, s')"
  using assms by (cases r; cases "fst r") auto

lemma and_then_cong [fundef_cong]:
  assumes "r = r'" and "\<And>x s. r' = (Inr x, s) \<Longrightarrow> k x s = k' x s"
  shows "and_then r k = and_then r' k'"
  using assms by (cases r'; cases "fst r'") auto

text \<open>An invariant that the first part establishes and the continuation keeps holds at the end.\<close>

lemma and_then_inv:
  assumes "P (snd r)" and "\<And>x s. r = (Inr x, s) \<Longrightarrow> P s \<Longrightarrow> P (snd (k x s))"
  shows "P (snd (and_then r k))"
  using assms by (cases r; cases "fst r") auto

section \<open>Slices\<close>

text \<open>\<open>&buf[a..b]\<close>, for \<open>a \<le> b \<le> length buf\<close> (the Rust expression panics elsewhere).\<close>

definition slice :: "nat \<Rightarrow> nat \<Rightarrow> 'a list \<Rightarrow> 'a list" where
  "slice a b xs = take (b - a) (drop a xs)"

text \<open>\<open>buf[off..off+n].copy_from_slice(bs)\<close> with \<open>n = length bs\<close>.\<close>

definition put_slice :: "nat \<Rightarrow> 'a list \<Rightarrow> 'a list \<Rightarrow> 'a list" where
  "put_slice off bs buf = take off buf @ bs @ drop (off + length bs) buf"

lemma length_slice [simp]: "b \<le> length xs \<Longrightarrow> length (slice a b xs) = b - a"
  by (simp add: slice_def)

lemma length_put_slice [simp]:
  "off + length bs \<le> length buf \<Longrightarrow> length (put_slice off bs buf) = length buf"
  by (simp add: put_slice_def)

lemma slice_put_slice_same [simp]:
  assumes "off \<le> length buf" and "b = off + length bs"
  shows "slice off b (put_slice off bs buf) = bs"
  using assms by (simp add: slice_def put_slice_def)

lemma slice_put_slice_before [simp]:
  assumes "b \<le> off" and "off \<le> length buf"
  shows "slice a b (put_slice off bs buf) = slice a b buf"
proof -
  have "slice a b (put_slice off bs buf) = drop a (take b (take off buf @ bs @ drop (off + length bs) buf))"
    by (simp add: slice_def put_slice_def drop_take del: take_append drop_append)
  also have "\<dots> = drop a (take b buf)"
    using assms by (simp add: min_def)
  finally show ?thesis
    by (simp add: slice_def drop_take)
qed

lemma slice_put_slice_after [simp]:
  assumes "off + length bs \<le> a" and "off + length bs \<le> length buf"
  shows "slice a b (put_slice off bs buf) = slice a b buf"
  using assms by (simp add: slice_def put_slice_def)

lemma nth_put_slice_before [simp]:
  assumes "i < off" and "off \<le> length buf"
  shows "put_slice off bs buf ! i = buf ! i"
  using assms by (simp add: put_slice_def nth_append)

lemma nth_slice [simp]: "a + i < b \<Longrightarrow> b \<le> length xs \<Longrightarrow> slice a b xs ! i = xs ! (a + i)"
  by (simp add: slice_def)

lemma slice_append_split:
  assumes "a \<le> b" and "b \<le> c"
  shows "slice a b xs @ slice b c xs = slice a c xs"
proof -
  have "slice a c xs = take ((b - a) + (c - b)) (drop a xs)"
    using assms by (simp add: slice_def)
  also have "\<dots> = take (b - a) (drop a xs) @ take (c - b) (drop (b - a) (drop a xs))"
    by (rule take_add)
  finally show ?thesis
    using assms by (simp add: slice_def)
qed

section \<open>Endian encodings\<close>

fun le_val :: "bytes \<Rightarrow> nat" where
  "le_val [] = 0"
| "le_val (b # bs) = unat b + 256 * le_val bs"

fun le_bytes :: "nat \<Rightarrow> nat \<Rightarrow> bytes" where
  "le_bytes 0 v = []"
| "le_bytes (Suc n) v = word_of_nat (v mod 256) # le_bytes n (v div 256)"

definition be_val :: "bytes \<Rightarrow> nat" where
  "be_val bs = le_val (rev bs)"

definition be_bytes :: "nat \<Rightarrow> nat \<Rightarrow> bytes" where
  "be_bytes n v = rev (le_bytes n v)"

text \<open>\<open>LittleEndian::read_u32/read_u64\<close> read the first 4 or 8 bytes of the slice they are given.\<close>

definition read_u32 :: "bytes \<Rightarrow> u32" where
  "read_u32 bs = word_of_nat (le_val (take 4 bs))"

definition read_u64 :: "bytes \<Rightarrow> u64" where
  "read_u64 bs = word_of_nat (le_val (take 8 bs))"

text \<open>\<open>LittleEndian::write_u32(&mut buf[off..], v)\<close> and its 64 bit sibling.\<close>

definition write_u32 :: "nat \<Rightarrow> u32 \<Rightarrow> bytes \<Rightarrow> bytes" where
  "write_u32 off v buf = put_slice off (le_bytes 4 (unat v)) buf"

definition write_u64 :: "nat \<Rightarrow> u64 \<Rightarrow> bytes \<Rightarrow> bytes" where
  "write_u64 off v buf = put_slice off (le_bytes 8 (unat v)) buf"

lemma unat_u8_less: "unat (b :: u8) < 256"
proof -
  have "unat b < 2 ^ LENGTH(8)" by (rule unsigned_less)
  then show ?thesis by simp
qed

lemma unat_u32_less: "unat (v :: u32) < 4294967296"
proof -
  have "unat v < 2 ^ LENGTH(32)" by (rule unsigned_less)
  then show ?thesis by simp
qed

lemma unat_u64_less: "unat (v :: u64) < 18446744073709551616"
proof -
  have "unat v < 2 ^ LENGTH(64)" by (rule unsigned_less)
  then show ?thesis by simp
qed

lemma length_le_bytes [simp, codec]: "length (le_bytes n v) = n"
  by (induction n arbitrary: v) auto

lemma length_be_bytes [simp, codec]: "length (be_bytes n v) = n"
  by (simp add: be_bytes_def)

lemma unat_byte_mod [simp]: "unat (word_of_nat (v mod 256) :: u8) = v mod 256"
  by (simp add: unat_of_nat)

lemma le_val_le_bytes [simp, codec]: "le_val (le_bytes n v) = v mod 256 ^ n"
  by (induction n arbitrary: v) (auto simp: mod_mult2_eq)

lemma le_val_bound: "le_val bs < 256 ^ length bs"
proof (induction bs)
  case Nil
  then show ?case by simp
next
  case (Cons b bs)
  have "unat b < 256"
    by (rule unat_u8_less)
  with Cons show ?case by simp
qed

lemma le_bytes_le_val [simp, codec]: "le_bytes (length bs) (le_val bs) = bs"
proof (induction bs)
  case Nil
  then show ?case by simp
next
  case (Cons b bs)
  have b: "unat b < 256"
    by (rule unat_u8_less)
  then have "(unat b + 256 * le_val bs) mod 256 = unat b"
    and "(unat b + 256 * le_val bs) div 256 = le_val bs"
    by simp_all
  with Cons show ?case by simp
qed

lemma be_val_be_bytes [simp, codec]: "be_val (be_bytes n v) = v mod 256 ^ n"
  by (simp add: be_val_def be_bytes_def)

lemma read_u32_le_bytes [simp, codec]: "read_u32 (le_bytes 4 (unat v) @ bs) = v"
  using unat_u32_less [of v] by (simp add: read_u32_def)

lemma read_u64_le_bytes [simp, codec]: "read_u64 (le_bytes 8 (unat v) @ bs) = v"
  using unat_u64_less [of v] by (simp add: read_u64_def)

lemma length_write_u32 [simp, codec]:
  "off + 4 \<le> length buf \<Longrightarrow> length (write_u32 off v buf) = length buf"
  by (simp add: write_u32_def)

lemma length_write_u64 [simp, codec]:
  "off + 8 \<le> length buf \<Longrightarrow> length (write_u64 off v buf) = length buf"
  by (simp add: write_u64_def)

lemma read_u32_slice: "read_u32 (drop off buf) = read_u32 (slice off (off + 4) buf)"
  by (simp add: read_u32_def slice_def)

lemma read_u64_slice: "read_u64 (drop off buf) = read_u64 (slice off (off + 8) buf)"
  by (simp add: read_u64_def slice_def)

lemma read_write_u32 [simp, codec]:
  assumes "off + 4 \<le> length buf"
  shows "read_u32 (drop off (write_u32 off v buf)) = v"
  using assms read_u32_le_bytes [of v "drop (off + 4) buf"]
  by (simp add: write_u32_def put_slice_def)

lemma read_write_u64 [simp, codec]:
  assumes "off + 8 \<le> length buf"
  shows "read_u64 (drop off (write_u64 off v buf)) = v"
  using assms read_u64_le_bytes [of v "drop (off + 8) buf"]
  by (simp add: write_u64_def put_slice_def)

section \<open>Lexicographic order of byte arrays\<close>

text \<open>The derived \<open>PartialOrd\<close> of an array compares element by element.\<close>

fun bytes_lt :: "bytes \<Rightarrow> bytes \<Rightarrow> bool" where
  "bytes_lt [] ys = (ys \<noteq> [])"
| "bytes_lt (x # xs) [] = False"
| "bytes_lt (x # xs) (y # ys) = (x < y \<or> (x = y \<and> bytes_lt xs ys))"

lemma bytes_lt_append:
  "length xs = length ys \<Longrightarrow>
     bytes_lt (xs @ us) (ys @ vs) \<longleftrightarrow> bytes_lt xs ys \<or> (xs = ys \<and> bytes_lt us vs)"
  by (induction xs ys rule: list_induct2) auto

lemma bytes_lt_irrefl [simp]: "\<not> bytes_lt xs xs"
  by (induction xs) auto

lemma bytes_lt_total: "bytes_lt xs ys \<or> xs = ys \<or> bytes_lt ys xs"
  by (induction xs ys rule: bytes_lt.induct) auto

lemma bytes_lt_trans: "bytes_lt xs ys \<Longrightarrow> bytes_lt ys zs \<Longrightarrow> bytes_lt xs zs"
proof (induction xs ys arbitrary: zs rule: bytes_lt.induct)
  case (1 ys)
  then show ?case by (cases ys; cases zs) auto
next
  case (2 x xs)
  then show ?case by simp
next
  case (3 x xs y ys)
  then show ?case by (cases zs) auto
qed

lemma be_val_inj:
  assumes "length xs = length ys" and "be_val xs = be_val ys"
  shows "xs = ys"
proof -
  have "rev xs = le_bytes (length xs) (be_val xs)"
    using le_bytes_le_val [of "rev xs"] by (simp add: be_val_def)
  also have "\<dots> = rev ys"
    using assms le_bytes_le_val [of "rev ys"] by (simp add: be_val_def)
  finally show ?thesis by simp
qed

text \<open>On equally long arrays the order is the order of the big endian values.\<close>

lemma bytes_lt_be_val:
  "length xs = length ys \<Longrightarrow> bytes_lt xs ys \<longleftrightarrow> be_val xs < be_val ys"
proof (induction xs arbitrary: ys rule: rev_induct)
  case Nil
  then show ?case by (simp add: be_val_def)
next
  case (snoc x xs)
  then obtain y ys' where ys: "ys = ys' @ [y]" and len: "length xs = length ys'"
    by (cases ys rule: rev_cases) auto
  have inj: "xs = ys' \<longleftrightarrow> be_val xs = be_val ys'"
    using be_val_inj [OF len] by blast
  have b: "unat x < 256" "unat y < 256"
    by (rule unat_u8_less)+
  have "bytes_lt (xs @ [x]) ys \<longleftrightarrow> be_val xs < be_val ys' \<or> (be_val xs = be_val ys' \<and> unat x < unat y)"
    using snoc.IH [OF len] by (simp add: ys bytes_lt_append [OF len] inj word_less_nat_alt)
  also have "\<dots> \<longleftrightarrow> unat x + 256 * be_val xs < unat y + 256 * be_val ys'"
    using b by linarith
  finally show ?case by (simp add: ys be_val_def)
qed

section \<open>Masks and shifts as arithmetic\<close>

lemma unat_and_mask [word_nat]: "unat ((w :: 'a :: len word) AND mask n) = unat w mod 2 ^ n"
  by (simp only: take_bit_eq_mask [symmetric] unsigned_take_bit_eq) (simp add: take_bit_eq_mod)

lemma unat_drop_bit_div [word_nat]: "unat (drop_bit n (w :: 'a :: len word)) = unat w div 2 ^ n"
  by (simp only: unat_drop_bit_eq) (simp add: drop_bit_eq_div)

lemma unat_image_iff [simp]: "unat (x :: 'a :: len word) \<in> unat ` S \<longleftrightarrow> x \<in> S"
  by (auto dest: word_unat_eq_iff [THEN iffD2])

lemma bit_push_one: "bit (push_bit n 1 :: 'a :: len word) m \<longleftrightarrow> m = n \<and> n < LENGTH('a)"
  by (auto simp: bit_push_bit_iff bit_1_iff simp del: push_bit_of_1)

lemma and_push_one_eq_0:
  "((w :: 'a :: len word) AND push_bit n 1 = 0) \<longleftrightarrow> \<not> (n < LENGTH('a) \<and> bit w n)"
proof
  assume "w AND push_bit n 1 = 0"
  then have "bit (w AND push_bit n 1) n \<longleftrightarrow> bit (0 :: 'a word) n" by simp
  then show "\<not> (n < LENGTH('a) \<and> bit w n)"
    by (auto simp: bit_and_iff bit_push_one simp del: push_bit_of_1)
next
  assume "\<not> (n < LENGTH('a) \<and> bit w n)"
  then show "w AND push_bit n 1 = 0"
    by (intro bit_word_eqI) (auto simp: bit_and_iff bit_push_one simp del: push_bit_of_1)
qed

lemma bit_or_push_one:
  "bit ((w :: 'a :: len word) OR push_bit n 1) m \<longleftrightarrow> bit w m \<or> (m = n \<and> n < LENGTH('a))"
  by (auto simp: bit_or_iff bit_push_one simp del: push_bit_of_1)

section \<open>Hash maps\<close>

text \<open>
  A \<open>HashMap\<close> is an association list with distinct keys: \<open>map_of\<close> is \<open>get\<close>, \<open>AList.update\<close> is
  \<open>insert\<close> and \<open>AList.delete\<close> is \<open>remove\<close>. The iteration order of a hash map is not specified;
  here it is the order of the list, over which every theorem quantifies.
\<close>

definition wf_map :: "('k \<times> 'v) list \<Rightarrow> bool" where
  "wf_map m \<longleftrightarrow> distinct (map fst m)"

definition delete_all :: "'k list \<Rightarrow> ('k \<times> 'v) list \<Rightarrow> ('k \<times> 'v) list" where
  "delete_all ks m = fold AList.delete ks m"

lemma wf_map_Nil [simp, intro]: "wf_map []"
  by (simp add: wf_map_def)

lemma wf_map_update [simp, intro]: "wf_map m \<Longrightarrow> wf_map (AList.update k v m)"
  by (simp add: wf_map_def distinct_update)

lemma wf_map_delete [simp, intro]: "wf_map m \<Longrightarrow> wf_map (AList.delete k m)"
  by (simp add: wf_map_def distinct_delete)

lemma delete_all_simps [simp]:
  "delete_all [] m = m"
  "delete_all (k # ks) m = delete_all ks (AList.delete k m)"
  by (simp_all add: delete_all_def)

lemma wf_map_delete_all [simp, intro]: "wf_map m \<Longrightarrow> wf_map (delete_all ks m)"
  by (induction ks arbitrary: m) auto

lemma map_of_delete [simp]: "map_of (AList.delete k m) = (map_of m)(k := None)"
  by (simp add: AList.delete_conv')

lemma map_of_update [simp]: "map_of (AList.update k v m) = (map_of m)(k \<mapsto> v)"
  by (simp add: AList.update_conv')

lemma map_of_delete_all [simp]:
  "map_of (delete_all ks m) k = (if k \<in> set ks then None else map_of m k)"
  by (induction ks arbitrary: m) auto

lemma wf_map_ran: "wf_map m \<Longrightarrow> v \<in> snd ` set m \<longleftrightarrow> (\<exists>k. map_of m k = Some v)"
  by (force simp: wf_map_def map_of_eq_Some_iff)

end
