(* ===== verification/Consts.thy ===== *)
theory Consts
  imports Prelude
begin

text \<open>
  The protocol constants of \<open>src/consts.rs\<close>. Durations are nanoseconds; the message limits are
  64 bit words, computed as in the source.
\<close>

definition secs :: "nat \<Rightarrow> duration" where
  "secs n = n * 1000000000"

definition millis :: "nat \<Rightarrow> duration" where
  "millis n = n * 1000000"

text \<open>\<open>Duration::as_secs\<close> and \<open>Duration::subsec_nanos\<close>.\<close>

definition as_secs :: "duration \<Rightarrow> nat" where
  "as_secs d = d div 1000000000"

definition subsec_nanos :: "duration \<Rightarrow> nat" where
  "subsec_nanos d = d mod 1000000000"

definition REKEY_ATTEMPT_TIME :: duration where "REKEY_ATTEMPT_TIME = secs 90"
definition REJECT_AFTER_TIME :: duration where "REJECT_AFTER_TIME = secs 180"
definition REKEY_AFTER_TIME :: duration where "REKEY_AFTER_TIME = secs 120"
definition REKEY_TIMEOUT :: duration where "REKEY_TIMEOUT = secs 5"
definition KEEPALIVE_TIMEOUT :: duration where "KEEPALIVE_TIMEOUT = secs 10"

definition REKEY_AFTER_TIME_RECV :: duration where
  "REKEY_AFTER_TIME_RECV = REJECT_AFTER_TIME - KEEPALIVE_TIMEOUT - REKEY_TIMEOUT"

definition WIPE_AFTER_TIME :: duration where "WIPE_AFTER_TIME = REJECT_AFTER_TIME * 3"

definition STALE_SESSION_TIMEOUT :: duration where
  "STALE_SESSION_TIMEOUT = KEEPALIVE_TIMEOUT + REKEY_TIMEOUT"

definition TIMER_RESOLUTION :: duration where "TIMER_RESOLUTION = millis 100"
definition COOKIE_REFRESH_TIME :: duration where "COOKIE_REFRESH_TIME = secs 120"
definition UNDER_LOAD_TIME :: duration where "UNDER_LOAD_TIME = secs 1"

definition MAX_HANDSHAKE_ATTEMPTS :: u64 where
  "MAX_HANDSHAKE_ATTEMPTS =
     word_of_nat (as_secs REKEY_ATTEMPT_TIME div as_secs REKEY_TIMEOUT - 1)"

definition U64_MAX :: u64 where "U64_MAX = - 1"

definition REKEY_AFTER_MESSAGES :: u64 where
  "REKEY_AFTER_MESSAGES = U64_MAX - push_bit 16 1 - 1"

definition REJECT_AFTER_MESSAGES :: u64 where
  "REJECT_AFTER_MESSAGES = U64_MAX - push_bit 4 1 - 1"

definition TRANSPORT_HEADER_SIZE :: nat where "TRANSPORT_HEADER_SIZE = 16"
definition AEAD_TAG_SIZE :: nat where "AEAD_TAG_SIZE = 16"

definition TRANSPORT_OVERHEAD :: nat where
  "TRANSPORT_OVERHEAD = TRANSPORT_HEADER_SIZE + AEAD_TAG_SIZE"

definition MAX_SEGMENT_SIZE :: nat where "MAX_SEGMENT_SIZE = 2 ^ 16 - 1"

definition MAX_CONTENT_SIZE :: nat where
  "MAX_CONTENT_SIZE = MAX_SEGMENT_SIZE - TRANSPORT_OVERHEAD"

definition PADDING_MULTIPLE :: nat where "PADDING_MULTIPLE = 16"
definition MAX_QUEUED_HANDSHAKES :: nat where "MAX_QUEUED_HANDSHAKES = 4096"

definition UNDER_LOAD_QUEUE_SIZE :: nat where
  "UNDER_LOAD_QUEUE_SIZE = MAX_QUEUED_HANDSHAKES div 8"

definition MAX_QUEUED_PACKETS :: nat where "MAX_QUEUED_PACKETS = 1024"
definition MAX_PEERS_PER_DEVICE :: nat where "MAX_PEERS_PER_DEVICE = 2 ^ 20"

lemmas time_defs =
  secs_def millis_def as_secs_def REKEY_ATTEMPT_TIME_def REJECT_AFTER_TIME_def REKEY_AFTER_TIME_def
  REKEY_TIMEOUT_def KEEPALIVE_TIMEOUT_def REKEY_AFTER_TIME_RECV_def WIPE_AFTER_TIME_def
  STALE_SESSION_TIMEOUT_def TIMER_RESOLUTION_def COOKIE_REFRESH_TIME_def UNDER_LOAD_TIME_def

lemmas size_defs =
  TRANSPORT_HEADER_SIZE_def AEAD_TAG_SIZE_def TRANSPORT_OVERHEAD_def MAX_SEGMENT_SIZE_def
  MAX_CONTENT_SIZE_def PADDING_MULTIPLE_def MAX_QUEUED_HANDSHAKES_def UNDER_LOAD_QUEUE_SIZE_def
  MAX_QUEUED_PACKETS_def MAX_PEERS_PER_DEVICE_def

lemma MAX_HANDSHAKE_ATTEMPTS_value: "MAX_HANDSHAKE_ATTEMPTS = 17"
  by (simp add: MAX_HANDSHAKE_ATTEMPTS_def time_defs)

lemma REKEY_AFTER_MESSAGES_value: "REKEY_AFTER_MESSAGES = 18446744073709486078"
  by (simp add: REKEY_AFTER_MESSAGES_def U64_MAX_def)

lemma REJECT_AFTER_MESSAGES_value: "REJECT_AFTER_MESSAGES = 18446744073709551598"
  by (simp add: REJECT_AFTER_MESSAGES_def U64_MAX_def)

end
