(* ===== verification/AntiReplay.thy ===== *)
theory AntiReplay
  imports Consts
begin

text \<open>
  \<open>src/anti_replay.rs\<close>: the sliding window bitmap of RFC 6479 that every session filters its
  incoming nonces with. The bitmap and the counter keep their widths (\<open>[u32; 64]\<close>, \<open>u64\<close>).

  The specification is a filter that remembers every accepted number: \<open>window_accepts\<close>. The locale
  \<open>replay_filter\<close> is the contract the sessions rely on; it is interpreted on the bitmap.
\<close>

section \<open>The code\<close>

definition BITMAP_BITLEN :: u64 where "BITMAP_BITLEN = 2048"
definition SIZE_OF_INTEGER :: u64 where "SIZE_OF_INTEGER = 32"
definition BITMAP_LEN :: nat where "BITMAP_LEN = unat (BITMAP_BITLEN div SIZE_OF_INTEGER)"
definition BITMAP_INDEX_MASK :: u64 where "BITMAP_INDEX_MASK = word_of_nat BITMAP_LEN - 1"
definition REDUNDANT_BIT_SHIFTS :: nat where "REDUNDANT_BIT_SHIFTS = 5"
definition BITMAP_LOC_MASK :: u64 where "BITMAP_LOC_MASK = SIZE_OF_INTEGER - 1"
definition WINDOW_SIZE :: u64 where "WINDOW_SIZE = BITMAP_BITLEN - SIZE_OF_INTEGER"

record anti_replay =
  ar_bitmap :: "u32 list"
  ar_last :: u64

definition ar_new :: anti_replay where
  "ar_new = \<lparr>ar_bitmap = replicate BITMAP_LEN 0, ar_last = 0\<rparr>"

definition ar_check :: "anti_replay \<Rightarrow> u64 \<Rightarrow> bool" where
  "ar_check ar seq =
     (if seq > ar_last ar then True
      else if ar_last ar - seq > WINDOW_SIZE then False
      else
        let bit_location = seq AND BITMAP_LOC_MASK;
            index = drop_bit REDUNDANT_BIT_SHIFTS seq AND BITMAP_INDEX_MASK
        in ar_bitmap ar ! unat index AND push_bit (unat bit_location) 1 = 0)"

text \<open>The loop \<open>for i in 0..diff\<close> that clears the blocks the window moves over.\<close>

definition ar_clear :: "u64 \<Rightarrow> u64 \<Rightarrow> u32 list \<Rightarrow> u32 list" where
  "ar_clear index_cur diff bm =
     fold (\<lambda>i bm. bm[unat ((index_cur + word_of_nat i + 1) AND BITMAP_INDEX_MASK) := 0])
       [0..<unat diff] bm"

text \<open>The block under \<open>if seq > self.last\<close>.\<close>

definition ar_advance :: "anti_replay \<Rightarrow> u64 \<Rightarrow> anti_replay" where
  "ar_advance ar seq =
     (if seq > ar_last ar then
        let index = drop_bit REDUNDANT_BIT_SHIFTS seq;
            index_cur = drop_bit REDUNDANT_BIT_SHIFTS (ar_last ar);
            diff = index - index_cur
        in ar\<lparr>ar_bitmap := (if diff \<ge> word_of_nat BITMAP_LEN then replicate BITMAP_LEN 0
                           else ar_clear index_cur diff (ar_bitmap ar)),
              ar_last := seq\<rparr>
      else ar)"

definition ar_update_store :: "anti_replay \<Rightarrow> u64 \<Rightarrow> anti_replay" where
  "ar_update_store ar seq =
     (let ar = ar_advance ar seq;
          index = drop_bit REDUNDANT_BIT_SHIFTS seq AND BITMAP_INDEX_MASK;
          bit_location = seq AND BITMAP_LOC_MASK
      in ar\<lparr>ar_bitmap := (ar_bitmap ar)
             [unat index := ar_bitmap ar ! unat index OR push_bit (unat bit_location) 1]\<rparr>)"

definition ar_update :: "anti_replay \<Rightarrow> u64 \<Rightarrow> unit result \<times> anti_replay" where
  "ar_update ar seq =
     (if ar_check ar seq then (Inr (), ar_update_store ar seq)
      else (Inl (Err ''replayed nonce''), ar))"

lemmas ar_const_defs = BITMAP_BITLEN_def SIZE_OF_INTEGER_def BITMAP_LEN_def BITMAP_INDEX_MASK_def
  REDUNDANT_BIT_SHIFTS_def BITMAP_LOC_MASK_def WINDOW_SIZE_def

section \<open>The specification\<close>

text \<open>The largest number accepted so far, and the verdict on the next one: fresh, and not more than
  the window behind.\<close>

fun top_seq :: "u64 list \<Rightarrow> nat" where
  "top_seq [] = 0"
| "top_seq (x # hist) = max (unat x) (top_seq hist)"

definition window_accepts :: "u64 list \<Rightarrow> u64 \<Rightarrow> bool" where
  "window_accepts hist seq \<longleftrightarrow> seq \<notin> set hist \<and> top_seq hist \<le> unat seq + 2016"

fun window_run :: "u64 list \<Rightarrow> u64 list \<Rightarrow> bool list" where
  "window_run hist [] = []"
| "window_run hist (x # xs) =
     window_accepts hist x # window_run (if window_accepts hist x then x # hist else hist) xs"

lemma top_seq_ge: "x \<in> set hist \<Longrightarrow> unat x \<le> top_seq hist"
  by (induction hist) auto

text \<open>The filter as a run over a stream of numbers, for any implementation of the update.\<close>

fun filter_run :: "('s \<Rightarrow> u64 \<Rightarrow> unit result \<times> 's) \<Rightarrow> 's \<Rightarrow> u64 list \<Rightarrow> bool list" where
  "filter_run upd s [] = []"
| "filter_run upd s (x # xs) = (\<not> isl (fst (upd s x))) # filter_run upd (snd (upd s x)) xs"

text \<open>The numbers that were let through.\<close>

definition accepted :: "bool list \<Rightarrow> u64 list \<Rightarrow> u64 list" where
  "accepted vs xs = map snd (filter fst (zip vs xs))"

lemma accepted_simps [simp]:
  "accepted [] xs = []"
  "accepted vs [] = []"
  "accepted (v # vs) (x # xs) = (if v then x # accepted vs xs else accepted vs xs)"
  by (simp_all add: accepted_def)

lemma window_run_distinct:
  "distinct hist \<Longrightarrow> distinct (rev hist @ accepted (window_run hist xs) xs)"
proof (induction xs arbitrary: hist)
  case Nil
  then show ?case by simp
next
  case (Cons x xs)
  show ?case
  proof (cases "window_accepts hist x")
    case True
    then have "distinct (x # hist)" using Cons.prems by (simp add: window_accepts_def)
    from Cons.IH [OF this] True show ?thesis by simp
  next
    case False
    with Cons show ?thesis by simp
  qed
qed

section \<open>The contract\<close>

locale replay_filter =
  fixes new :: 's
    and update :: "'s \<Rightarrow> u64 \<Rightarrow> unit result \<times> 's"
    and models :: "u64 list \<Rightarrow> 's \<Rightarrow> bool"
  assumes models_new: "models [] new"
    and models_accept: "models hist s \<Longrightarrow> window_accepts hist x \<Longrightarrow>
      \<exists>s'. update s x = (Inr (), s') \<and> models (x # hist) s'"
    and models_reject: "models hist s \<Longrightarrow> \<not> window_accepts hist x \<Longrightarrow>
      \<exists>e. update s x = (Inl e, s)"
begin

lemma run_refines: "models hist s \<Longrightarrow> filter_run update s xs = window_run hist xs"
proof (induction xs arbitrary: hist s)
  case Nil
  then show ?case by simp
next
  case (Cons x xs)
  show ?case
  proof (cases "window_accepts hist x")
    case True
    with Cons.prems obtain s' where "update s x = (Inr (), s')" and "models (x # hist) s'"
      using models_accept by blast
    with True Cons.IH show ?thesis by simp
  next
    case False
    with Cons.prems obtain e where "update s x = (Inl e, s)"
      using models_reject by blast
    with False Cons.IH [OF Cons.prems] show ?thesis by simp
  qed
qed

lemma run_new: "filter_run update new xs = window_run [] xs"
  by (rule run_refines) (rule models_new)

lemma accepted_once: "distinct (accepted (filter_run update new xs) xs)"
  using window_run_distinct [of "[]" xs] by (simp add: run_new)

lemma accept_then_reject:
  assumes "models hist s" and "update s x = (Inr (), s')"
  shows "\<exists>e. update s' x = (Inl e, s')"
proof -
  have "window_accepts hist x"
    using assms models_reject [OF assms(1)] by fastforce
  with assms have "models (x # hist) s'"
    using models_accept [OF assms(1)] by fastforce
  moreover have "\<not> window_accepts (x # hist) x" by (simp add: window_accepts_def)
  ultimately show ?thesis by (rule models_reject)
qed

end

section \<open>Words as numbers\<close>

lemma ar_consts [simp]:
  "BITMAP_LEN = 64" "BITMAP_INDEX_MASK = mask 6" "REDUNDANT_BIT_SHIFTS = 5"
  "BITMAP_LOC_MASK = mask 5" "WINDOW_SIZE = 2016"
  by (simp_all add: ar_const_defs mask_eq_exp_minus_1)

lemma unat_index: "unat (drop_bit 5 (seq :: u64) AND mask 6) = unat seq div 32 mod 64"
  by (simp add: word_nat)

lemma unat_location: "unat ((seq :: u64) AND mask 5) = unat seq mod 32"
  by (simp add: word_nat)

lemma unat_block: "unat (drop_bit 5 (seq :: u64)) = unat seq div 32"
  by (simp add: word_nat)

lemma pred_diff_less: "a < b \<Longrightarrow> b \<le> c \<Longrightarrow> b - Suc a < c - (a :: nat)"
  by arith

lemma mod64_near_eq:
  assumes "a mod 64 = b mod 64" and "a \<le> b" and "b < a + (64 :: nat)"
  shows "a = b"
proof -
  have "64 dvd b - a"
    using assms(1,2) by (metis mod_eq_dvd_iff_nat)
  moreover have "b - a < 64" using assms(2,3) by linarith
  ultimately have "b - a = 0" by (metis nat_dvd_not_less neq0_conv)
  then show ?thesis using assms(2) by simp
qed

section \<open>The bitmap implements the specification\<close>

text \<open>
  The bitmap holds 64 blocks of 32 numbers. For every number in the 64 blocks up to the block of
  \<open>last\<close>, its bit says whether the number was accepted.
\<close>

definition ar_models :: "u64 list \<Rightarrow> anti_replay \<Rightarrow> bool" where
  "ar_models hist ar \<longleftrightarrow>
     length (ar_bitmap ar) = 64 \<and> unat (ar_last ar) = top_seq hist \<and>
     (\<forall>n. n div 32 \<le> top_seq hist div 32 \<and> top_seq hist div 32 < n div 32 + 64 \<longrightarrow>
        (bit (ar_bitmap ar ! (n div 32 mod 64)) (n mod 32) \<longleftrightarrow> n \<in> unat ` set hist))"

lemma ar_models_bit:
  assumes "ar_models hist ar" and "n div 32 \<le> top_seq hist div 32" and "top_seq hist div 32 < n div 32 + 64"
  shows "bit (ar_bitmap ar ! (n div 32 mod 64)) (n mod 32) \<longleftrightarrow> n \<in> unat ` set hist"
  using assms by (simp add: ar_models_def)

lemma ar_clear_nth:
  assumes "length bm = 64" and "unat cur < 2 ^ 59" and "d < 64" and "j < 64"
  shows "fold (\<lambda>i bm. bm[unat ((cur + word_of_nat i + 1 :: u64) AND mask 6) := 0]) [0..<d] bm ! j =
    (if \<exists>i < d. (unat cur + i + 1) mod 64 = j then 0 else bm ! j)
    \<and> length (fold (\<lambda>i bm. bm[unat ((cur + word_of_nat i + 1 :: u64) AND mask 6) := 0]) [0..<d] bm) = 64"
  using assms(3)
proof (induction d)
  case 0
  then show ?case using assms by simp
next
  case (Suc d)
  have eq: "cur + word_of_nat d + 1 = (word_of_nat (unat cur + d + 1) :: u64)" by simp
  have "unat (word_of_nat (unat cur + d + 1) :: u64) = (unat cur + d + 1) mod 2 ^ LENGTH(64)"
    by (rule unat_of_nat)
  then have "unat ((cur + word_of_nat d + 1 :: u64) AND mask 6) = (unat cur + d + 1) mod 64"
    unfolding eq unat_and_mask using assms(2) Suc.prems by simp
  with Suc assms show ?case
    by (auto simp: nth_list_update less_Suc_eq)
qed

lemma ar_clear_spec:
  assumes "length bm = 64" and "unat cur < 2 ^ 59" and "unat diff < 64"
  shows "length (ar_clear cur diff bm) = 64"
    and "j < 64 \<Longrightarrow> ar_clear cur diff bm ! j =
      (if \<exists>i < unat diff. (unat cur + i + 1) mod 64 = j then 0 else bm ! j)"
  using ar_clear_nth [OF assms, of 0] ar_clear_nth [OF assms, of j] by (simp_all add: ar_clear_def)

lemma ar_models_new: "ar_models [] ar_new"
  by (simp add: ar_models_def ar_new_def)

text \<open>The check computes the verdict of the specification.\<close>

lemma ar_check_iff:
  assumes "ar_models hist ar"
  shows "ar_check ar seq \<longleftrightarrow> window_accepts hist seq"
proof -
  let ?L = "unat (ar_last ar)" and ?N = "unat seq"
  have L: "?L = top_seq hist" using assms by (simp add: ar_models_def)
  show ?thesis
  proof (cases "ar_last ar < seq")
    case True
    then have "?L < ?N" by (simp add: word_less_nat_alt)
    then have "seq \<notin> set hist" using L top_seq_ge [of seq hist] by fastforce
    with True \<open>?L < ?N\<close> L show ?thesis by (simp add: ar_check_def window_accepts_def)
  next
    case False
    then have le: "?N \<le> ?L" by (simp add: word_less_nat_alt)
    then have "unat (ar_last ar - seq) = ?L - ?N"
      by (simp add: unat_sub word_le_nat_alt)
    then have far: "2016 < ar_last ar - seq \<longleftrightarrow> 2016 < ?L - ?N"
      by (simp add: word_less_nat_alt)
    show ?thesis
    proof (cases "2016 < ?L - ?N")
      case True
      with False far L show ?thesis by (auto simp: ar_check_def window_accepts_def)
    next
      case near: False
      have "?N div 32 \<le> top_seq hist div 32" and "top_seq hist div 32 < ?N div 32 + 64"
        using le near L by auto
      from ar_models_bit [OF assms this] near le L False far show ?thesis
        by (auto simp: ar_check_def window_accepts_def unat_index unat_location and_push_one_eq_0
            simp del: push_bit_of_1)
    qed
  qed
qed

text \<open>Setting the bit of a number inside the window adds exactly that number.\<close>

lemma mod64_window_eq:
  assumes "a mod 64 = b mod 64" and "a \<le> (t :: nat)" "t < a + 64" and "b \<le> t" "t < b + 64"
  shows "a = b"
  using assms mod64_near_eq [of a b] mod64_near_eq [of b a] by linarith

lemma set_bit_window:
  fixes bm :: "u32 list"
  assumes "length bm = 64" and "N div 32 \<le> t" "t < N div 32 + 64"
    and old: "\<And>n. n div 32 \<le> t \<Longrightarrow> t < n div 32 + 64 \<Longrightarrow>
      bit (bm ! (n div 32 mod 64)) (n mod 32) \<longleftrightarrow> n \<in> H"
    and n: "n div 32 \<le> t" "t < n div 32 + 64"
  shows "bit (bm[N div 32 mod 64 := bm ! (N div 32 mod 64) OR push_bit (N mod 32) 1] ! (n div 32 mod 64)) (n mod 32)
    \<longleftrightarrow> n \<in> insert N H"
proof (cases "n div 32 mod 64 = N div 32 mod 64")
  case True
  then have blk: "n div 32 = N div 32"
    using n assms(2,3) by (rule mod64_window_eq)
  then have "n = N \<longleftrightarrow> n mod 32 = N mod 32"
    by (metis div_mult_mod_eq)
  with True old [OF n] assms(1) blk show ?thesis
    by (auto simp: bit_or_push_one simp del: push_bit_of_1)
next
  case False
  then have "n \<noteq> N" by auto
  with False old [OF n] show ?thesis by (simp add: nth_list_update)
qed

text \<open>Moving the window forward keeps the bits of the numbers that stay inside and clears the rest.\<close>

lemma clear_window:
  assumes "ar_models hist ar" and lt: "ar_last ar < seq"
    and n: "n div 32 \<le> unat seq div 32" "unat seq div 32 < n div 32 + 64"
  shows "bit (ar_bitmap (ar_advance ar seq) ! (n div 32 mod 64)) (n mod 32) \<longleftrightarrow> n \<in> unat ` set hist"
    and "length (ar_bitmap (ar_advance ar seq)) = 64"
proof -
  define cur where "cur = drop_bit 5 (ar_last ar)"
  define diff where "diff = drop_bit 5 seq - drop_bit 5 (ar_last ar)"
  define bm where "bm = (if diff \<ge> 64 then replicate 64 0 else ar_clear cur diff (ar_bitmap ar))"
  have adv: "ar_bitmap (ar_advance ar seq) = bm"
    using lt by (simp add: ar_advance_def bm_def diff_def cur_def Let_def)
  let ?L = "unat (ar_last ar)" and ?N = "unat seq"
  have L: "?L = top_seq hist" and len: "length (ar_bitmap ar) = 64"
    using assms(1) by (simp_all add: ar_models_def)
  have LN: "?L < ?N" using lt by (simp add: word_less_nat_alt)
  have cur: "unat cur = ?L div 32" and "drop_bit 5 (ar_last ar) \<le> drop_bit 5 seq"
    using LN by (simp_all add: cur_def unat_block word_le_nat_alt div_le_mono)
  then have diff: "unat diff = ?N div 32 - ?L div 32"
    by (simp add: diff_def unat_sub unat_block)
  have cur59: "unat cur < 2 ^ 59"
    using unat_u64_less [of "ar_last ar"] by (simp add: cur less_mult_imp_div_less)
  have big: "64 \<le> diff \<longleftrightarrow> 64 \<le> unat diff" by (simp add: word_le_nat_alt)
  have far: "n \<notin> unat ` set hist" if "?L div 32 < n div 32"
  proof
    assume "n \<in> unat ` set hist"
    then have "n \<le> ?L" using L top_seq_ge by auto
    then have "n div 32 \<le> ?L div 32" by (rule div_le_mono)
    with that show False by simp
  qed
  show "length (ar_bitmap (ar_advance ar seq)) = 64"
    unfolding adv using big ar_clear_spec(1) [OF len cur59] by (simp add: bm_def)
  show "bit (ar_bitmap (ar_advance ar seq) ! (n div 32 mod 64)) (n mod 32) \<longleftrightarrow> n \<in> unat ` set hist"
  proof (cases "64 \<le> unat diff")
    case True
    then have "?L div 32 < n div 32" using n diff by linarith
    with True big far show ?thesis by (simp add: bm_def adv)
  next
    case False
    then have nth: "bm ! (n div 32 mod 64) =
        (if \<exists>i < unat diff. (?L div 32 + i + 1) mod 64 = n div 32 mod 64 then 0
         else ar_bitmap ar ! (n div 32 mod 64))"
      using big ar_clear_spec(2) [OF len cur59] by (simp add: bm_def cur)
    show ?thesis
    proof (cases "?L div 32 < n div 32")
      case True
      then have "n div 32 - ?L div 32 - 1 < unat diff \<and>
          (?L div 32 + (n div 32 - ?L div 32 - 1) + 1) mod 64 = n div 32 mod 64"
        using pred_diff_less [OF _ n(1)] diff by simp
      then have "bm ! (n div 32 mod 64) = 0" unfolding nth by (intro if_P exI)
      with far [OF True] show ?thesis by (simp add: adv)
    next
      case old: False
      have "\<not> (\<exists>i < unat diff. (?L div 32 + i + 1) mod 64 = n div 32 mod 64)"
      proof
        assume "\<exists>i < unat diff. (?L div 32 + i + 1) mod 64 = n div 32 mod 64"
        then obtain i where i: "i < unat diff" "(?L div 32 + i + 1) mod 64 = n div 32 mod 64" by blast
        have "n div 32 \<le> ?L div 32 + i + 1" and "?L div 32 + i + 1 < n div 32 + 64"
          using i(1) n(2) old unfolding diff by linarith+
        from mod64_near_eq [OF i(2) [symmetric] this] old show False by linarith
      qed
      then have "bm ! (n div 32 mod 64) = ar_bitmap ar ! (n div 32 mod 64)"
        unfolding nth by (rule if_not_P)
      moreover have "n div 32 \<le> top_seq hist div 32" and "top_seq hist div 32 < n div 32 + 64"
        using old n(2) div_le_mono [of ?L ?N 32] LN unfolding L by linarith+
      ultimately show ?thesis
        using ar_models_bit [OF assms(1)] by (simp only: adv)
    qed
  qed
qed

lemma ar_models_store:
  assumes "ar_models hist ar" and acc: "window_accepts hist seq"
  shows "ar_models (seq # hist) (ar_update_store ar seq)"
proof (cases "ar_last ar < seq")
  case True
  have L: "unat (ar_last ar) = top_seq hist" using assms(1) by (simp add: ar_models_def)
  then have top: "top_seq (seq # hist) = unat seq" using True by (simp add: word_less_nat_alt)
  have last: "ar_last (ar_advance ar seq) = seq" using True by (simp add: ar_advance_def Let_def)
  have len: "length (ar_bitmap (ar_advance ar seq)) = 64"
    by (rule clear_window(2) [OF assms(1) True, of "unat seq"]) simp_all
  have bits: "bit ((ar_bitmap (ar_advance ar seq))[unat seq div 32 mod 64 :=
      ar_bitmap (ar_advance ar seq) ! (unat seq div 32 mod 64) OR push_bit (unat seq mod 32) 1] !
        (n div 32 mod 64)) (n mod 32) \<longleftrightarrow> n \<in> insert (unat seq) (unat ` set hist)"
    if "n div 32 \<le> unat seq div 32" "unat seq div 32 < n div 32 + 64" for n
    by (rule set_bit_window [OF len _ _ clear_window(1) [OF assms(1) True] that]) simp_all
  show ?thesis
    unfolding ar_models_def top ar_update_store_def Let_def
    using len last bits by (simp add: unat_index unat_location del: push_bit_of_1)
next
  case False
  have L: "unat (ar_last ar) = top_seq hist" and len: "length (ar_bitmap ar) = 64"
    using assms(1) by (simp_all add: ar_models_def)
  have top: "top_seq (seq # hist) = top_seq hist"
    using False L by (simp add: word_less_nat_alt)
  have win: "unat seq div 32 \<le> top_seq hist div 32" "top_seq hist div 32 < unat seq div 32 + 64"
    using acc False L by (auto simp: window_accepts_def word_less_nat_alt div_le_mono)
  show ?thesis
    unfolding ar_models_def top ar_update_store_def ar_advance_def Let_def
    using False L len set_bit_window [OF len win ar_models_bit [OF assms(1)]]
    by (simp add: unat_index unat_location del: push_bit_of_1)
qed

interpretation bitmap: replay_filter ar_new ar_update ar_models
proof unfold_locales
  show "ar_models [] ar_new" by (rule ar_models_new)
next
  fix hist s x
  assume "ar_models hist s" "window_accepts hist x"
  then show "\<exists>s'. ar_update s x = (Inr (), s') \<and> ar_models (x # hist) s'"
    by (simp add: ar_update_def ar_check_iff ar_models_store)
next
  fix hist s x
  assume "ar_models hist s" "\<not> window_accepts hist x"
  then show "\<exists>e. ar_update s x = (Inl e, s)"
    by (simp add: ar_update_def ar_check_iff)
qed

section \<open>Properties\<close>

text \<open>C18: on every sequence of nonces, of any length and in any order, the RFC 6479 bitmap gives
  exactly the verdicts of the specification that remembers all accepted nonces: a nonce passes
  iff it was not accepted before and is at most 2016 behind the largest accepted one.\<close>

theorem anti_replay_refines_window: "filter_run ar_update ar_new xs = window_run [] xs"
  by (rule bitmap.run_new)

text \<open>Whatever an attacker replays, no nonce is accepted twice.\<close>

lemma anti_replay_accepts_once: "distinct (accepted (filter_run ar_update ar_new xs) xs)"
  by (rule bitmap.accepted_once)

text \<open>States of a filter that has seen any traffic.\<close>

definition ar_reachable :: "anti_replay \<Rightarrow> bool" where
  "ar_reachable ar \<longleftrightarrow> (\<exists>hist. ar_models hist ar)"

lemma ar_reachable_new [simp, intro]: "ar_reachable ar_new"
  using ar_models_new by (auto simp: ar_reachable_def)

lemma ar_reachable_update: "ar_reachable ar \<Longrightarrow> ar_reachable (snd (ar_update ar seq))"
  unfolding ar_reachable_def ar_update_def using ar_models_store [of _ ar seq] ar_check_iff [of _ ar seq]
  by fastforce

lemma ar_update_replay:
  "ar_reachable ar \<Longrightarrow> ar_update ar seq = (Inr (), ar') \<Longrightarrow> \<not> ar_check ar' seq"
  using bitmap.accept_then_reject by (fastforce simp: ar_reachable_def ar_update_def split: if_splits)

lemma ar_reachable_bitmap: "ar_reachable ar \<Longrightarrow> length (ar_bitmap ar) = BITMAP_LEN"
  by (auto simp: ar_reachable_def ar_models_def)

lemma ar_index_in_range: "unat (drop_bit REDUNDANT_BIT_SHIFTS seq AND BITMAP_INDEX_MASK) < BITMAP_LEN"
  by (simp add: unat_index)

end
