(* ===== verification/Message.thy ===== *)
theory Message
  imports Consts
begin

text \<open>
  \<open>src/message.rs\<close>: the four message types of the protocol, their parser and the accessors of
  their fields. The newtypes \<open>Initiation(Vec<u8>)\<close>, \dots dereference to their bytes and are byte
  lists here; what their \<open>TryFrom\<close> guarantees is \<open>wf_message\<close>.
\<close>

section \<open>Types and parser\<close>

type_synonym initiation = bytes
type_synonym response = bytes
type_synonym cookie_reply = bytes
type_synonym transport = bytes

datatype message =
    Initiation initiation
  | Response response
  | CookieReply cookie_reply
  | Transport transport

definition initiation_try_from :: "bytes \<Rightarrow> initiation result" where
  "initiation_try_from packet =
     (if length packet = 148 then Inr packet
      else Inl (Err ''incorrect handshake initiation packet length.''))"

definition response_try_from :: "bytes \<Rightarrow> response result" where
  "response_try_from packet =
     (if length packet = 92 then Inr packet
      else Inl (Err ''incorrect handshake response packet length.''))"

definition cookie_reply_try_from :: "bytes \<Rightarrow> cookie_reply result" where
  "cookie_reply_try_from packet =
     (if length packet = 64 then Inr packet
      else Inl (Err ''incorrect cookie reply packet length.''))"

definition transport_try_from :: "bytes \<Rightarrow> transport result" where
  "transport_try_from packet =
     (if length packet \<ge> 32 then Inr packet
      else Inl (Err ''transport message smaller than minimum length.''))"

text \<open>\<open>match packet[0]\<close> panics on an empty packet.\<close>

definition message_try_from :: "bytes \<Rightarrow> message result" where
  "message_try_from packet =
     (if packet = [] then Inl (Panicked IndexOutOfBounds)
      else if packet ! 0 = 1 then map_sum id Initiation (initiation_try_from packet)
      else if packet ! 0 = 2 then map_sum id Response (response_try_from packet)
      else if packet ! 0 = 3 then map_sum id CookieReply (cookie_reply_try_from packet)
      else if packet ! 0 = 4 then map_sum id Transport (transport_try_from packet)
      else Inl (Err ''unknown wireguard message type''))"

section \<open>Accessors\<close>

definition initiation_sender_index :: "initiation \<Rightarrow> u32" where
  "initiation_sender_index p = read_u32 (drop 4 p)"

definition initiation_noise_bytes :: "initiation \<Rightarrow> bytes" where
  "initiation_noise_bytes p = slice 8 116 p"

definition initiation_mac1 :: "initiation \<Rightarrow> bytes" where
  "initiation_mac1 p = slice 84 100 p"

definition response_sender_index :: "response \<Rightarrow> u32" where
  "response_sender_index p = read_u32 (drop 4 p)"

definition response_receiver_index :: "response \<Rightarrow> u32" where
  "response_receiver_index p = read_u32 (drop 8 p)"

definition response_noise_bytes :: "response \<Rightarrow> bytes" where
  "response_noise_bytes p = slice 12 60 p"

definition response_mac1 :: "response \<Rightarrow> bytes" where
  "response_mac1 p = slice 60 76 p"

definition response_mac2 :: "response \<Rightarrow> bytes" where
  "response_mac2 p = slice 76 92 p"

definition cookie_reply_new :: cookie_reply where
  "cookie_reply_new = (replicate 64 0)[0 := 3]"

definition cookie_reply_receiver_index :: "cookie_reply \<Rightarrow> u32" where
  "cookie_reply_receiver_index p = read_u32 (slice 4 8 p)"

definition cookie_reply_set_receiver_index :: "u32 \<Rightarrow> cookie_reply \<Rightarrow> cookie_reply" where
  "cookie_reply_set_receiver_index index p = write_u32 4 index p"

definition cookie_reply_nonce :: "cookie_reply \<Rightarrow> bytes" where
  "cookie_reply_nonce p = slice 8 32 p"

text \<open>Writing through \<open>nonce_mut\<close>, and through the two halves of \<open>nonce_cookie_mut\<close>.\<close>

definition cookie_reply_set_nonce :: "bytes \<Rightarrow> cookie_reply \<Rightarrow> cookie_reply" where
  "cookie_reply_set_nonce bs p = put_slice 8 bs p"

definition cookie_reply_set_cookie :: "bytes \<Rightarrow> cookie_reply \<Rightarrow> cookie_reply" where
  "cookie_reply_set_cookie bs p = put_slice 32 bs p"

definition cookie_reply_cookie :: "cookie_reply \<Rightarrow> bytes" where
  "cookie_reply_cookie p = slice 32 48 p"

definition cookie_reply_aead_tag :: "cookie_reply \<Rightarrow> bytes" where
  "cookie_reply_aead_tag p = slice 48 64 p"

definition transport_our_index :: "transport \<Rightarrow> u32" where
  "transport_our_index p = read_u32 (drop 4 p)"

definition transport_nonce :: "transport \<Rightarrow> u64" where
  "transport_nonce p = read_u64 (slice 8 16 p)"

definition transport_payload :: "transport \<Rightarrow> bytes" where
  "transport_payload p = drop 16 p"

section \<open>What the parser guarantees\<close>

fun wf_message :: "message \<Rightarrow> bool" where
  "wf_message (Initiation p) \<longleftrightarrow> length p = 148 \<and> p ! 0 = 1"
| "wf_message (Response p) \<longleftrightarrow> length p = 92 \<and> p ! 0 = 2"
| "wf_message (CookieReply p) \<longleftrightarrow> length p = 64 \<and> p ! 0 = 3"
| "wf_message (Transport p) \<longleftrightarrow> 32 \<le> length p \<and> p ! 0 = 4"

fun message_bytes :: "message \<Rightarrow> bytes" where
  "message_bytes (Initiation p) = p"
| "message_bytes (Response p) = p"
| "message_bytes (CookieReply p) = p"
| "message_bytes (Transport p) = p"

lemmas try_from_defs = initiation_try_from_def response_try_from_def cookie_reply_try_from_def
  transport_try_from_def

text \<open>C25: the parser accepts a packet as a message exactly when the message is well formed and
  consists of the bytes of the packet; the only packet on which it panics is the empty one.\<close>

theorem message_try_from_iff:
  "(message_try_from packet = Inr msg \<longleftrightarrow> wf_message msg \<and> message_bytes msg = packet) \<and>
   (message_try_from packet = Inl (Panicked e) \<longleftrightarrow> packet = [] \<and> e = IndexOutOfBounds)"
proof
  show "message_try_from packet = Inr msg \<longleftrightarrow> wf_message msg \<and> message_bytes msg = packet"
    by (cases msg) (auto simp: message_try_from_def try_from_defs split: if_splits)
  show "message_try_from packet = Inl (Panicked e) \<longleftrightarrow> packet = [] \<and> e = IndexOutOfBounds"
    by (auto simp: message_try_from_def try_from_defs split: if_splits)
qed

lemma message_try_from_wf: "message_try_from packet = Inr msg \<Longrightarrow> wf_message msg"
  by (cases msg) (auto simp: message_try_from_def try_from_defs split: if_splits)

text \<open>The fields of a response tile the packet.\<close>

lemma response_fields:
  assumes "length p = 92"
  shows "take 4 p @ slice 4 8 p @ slice 8 12 p @ response_noise_bytes p @ response_mac1 p @ response_mac2 p = p"
proof -
  have "take 4 p = slice 0 4 p" "slice 0 92 p = p" using assms by (simp_all add: slice_def)
  then show ?thesis
    by (simp add: response_noise_bytes_def response_mac1_def response_mac2_def
        slice_append_split [of _ _ _ p, symmetric] flip: append_assoc)
      (simp add: slice_append_split)
qed

text \<open>The setters of a cookie reply write their own field and no other.\<close>

lemma length_cookie_reply_new [simp]: "length cookie_reply_new = 64"
  by (simp add: cookie_reply_new_def)

lemma cookie_reply_setters_length [simp]:
  assumes "length p = 64"
  shows "length (cookie_reply_set_receiver_index i p) = 64"
    and "length bs = 24 \<Longrightarrow> length (cookie_reply_set_nonce bs p) = 64"
    and "length bs = 32 \<Longrightarrow> length (cookie_reply_set_cookie bs p) = 64"
  using assms by (simp_all add: cookie_reply_set_receiver_index_def cookie_reply_set_nonce_def
      cookie_reply_set_cookie_def)

lemma cookie_reply_set_cookie_get:
  assumes "length p = 64" and "length c = 16" and "length tag = 16"
  shows "cookie_reply_cookie (cookie_reply_set_cookie (c @ tag) p) = c"
    and "cookie_reply_aead_tag (cookie_reply_set_cookie (c @ tag) p) = tag"
    and "cookie_reply_nonce (cookie_reply_set_cookie (c @ tag) p) = cookie_reply_nonce p"
    and "cookie_reply_receiver_index (cookie_reply_set_cookie (c @ tag) p) = cookie_reply_receiver_index p"
  using assms by (simp_all add: cookie_reply_cookie_def cookie_reply_aead_tag_def cookie_reply_set_cookie_def
      cookie_reply_nonce_def cookie_reply_receiver_index_def) (simp_all add: slice_def put_slice_def)

lemma cookie_reply_set_nonce_get:
  assumes "length p = 64" and "length n = 24"
  shows "cookie_reply_nonce (cookie_reply_set_nonce n p) = n"
    and "cookie_reply_receiver_index (cookie_reply_set_nonce n p) = cookie_reply_receiver_index p"
  using assms by (simp_all add: cookie_reply_set_nonce_def cookie_reply_nonce_def cookie_reply_receiver_index_def)

lemma cookie_reply_set_receiver_index_get:
  assumes "length p = 64"
  shows "cookie_reply_receiver_index (cookie_reply_set_receiver_index i p) = i"
  using assms read_write_u32 [of 4 p i]
  by (simp add: cookie_reply_receiver_index_def cookie_reply_set_receiver_index_def read_u32_slice)

lemma cookie_reply_set_receiver_index_type:
  "length p = 64 \<Longrightarrow> cookie_reply_set_receiver_index i p ! 0 = p ! 0"
  by (simp add: cookie_reply_set_receiver_index_def write_u32_def)

text \<open>C28: the mac1 accessor of an initiation does not read the mac1 field (bytes 116 to 131): it
  returns bytes 76 to 91 of the encrypted noise message, whatever the mac is.\<close>

theorem initiation_mac1_reads_noise:
  "initiation_mac1 p = slice 76 92 (initiation_noise_bytes p) \<and>
   (length p = 148 \<longrightarrow> initiation_mac1 (put_slice 116 mac p) = initiation_mac1 p)"
  by (simp add: initiation_mac1_def initiation_noise_bytes_def) (simp add: slice_def drop_take min_def)

theorem initiation_mac1_reads_noise_witness:
  "initiation_mac1 (put_slice 116 (replicate 16 7) (replicate 148 0)) = replicate 16 0"
  using initiation_mac1_reads_noise [of "replicate 148 0" "replicate 16 7"]
  by (simp add: initiation_mac1_def slice_def)

end
