(* ===== verification/XChaCha.thy ===== *)
theory XChaCha
  imports Consts
begin

text \<open>
  \<open>src/xchacha20poly1305.rs\<close>: HChaCha20 on sixteen wrapping 32 bit words and the XChaCha20-Poly1305
  construction over the AEAD of the crate \<open>chacha20-poly1305-aead\<close>, whose two functions are
  parameters. The reference is the block function of RFC 8439 on a list of sixteen words.
\<close>

section \<open>The code\<close>

type_synonym hstate =
  "u32 \<times> u32 \<times> u32 \<times> u32 \<times> u32 \<times> u32 \<times> u32 \<times> u32 \<times>
   u32 \<times> u32 \<times> u32 \<times> u32 \<times> u32 \<times> u32 \<times> u32 \<times> u32"

text \<open>\<open>(v << k) | (v >> (32 - k))\<close>\<close>

definition rotl32 :: "nat \<Rightarrow> u32 \<Rightarrow> u32" where
  "rotl32 k v = push_bit k v OR drop_bit (32 - k) v"

text \<open>The body of the \<open>while\<close> loop, line by line.\<close>

definition hchacha20_body :: "hstate \<Rightarrow> hstate" where
  "hchacha20_body = (\<lambda>(v00, v01, v02, v03, v04, v05, v06, v07, v08, v09, v10, v11, v12, v13, v14, v15).
     let v00 = v00 + v04; v12 = v12 XOR v00; v12 = rotl32 16 v12;
         v08 = v08 + v12; v04 = v04 XOR v08; v04 = rotl32 12 v04;
         v00 = v00 + v04; v12 = v12 XOR v00; v12 = rotl32 8 v12;
         v08 = v08 + v12; v04 = v04 XOR v08; v04 = rotl32 7 v04;
         v01 = v01 + v05; v13 = v13 XOR v01; v13 = rotl32 16 v13;
         v09 = v09 + v13; v05 = v05 XOR v09; v05 = rotl32 12 v05;
         v01 = v01 + v05; v13 = v13 XOR v01; v13 = rotl32 8 v13;
         v09 = v09 + v13; v05 = v05 XOR v09; v05 = rotl32 7 v05;
         v02 = v02 + v06; v14 = v14 XOR v02; v14 = rotl32 16 v14;
         v10 = v10 + v14; v06 = v06 XOR v10; v06 = rotl32 12 v06;
         v02 = v02 + v06; v14 = v14 XOR v02; v14 = rotl32 8 v14;
         v10 = v10 + v14; v06 = v06 XOR v10; v06 = rotl32 7 v06;
         v03 = v03 + v07; v15 = v15 XOR v03; v15 = rotl32 16 v15;
         v11 = v11 + v15; v07 = v07 XOR v11; v07 = rotl32 12 v07;
         v03 = v03 + v07; v15 = v15 XOR v03; v15 = rotl32 8 v15;
         v11 = v11 + v15; v07 = v07 XOR v11; v07 = rotl32 7 v07;
         v00 = v00 + v05; v15 = v15 XOR v00; v15 = rotl32 16 v15;
         v10 = v10 + v15; v05 = v05 XOR v10; v05 = rotl32 12 v05;
         v00 = v00 + v05; v15 = v15 XOR v00; v15 = rotl32 8 v15;
         v10 = v10 + v15; v05 = v05 XOR v10; v05 = rotl32 7 v05;
         v01 = v01 + v06; v12 = v12 XOR v01; v12 = rotl32 16 v12;
         v11 = v11 + v12; v06 = v06 XOR v11; v06 = rotl32 12 v06;
         v01 = v01 + v06; v12 = v12 XOR v01; v12 = rotl32 8 v12;
         v11 = v11 + v12; v06 = v06 XOR v11; v06 = rotl32 7 v06;
         v02 = v02 + v07; v13 = v13 XOR v02; v13 = rotl32 16 v13;
         v08 = v08 + v13; v07 = v07 XOR v08; v07 = rotl32 12 v07;
         v02 = v02 + v07; v13 = v13 XOR v02; v13 = rotl32 8 v13;
         v08 = v08 + v13; v07 = v07 XOR v08; v07 = rotl32 7 v07;
         v03 = v03 + v04; v14 = v14 XOR v03; v14 = rotl32 16 v14;
         v09 = v09 + v14; v04 = v04 XOR v09; v04 = rotl32 12 v04;
         v03 = v03 + v04; v14 = v14 XOR v03; v14 = rotl32 8 v14;
         v09 = v09 + v14; v04 = v04 XOR v09; v04 = rotl32 7 v04
     in (v00, v01, v02, v03, v04, v05, v06, v07, v08, v09, v10, v11, v12, v13, v14, v15))"

function hchacha20_loop :: "nat \<Rightarrow> hstate \<Rightarrow> hstate" where
  "hchacha20_loop i st = (if i < 20 then hchacha20_loop (i + 2) (hchacha20_body st) else st)"
  by pat_completeness auto
termination
  by (relation "measure (\<lambda>(i, st). 20 - i)") auto

declare hchacha20_loop.simps [simp del]

definition hchacha20_init :: "bytes \<Rightarrow> bytes \<Rightarrow> hstate" where
  "hchacha20_init key nonce =
     (0x61707865, 0x3320646e, 0x79622d32, 0x6b206574,
      read_u32 (drop 0 key), read_u32 (drop 4 key), read_u32 (drop 8 key), read_u32 (drop 12 key),
      read_u32 (drop 16 key), read_u32 (drop 20 key), read_u32 (drop 24 key), read_u32 (drop 28 key),
      read_u32 (drop 0 nonce), read_u32 (drop 4 nonce), read_u32 (drop 8 nonce), read_u32 (drop 12 nonce))"

text \<open>For a 32 byte key, 16 byte nonce and 32 byte \<open>out\<close> (shorter slices panic).\<close>

definition hchacha20 :: "bytes \<Rightarrow> bytes \<Rightarrow> bytes \<Rightarrow> bytes" where
  "hchacha20 key nonce out =
     (case hchacha20_loop 0 (hchacha20_init key nonce) of
        (v00, v01, v02, v03, v04, v05, v06, v07, v08, v09, v10, v11, v12, v13, v14, v15) \<Rightarrow>
          let out = write_u32 0 v00 out; out = write_u32 4 v01 out;
              out = write_u32 8 v02 out; out = write_u32 12 v03 out;
              out = write_u32 16 v12 out; out = write_u32 20 v13 out;
              out = write_u32 24 v14 out; out = write_u32 28 v15 out
          in out)"

text \<open>
  The parameters: \<open>aead_enc key nonce aad input\<close> is the ciphertext and the tag,
  \<open>aead_dec key nonce aad input tag\<close> the plaintext, or \<open>None\<close> when the tag does not match.
\<close>

type_synonym aead_enc = "bytes \<Rightarrow> bytes \<Rightarrow> bytes \<Rightarrow> bytes \<Rightarrow> bytes \<times> bytes"
type_synonym aead_dec = "bytes \<Rightarrow> bytes \<Rightarrow> bytes \<Rightarrow> bytes \<Rightarrow> bytes \<Rightarrow> bytes option"

definition derived_key :: "bytes \<Rightarrow> bytes \<Rightarrow> bytes" where
  "derived_key key nonce = hchacha20 key (slice 0 16 nonce) (replicate 32 0)"

definition derived_nonce :: "bytes \<Rightarrow> bytes" where
  "derived_nonce nonce = put_slice 4 (drop 16 nonce) (replicate 12 0)"

text \<open>\<open>encrypt\<close> returns the tag and the new contents of the output buffer.\<close>

definition xchacha_encrypt ::
  "aead_enc \<Rightarrow> bytes \<Rightarrow> bytes \<Rightarrow> bytes \<Rightarrow> bytes \<Rightarrow> bytes \<Rightarrow> bytes result \<times> bytes" where
  "xchacha_encrypt enc key nonce input aad output =
     (if length key \<noteq> 32 then (Inl (Err ''wrong key len''), output)
      else if length nonce \<noteq> 24 then (Inl (Err ''wrong nonce len''), output)
      else if length output \<noteq> length input then
        (Inl (Err ''output buffer not same length and input''), output)
      else case enc (derived_key key nonce) (derived_nonce nonce) aad input of (ct, tag) \<Rightarrow>
        if length ct \<le> length output then (Inr tag, put_slice 0 ct output)
        else (Inl (Err ''failed to write whole buffer''), put_slice 0 (take (length output) ct) output))"

definition xchacha_decrypt ::
  "aead_dec \<Rightarrow> bytes \<Rightarrow> bytes \<Rightarrow> bytes \<Rightarrow> bytes \<Rightarrow> bytes \<Rightarrow> bytes \<Rightarrow> unit result \<times> bytes" where
  "xchacha_decrypt dec key nonce input aad tag output =
     (if length key \<noteq> 32 then (Inl (Err ''wrong key len''), output)
      else if length nonce \<noteq> 24 then (Inl (Err ''wrong nonce len''), output)
      else if length output \<noteq> length input then
        (Inl (Err ''output buffer not same length and input''), output)
      else case dec (derived_key key nonce) (derived_nonce nonce) aad input tag of
        None \<Rightarrow> (Inl (Err ''aead decryption failed''), output)
      | Some pt \<Rightarrow>
          if length pt \<le> length output then (Inr (), put_slice 0 pt output)
          else (Inl (Err ''failed to write whole buffer''), put_slice 0 (take (length output) pt) output))"

section \<open>The reference: RFC 8439 on a list of words\<close>

definition quarter_round :: "u32 \<Rightarrow> u32 \<Rightarrow> u32 \<Rightarrow> u32 \<Rightarrow> u32 \<times> u32 \<times> u32 \<times> u32" where
  "quarter_round a b c d =
     (let a = a + b; d = word_rotl 16 (d XOR a);
          c = c + d; b = word_rotl 12 (b XOR c);
          a = a + b; d = word_rotl 8 (d XOR a);
          c = c + d; b = word_rotl 7 (b XOR c)
      in (a, b, c, d))"

definition qround_at :: "nat \<Rightarrow> nat \<Rightarrow> nat \<Rightarrow> nat \<Rightarrow> u32 list \<Rightarrow> u32 list" where
  "qround_at i j k l s =
     (case quarter_round (s ! i) (s ! j) (s ! k) (s ! l) of
        (a, b, c, d) \<Rightarrow> s[i := a, j := b, k := c, l := d])"

definition double_round :: "u32 list \<Rightarrow> u32 list" where
  "double_round s =
     (let s = qround_at 0 4 8 12 s; s = qround_at 1 5 9 13 s;
          s = qround_at 2 6 10 14 s; s = qround_at 3 7 11 15 s;
          s = qround_at 0 5 10 15 s; s = qround_at 1 6 11 12 s;
          s = qround_at 2 7 8 13 s; s = qround_at 3 4 9 14 s
      in s)"

definition words_of :: "bytes \<Rightarrow> u32 list" where
  "words_of bs = map (\<lambda>i. read_u32 (drop (4 * i) bs)) [0..<16]"

definition sigma :: bytes where
  "sigma = map of_char ''expand 32-byte k''"

definition hchacha20_ref :: "bytes \<Rightarrow> bytes \<Rightarrow> bytes" where
  "hchacha20_ref key nonce =
     (let s = (double_round ^^ 10) (words_of (sigma @ key @ nonce))
      in concat (map (\<lambda>w. le_bytes 4 (unat w)) (take 4 s @ drop 12 s)))"

fun hlist :: "hstate \<Rightarrow> u32 list" where
  "hlist (v00, v01, v02, v03, v04, v05, v06, v07, v08, v09, v10, v11, v12, v13, v14, v15) =
     [v00, v01, v02, v03, v04, v05, v06, v07, v08, v09, v10, v11, v12, v13, v14, v15]"

section \<open>The code computes the reference\<close>

lemma rotl32_word_rotl:
  assumes "0 < k" and "k < 32"
  shows "rotl32 k v = word_rotl k v"
proof (rule bit_word_eqI)
  fix n assume "n < LENGTH(32)"
  then have n: "n < 32" by simp
  show "bit (rotl32 k v) n \<longleftrightarrow> bit (word_rotl k v) n"
  proof (cases "k \<le> n")
    case True
    then have "(n + (32 - k)) mod 32 = n - k" using assms n by (simp add: mod_if)
    with True n assms show ?thesis
      by (auto simp: rotl32_def bit_or_iff bit_push_bit_iff bit_drop_bit_eq bit_word_rotl_iff
          dest: bit_imp_le_length)
  next
    case False
    then have m: "(n + (32 - k)) mod 32 = n + (32 - k)" using assms n by simp
    have "bit (rotl32 k v) n \<longleftrightarrow> bit v (32 - k + n)"
      unfolding rotl32_def bit_or_iff bit_push_bit_iff bit_drop_bit_eq o_def using False n by simp
    also have "\<dots> \<longleftrightarrow> bit (word_rotl k v) n"
      using n assms m by (simp only: bit_word_rotl_iff add.commute [of n]) simp
    finally show ?thesis .
  qed
qed

lemmas rotl_rounds = rotl32_word_rotl [of 16, simplified] rotl32_word_rotl [of 12, simplified]
  rotl32_word_rotl [of 8, simplified] rotl32_word_rotl [of 7, simplified]

text \<open>The 96 lines of the loop body are eight quarter rounds.\<close>

lemma hchacha20_body_quarters:
  "hchacha20_body (v00, v01, v02, v03, v04, v05, v06, v07, v08, v09, v10, v11, v12, v13, v14, v15) =
     (case quarter_round v00 v04 v08 v12 of (v00, v04, v08, v12) \<Rightarrow>
      case quarter_round v01 v05 v09 v13 of (v01, v05, v09, v13) \<Rightarrow>
      case quarter_round v02 v06 v10 v14 of (v02, v06, v10, v14) \<Rightarrow>
      case quarter_round v03 v07 v11 v15 of (v03, v07, v11, v15) \<Rightarrow>
      case quarter_round v00 v05 v10 v15 of (v00, v05, v10, v15) \<Rightarrow>
      case quarter_round v01 v06 v11 v12 of (v01, v06, v11, v12) \<Rightarrow>
      case quarter_round v02 v07 v08 v13 of (v02, v07, v08, v13) \<Rightarrow>
      case quarter_round v03 v04 v09 v14 of (v03, v04, v09, v14) \<Rightarrow>
        (v00, v01, v02, v03, v04, v05, v06, v07, v08, v09, v10, v11, v12, v13, v14, v15))"
  by (simp only: hchacha20_body_def quarter_round_def Let_def prod.case rotl_rounds)

lemma hlist_body: "hlist (hchacha20_body st) = double_round (hlist st)"
proof (cases st rule: hlist.cases)
  case (1 v00 v01 v02 v03 v04 v05 v06 v07 v08 v09 v10 v11 v12 v13 v14 v15)
  obtain a0 b0 c0 d0 where q0: "quarter_round v00 v04 v08 v12 = (a0, b0, c0, d0)"
    by (rule prod_cases4)
  obtain a1 b1 c1 d1 where q1: "quarter_round v01 v05 v09 v13 = (a1, b1, c1, d1)"
    by (rule prod_cases4)
  obtain a2 b2 c2 d2 where q2: "quarter_round v02 v06 v10 v14 = (a2, b2, c2, d2)"
    by (rule prod_cases4)
  obtain a3 b3 c3 d3 where q3: "quarter_round v03 v07 v11 v15 = (a3, b3, c3, d3)"
    by (rule prod_cases4)
  obtain a4 b4 c4 d4 where q4: "quarter_round a0 b1 c2 d3 = (a4, b4, c4, d4)"
    by (rule prod_cases4)
  obtain a5 b5 c5 d5 where q5: "quarter_round a1 b2 c3 d0 = (a5, b5, c5, d5)"
    by (rule prod_cases4)
  obtain a6 b6 c6 d6 where q6: "quarter_round a2 b3 c0 d1 = (a6, b6, c6, d6)"
    by (rule prod_cases4)
  obtain a7 b7 c7 d7 where q7: "quarter_round a3 b0 c1 d2 = (a7, b7, c7, d7)"
    by (rule prod_cases4)
  have s0: "qround_at 0 4 8 12 [v00, v01, v02, v03, v04, v05, v06, v07, v08, v09, v10, v11, v12, v13, v14, v15] =
      [a0, v01, v02, v03, b0, v05, v06, v07, c0, v09, v10, v11, d0, v13, v14, v15]"
    by (simp add: qround_at_def q0)
  have s1: "qround_at 1 5 9 13 [a0, v01, v02, v03, b0, v05, v06, v07, c0, v09, v10, v11, d0, v13, v14, v15] =
      [a0, a1, v02, v03, b0, b1, v06, v07, c0, c1, v10, v11, d0, d1, v14, v15]"
    by (simp add: qround_at_def q1)
  have s2: "qround_at 2 6 10 14 [a0, a1, v02, v03, b0, b1, v06, v07, c0, c1, v10, v11, d0, d1, v14, v15] =
      [a0, a1, a2, v03, b0, b1, b2, v07, c0, c1, c2, v11, d0, d1, d2, v15]"
    by (simp add: qround_at_def q2)
  have s3: "qround_at 3 7 11 15 [a0, a1, a2, v03, b0, b1, b2, v07, c0, c1, c2, v11, d0, d1, d2, v15] =
      [a0, a1, a2, a3, b0, b1, b2, b3, c0, c1, c2, c3, d0, d1, d2, d3]"
    by (simp add: qround_at_def q3)
  have s4: "qround_at 0 5 10 15 [a0, a1, a2, a3, b0, b1, b2, b3, c0, c1, c2, c3, d0, d1, d2, d3] =
      [a4, a1, a2, a3, b0, b4, b2, b3, c0, c1, c4, c3, d0, d1, d2, d4]"
    by (simp add: qround_at_def q4)
  have s5: "qround_at 1 6 11 12 [a4, a1, a2, a3, b0, b4, b2, b3, c0, c1, c4, c3, d0, d1, d2, d4] =
      [a4, a5, a2, a3, b0, b4, b5, b3, c0, c1, c4, c5, d5, d1, d2, d4]"
    by (simp add: qround_at_def q5)
  have s6: "qround_at 2 7 8 13 [a4, a5, a2, a3, b0, b4, b5, b3, c0, c1, c4, c5, d5, d1, d2, d4] =
      [a4, a5, a6, a3, b0, b4, b5, b6, c6, c1, c4, c5, d5, d6, d2, d4]"
    by (simp add: qround_at_def q6)
  have s7: "qround_at 3 4 9 14 [a4, a5, a6, a3, b0, b4, b5, b6, c6, c1, c4, c5, d5, d6, d2, d4] =
      [a4, a5, a6, a7, b7, b4, b5, b6, c6, c7, c4, c5, d5, d6, d7, d4]"
    by (simp add: qround_at_def q7)
  show ?thesis
    by (simp only: 1 hlist.simps double_round_def Let_def s0 s1 s2 s3 s4 s5 s6 s7)
      (simp only: hchacha20_body_quarters q0 q1 q2 q3 q4 q5 q6 q7 prod.case hlist.simps)
qed

lemma hlist_loop: "even i \<Longrightarrow> i \<le> 20 \<Longrightarrow>
  hlist (hchacha20_loop i st) = (double_round ^^ ((20 - i) div 2)) (hlist st)"
proof (induction i st rule: hchacha20_loop.induct)
  case (1 i st)
  show ?case
  proof (cases "i < 20")
    case True
    with 1 have "hlist (hchacha20_loop i st) = (double_round ^^ ((20 - (i + 2)) div 2)) (double_round (hlist st))"
      by (subst hchacha20_loop.simps) (auto simp: hlist_body elim!: evenE)
    also have "\<dots> = (double_round ^^ Suc ((20 - (i + 2)) div 2)) (hlist st)"
      by (simp add: funpow_swap1)
    also have "Suc ((20 - (i + 2)) div 2) = (20 - i) div 2"
      using True 1(2) by (auto elim!: evenE)
    finally show ?thesis .
  next
    case False
    with 1 show ?thesis by (subst hchacha20_loop.simps) simp
  qed
qed

lemma length_qround_at [simp]: "length (qround_at i j k l s) = length s"
  by (simp add: qround_at_def split: prod.split)

lemma length_double_round [simp]: "length (double_round s) = length s"
  by (simp add: double_round_def Let_def)

lemma sigma_bytes:
  "sigma = [101, 120, 112, 97, 110, 100, 32, 51, 50, 45, 98, 121, 116, 101, 32, 107]"
  by (simp add: sigma_def)

lemma read_u32_append: "4 \<le> length xs \<Longrightarrow> read_u32 (xs @ ys) = read_u32 xs"
  by (simp add: read_u32_def)

lemma words_of_unfold:
  "words_of bs = [read_u32 bs, read_u32 (drop 4 bs), read_u32 (drop 8 bs), read_u32 (drop 12 bs),
     read_u32 (drop 16 bs), read_u32 (drop 20 bs), read_u32 (drop 24 bs), read_u32 (drop 28 bs),
     read_u32 (drop 32 bs), read_u32 (drop 36 bs), read_u32 (drop 40 bs), read_u32 (drop 44 bs),
     read_u32 (drop 48 bs), read_u32 (drop 52 bs), read_u32 (drop 56 bs), read_u32 (drop 60 bs)]"
  by (simp add: words_of_def upt_rec)

lemma length_sigma [simp]: "length sigma = 16"
  by (simp add: sigma_def)

lemma sigma_words:
  "read_u32 (sigma @ bs) = 0x61707865" "read_u32 (drop 4 sigma @ bs) = 0x3320646e"
  "read_u32 (drop 8 sigma @ bs) = 0x79622d32" "read_u32 (drop 12 sigma @ bs) = 0x6b206574"
  by (simp_all add: read_u32_def sigma_bytes)

lemma hlist_init:
  assumes "length key = 32" and "length nonce = 16"
  shows "hlist (hchacha20_init key nonce) = words_of (sigma @ key @ nonce)"
  using assms by (simp add: hchacha20_init_def words_of_unfold sigma_words read_u32_append)

lemma write_u32_first: "write_u32 0 v out = le_bytes 4 (unat v) @ drop 4 out"
  by (simp add: write_u32_def put_slice_def)

lemma write_u32_next:
  "length xs = off \<Longrightarrow> write_u32 off v (xs @ ys) = (xs @ le_bytes 4 (unat v)) @ drop 4 ys"
  by (simp add: write_u32_def put_slice_def)

lemma hchacha20_is_ref:
  assumes "length key = 32" and "length nonce = 16" and "length out = 32"
  shows "hchacha20 key nonce out = hchacha20_ref key nonce"
proof -
  obtain v00 v01 v02 v03 v04 v05 v06 v07 v08 v09 v10 v11 v12 v13 v14 v15 where
    st: "hchacha20_loop 0 (hchacha20_init key nonce) =
      (v00, v01, v02, v03, v04, v05, v06, v07, v08, v09, v10, v11, v12, v13, v14, v15)"
    by (cases "hchacha20_loop 0 (hchacha20_init key nonce)" rule: hlist.cases)
  have "(double_round ^^ 10) (words_of (sigma @ key @ nonce)) =
      [v00, v01, v02, v03, v04, v05, v06, v07, v08, v09, v10, v11, v12, v13, v14, v15]"
    using hlist_loop [of 0 "hchacha20_init key nonce"] hlist_init [OF assms(1,2)] by (simp add: st)
  then have "hchacha20_ref key nonce =
      concat (map (\<lambda>w. le_bytes 4 (unat w)) [v00, v01, v02, v03, v12, v13, v14, v15])"
    by (simp add: hchacha20_ref_def del: funpow.simps)
  moreover have "hchacha20 key nonce out = \<dots>"
    using assms(3)
    by (simp add: hchacha20_def st Let_def write_u32_first write_u32_next del: append_assoc)
  ultimately show ?thesis by simp
qed

text \<open>C23: HChaCha20 as unrolled in the source is the HChaCha20 of the reference: ten RFC 8439 double
  rounds over the words of ''expand 32-byte k'', key and nonce, of which the first and the last
  row are returned; the old contents of the output buffer do not matter.\<close>

theorem hchacha20_eq_ref:
  assumes "length key = 32" and "length nonce = 16" and "length out = 32"
  shows "hchacha20 key nonce out = hchacha20_ref key nonce"
  using assms by (rule hchacha20_is_ref)

theorem hchacha20_eq_ref_witness:
  "hchacha20 (replicate 32 1) (replicate 16 2) (replicate 32 9) = hchacha20_ref (replicate 32 1) (replicate 16 2)"
  by (rule hchacha20_eq_ref) simp_all

text \<open>The reference is anchored at the quarter round vector of RFC 8439, section 2.1.1.\<close>

lemma quarter_round_eval:
  "quarter_round a b c d =
     (let a = a + b; d = rotl32 16 (d XOR a);
          c = c + d; b = rotl32 12 (b XOR c);
          a = a + b; d = rotl32 8 (d XOR a);
          c = c + d; b = rotl32 7 (b XOR c)
      in (a, b, c, d))"
  by (simp only: quarter_round_def rotl_rounds)

lemma quarter_round_rfc_vector:
  "quarter_round 0x11111111 0x01020304 0x9b8d6f43 0x01234567 =
     (0xea2a92f4, 0xcb1cf8ce, 0x4581472e, 0x5881c4bb)"
  by (simp add: quarter_round_eval rotl32_def cong: let_weak_cong)

section \<open>Encryption and decryption\<close>

text \<open>What the AEAD crate promises: decryption inverts encryption, the ciphertext is as long as the
  plaintext, and the tag has sixteen bytes.\<close>

definition lawful_aead :: "aead_enc \<Rightarrow> aead_dec \<Rightarrow> bool" where
  "lawful_aead enc dec \<longleftrightarrow>
     (\<forall>key nonce aad pt ct tag. enc key nonce aad pt = (ct, tag) \<longrightarrow>
        length ct = length pt \<and> length tag = 16 \<and> dec key nonce aad ct tag = Some pt)"

lemma lawful_aeadD:
  assumes "lawful_aead enc dec" and "enc key nonce aad pt = (ct, tag)"
  shows "length ct = length pt" "length tag = 16" "dec key nonce aad ct tag = Some pt"
  using assms unfolding lawful_aead_def by blast+

lemma put_slice_all: "length xs = length buf \<Longrightarrow> put_slice 0 xs buf = xs"
  by (simp add: put_slice_def)

lemma xchacha_encrypt_ok:
  assumes "lawful_aead enc dec" and "length key = 32" and "length nonce = 24"
    and "length output = length input"
  obtains ct tag where "xchacha_encrypt enc key nonce input aad output = (Inr tag, ct)"
    and "length ct = length input" and "length tag = 16"
    and "dec (derived_key key nonce) (derived_nonce nonce) aad ct tag = Some input"
proof -
  obtain ct tag where e: "enc (derived_key key nonce) (derived_nonce nonce) aad input = (ct, tag)"
    by fastforce
  note l = lawful_aeadD [OF assms(1) e]
  have "xchacha_encrypt enc key nonce input aad output = (Inr tag, ct)"
    using assms l by (simp add: xchacha_encrypt_def e put_slice_all)
  with l that show ?thesis by blast
qed


text \<open>A lawful AEAD exists: here the cipher is the identity and the tag a constant.\<close>

definition null_enc :: aead_enc where
  "null_enc key nonce aad pt = (pt, replicate 16 0)"

definition null_dec :: aead_dec where
  "null_dec key nonce aad ct tag = (if tag = replicate 16 0 then Some ct else None)"

lemma lawful_null: "lawful_aead null_enc null_dec"
  by (simp add: lawful_aead_def null_enc_def null_dec_def)


end
