(* ===== verification/Cookie.thy ===== *)
theory Cookie
  imports Message XChaCha
begin

text \<open>
  \<open>src/cookie.rs\<close>: the two message authentication codes of handshake messages and the cookie
  exchange. BLAKE2s and the AEAD are third-party code and are fields of the parameter \<open>crypto\<close>; what
  the code relies on is \<open>lawful_crypto\<close>. Random bytes and the clock are arguments.
\<close>

section \<open>The code\<close>

record crypto =
  blake2s :: "nat \<Rightarrow> bytes \<Rightarrow> bytes \<Rightarrow> bytes"
  aead_encrypt :: aead_enc
  aead_decrypt :: aead_dec

text \<open>\<open>blake2s n key input\<close> is \<open>n\<close> bytes long.\<close>

definition lawful_crypto :: "crypto \<Rightarrow> bool" where
  "lawful_crypto C \<longleftrightarrow>
     lawful_aead (aead_encrypt C) (aead_decrypt C) \<and>
     (\<forall>n key input. length (blake2s C n key input) = n)"

record validator_mac2 =
  vm2_secret :: bytes
  vm2_secret_time :: "instant option"
  vm2_key :: bytes

record generator_mac2 =
  gm2_cookie :: bytes
  gm2_cookie_time :: "instant option"
  gm2_last_mac1 :: "bytes option"
  gm2_key :: bytes

record validator =
  v_mac1_key :: bytes
  v_mac2 :: validator_mac2

record generator =
  g_mac1_key :: bytes
  g_mac2 :: generator_mac2

definition label_mac1 :: bytes where "label_mac1 = map of_char ''mac1----''"
definition label_cookie :: bytes where "label_cookie = map of_char ''cookie--''"

definition is_secret_valid :: "instant option \<Rightarrow> instant \<Rightarrow> bool" where
  "is_secret_valid secret_time now =
     (case secret_time of Some time \<Rightarrow> now - time \<le> COOKIE_REFRESH_TIME | None \<Rightarrow> False)"

definition validator_new :: "crypto \<Rightarrow> bytes \<Rightarrow> validator" where
  "validator_new C pub_key =
     \<lparr>v_mac1_key = blake2s C 32 [] (label_mac1 @ pub_key),
      v_mac2 = \<lparr>vm2_secret = replicate 16 0, vm2_secret_time = None,
                vm2_key = blake2s C 32 [] (label_cookie @ pub_key)\<rparr>\<rparr>"

text \<open>The comparison \<open>ct_eq\<close> of two slices is equality.\<close>

definition verify_mac1 :: "crypto \<Rightarrow> validator \<Rightarrow> bytes \<Rightarrow> bytes \<Rightarrow> unit result" where
  "verify_mac1 C v mac_input mac =
     (let our_mac = blake2s C 16 (v_mac1_key v) mac_input
      in if mac = our_mac then Inr () else Inl (Err ''mac mismatch''))"

definition verify_mac2 :: "crypto \<Rightarrow> validator \<Rightarrow> bytes \<Rightarrow> bytes \<Rightarrow> instant \<Rightarrow> unit result" where
  "verify_mac2 C v message source now =
     (case vm2_secret_time (v_mac2 v) of
        None \<Rightarrow> Inl (Err ''no mac2 secret time set'')
      | Some secret_time \<Rightarrow>
          if \<not> now - secret_time \<le> COOKIE_REFRESH_TIME then Inl (Err ''secret is too old'')
          else
            let cookie = blake2s C 16 (vm2_secret (v_mac2 v)) source;
                our_mac2 = blake2s C 16 cookie (take (length message - 16) message);
                thr_mac2 = drop (length message - 16) message
            in if our_mac2 = thr_mac2 then Inr () else Inl (Err ''mac mismatch''))"

text \<open>\<open>fresh_secret\<close> (16 bytes) and \<open>fresh_nonce\<close> (24 bytes) are what \<open>fill_bytes\<close> draws.\<close>

definition generate_reply ::
  "crypto \<Rightarrow> validator \<Rightarrow> u32 \<Rightarrow> bytes \<Rightarrow> bytes \<Rightarrow> bytes \<Rightarrow> bytes \<Rightarrow> instant \<Rightarrow>
     cookie_reply result \<times> validator" where
  "generate_reply C v sender mac1 source fresh_secret fresh_nonce now =
     (let reply = cookie_reply_set_receiver_index sender cookie_reply_new;
          v = (if \<not> is_secret_valid (vm2_secret_time (v_mac2 v)) now
               then v\<lparr>v_mac2 := (v_mac2 v)\<lparr>vm2_secret := fresh_secret, vm2_secret_time := Some now\<rparr>\<rparr>
               else v);
          input = blake2s C 16 (vm2_secret (v_mac2 v)) source;
          reply = cookie_reply_set_nonce fresh_nonce reply
      in (case xchacha_encrypt (aead_encrypt C) (vm2_key (v_mac2 v)) (cookie_reply_nonce reply)
                input mac1 (cookie_reply_cookie reply) of
           (Inl e, _) \<Rightarrow> (Inl e, v)
         | (Inr tag, cookie) \<Rightarrow> (Inr (cookie_reply_set_cookie (cookie @ tag) reply), v)))"

definition generator_new :: "crypto \<Rightarrow> bytes \<Rightarrow> generator" where
  "generator_new C pub_key =
     \<lparr>g_mac1_key = blake2s C 32 [] (label_mac1 @ pub_key),
      g_mac2 = \<lparr>gm2_cookie = replicate 16 0, gm2_cookie_time = None, gm2_last_mac1 = None,
                gm2_key = blake2s C 32 [] (label_cookie @ pub_key)\<rparr>\<rparr>"

definition consume_reply ::
  "crypto \<Rightarrow> generator \<Rightarrow> cookie_reply \<Rightarrow> instant \<Rightarrow> unit result \<times> generator" where
  "consume_reply C g reply now =
     (case gm2_last_mac1 (g_mac2 g) of
        None \<Rightarrow> (Inl (Err ''no last mac1''), g)
      | Some last_mac1 \<Rightarrow>
          (case xchacha_decrypt (aead_decrypt C) (gm2_key (g_mac2 g)) (cookie_reply_nonce reply)
                 (cookie_reply_cookie reply) last_mac1 (cookie_reply_aead_tag reply)
                 (gm2_cookie (g_mac2 g)) of
            (Inl e, cookie) \<Rightarrow> (Inl e, g\<lparr>g_mac2 := (g_mac2 g)\<lparr>gm2_cookie := cookie\<rparr>\<rparr>)
          | (Inr _, cookie) \<Rightarrow>
              (Inr (), g\<lparr>g_mac2 := (g_mac2 g)\<lparr>gm2_cookie := cookie, gm2_cookie_time := Some now\<rparr>\<rparr>)))"

definition build_macs ::
  "crypto \<Rightarrow> generator \<Rightarrow> bytes \<Rightarrow> instant \<Rightarrow> (bytes \<times> bytes option) \<times> generator" where
  "build_macs C g input now =
     (let mac1 = blake2s C 16 (g_mac1_key g) input;
          mac2 = (if is_secret_valid (gm2_cookie_time (g_mac2 g)) now
                  then Some (blake2s C 16 (gm2_cookie (g_mac2 g)) (input @ mac1)) else None)
      in ((mac1, mac2), g\<lparr>g_mac2 := (g_mac2 g)\<lparr>gm2_last_mac1 := Some mac1\<rparr>\<rparr>))"

section \<open>Keys and fields that stay\<close>

lemma lawful_cryptoD:
  assumes "lawful_crypto C"
  shows "lawful_aead (aead_encrypt C) (aead_decrypt C)" "length (blake2s C n key input) = n"
  using assms by (simp_all add: lawful_crypto_def)

text \<open>The MAC keys of a device, which both ends derive from its public key.\<close>

definition keyed_validator :: "crypto \<Rightarrow> bytes \<Rightarrow> validator \<Rightarrow> bool" where
  "keyed_validator C pub_key v \<longleftrightarrow>
     v_mac1_key v = blake2s C 32 [] (label_mac1 @ pub_key) \<and>
     vm2_key (v_mac2 v) = blake2s C 32 [] (label_cookie @ pub_key)"

definition keyed_generator :: "crypto \<Rightarrow> bytes \<Rightarrow> generator \<Rightarrow> bool" where
  "keyed_generator C pub_key g \<longleftrightarrow>
     g_mac1_key g = blake2s C 32 [] (label_mac1 @ pub_key) \<and>
     gm2_key (g_mac2 g) = blake2s C 32 [] (label_cookie @ pub_key) \<and>
     length (gm2_cookie (g_mac2 g)) = 16"

lemma keyed_validator_new [simp]: "keyed_validator C pk (validator_new C pk)"
  by (simp add: keyed_validator_def validator_new_def)

lemma keyed_validator_reply:
  "keyed_validator C pk v \<Longrightarrow> keyed_validator C pk (snd (generate_reply C v s m src fs fn now))"
  by (auto simp: keyed_validator_def generate_reply_def Let_def split: prod.splits sum.splits)

lemma keyed_generator_new [simp]: "keyed_generator C pk (generator_new C pk)"
  by (simp add: keyed_generator_def generator_new_def)

lemma keyed_generator_macs: "keyed_generator C pk g \<Longrightarrow> keyed_generator C pk (snd (build_macs C g input now))"
  by (simp add: keyed_generator_def build_macs_def Let_def)

lemma length_xchacha_decrypt:
  "length (snd (xchacha_decrypt dec key nonce input aad tag output)) = length output"
  by (auto simp: xchacha_decrypt_def put_slice_def split: option.splits)

lemma keyed_generator_consume:
  "keyed_generator C pk g \<Longrightarrow> keyed_generator C pk (snd (consume_reply C g reply now))"
  using length_xchacha_decrypt [of "aead_decrypt C"]
  by (auto simp: keyed_generator_def consume_reply_def split: option.splits prod.splits sum.splits)
    (metis snd_conv)+

section \<open>Properties\<close>


text \<open>The parts of a reply, and that generating one cannot fail.\<close>

lemma generate_reply_ok:
  assumes "lawful_crypto C" and "keyed_validator C pk v" and "length fn = 24"
    and "generate_reply C v sender mac1 source fs fn now = (r, v')"
  obtains reply where "r = Inr reply" and "length reply = 64"
    and "cookie_reply_receiver_index reply = sender" and "cookie_reply_nonce reply = fn"
    and "aead_decrypt C (derived_key (vm2_key (v_mac2 v')) fn) (derived_nonce fn) mac1
      (cookie_reply_cookie reply) (cookie_reply_aead_tag reply) =
        Some (blake2s C 16 (vm2_secret (v_mac2 v')) source)"
proof -
  define p where "p = cookie_reply_set_nonce fn (cookie_reply_set_receiver_index sender cookie_reply_new)"
  have p: "length p = 64" "cookie_reply_nonce p = fn" "cookie_reply_receiver_index p = sender"
    using assms(3) by (simp_all add: p_def cookie_reply_set_nonce_get cookie_reply_set_receiver_index_get)
  define w where "w = (if \<not> is_secret_valid (vm2_secret_time (v_mac2 v)) now
    then v\<lparr>v_mac2 := (v_mac2 v)\<lparr>vm2_secret := fs, vm2_secret_time := Some now\<rparr>\<rparr> else v)"
  have key: "length (vm2_key (v_mac2 w)) = 32"
    using assms(1,2) by (simp add: w_def keyed_validator_def lawful_cryptoD)
  obtain ct tag where
    e: "xchacha_encrypt (aead_encrypt C) (vm2_key (v_mac2 w)) fn (blake2s C 16 (vm2_secret (v_mac2 w)) source)
        mac1 (cookie_reply_cookie p) = (Inr tag, ct)"
    and len: "length ct = 16" "length tag = 16"
    and d: "aead_decrypt C (derived_key (vm2_key (v_mac2 w)) fn) (derived_nonce fn) mac1 ct tag =
        Some (blake2s C 16 (vm2_secret (v_mac2 w)) source)"
    by (rule xchacha_encrypt_ok [OF lawful_cryptoD(1) [OF assms(1)] key assms(3),
        of "cookie_reply_cookie p" "blake2s C 16 (vm2_secret (v_mac2 w)) source" mac1])
      (use p(1) lawful_cryptoD(2) [OF assms(1)] in \<open>simp_all add: cookie_reply_cookie_def\<close>)
  have "r = Inr (cookie_reply_set_cookie (ct @ tag) p) \<and> v' = w"
    using assms(4) e p(2) by (simp add: generate_reply_def Let_def p_def [symmetric] w_def [symmetric])
  with that [of "cookie_reply_set_cookie (ct @ tag) p"] cookie_reply_set_cookie_get [OF p(1) len] p len d
  show ?thesis by simp
qed

text \<open>Consuming the reply that answers the last mac1 stores the cookie of the sender's address.\<close>

lemma consume_reply_ok:
  assumes "lawful_crypto C" and "keyed_validator C pk v" and "keyed_generator C pk g"
    and "length fn = 24" and "gm2_last_mac1 (g_mac2 g) = Some mac1"
    and "generate_reply C v sender mac1 source fs fn t0 = (Inr reply, v')"
  shows "consume_reply C g reply t1 =
    (Inr (), g\<lparr>g_mac2 := (g_mac2 g)\<lparr>gm2_cookie := blake2s C 16 (vm2_secret (v_mac2 v')) source,
                                   gm2_cookie_time := Some t1\<rparr>\<rparr>)"
proof -
  have "keyed_validator C pk v'"
    using keyed_validator_reply [OF assms(2), of sender mac1 source fs fn t0] assms(6) by simp
  then have key: "vm2_key (v_mac2 v') = gm2_key (g_mac2 g)" "length (gm2_key (g_mac2 g)) = 32"
    using assms(1,3) by (simp_all add: keyed_validator_def keyed_generator_def lawful_cryptoD)
  have len: "length (gm2_cookie (g_mac2 g)) = 16" using assms(3) by (simp add: keyed_generator_def)
  obtain reply' where "Inr reply = (Inr reply' :: cookie_reply result)" and r: "length reply' = 64"
    "cookie_reply_nonce reply' = fn"
    "aead_decrypt C (derived_key (vm2_key (v_mac2 v')) fn) (derived_nonce fn) mac1
      (cookie_reply_cookie reply') (cookie_reply_aead_tag reply') =
        Some (blake2s C 16 (vm2_secret (v_mac2 v')) source)"
    by (rule generate_reply_ok [OF assms(1,2,4,6)]) blast
  then have "reply = reply'" by simp
  moreover have "length (cookie_reply_cookie reply') = 16" using r(1) by (simp add: cookie_reply_cookie_def)
  ultimately show ?thesis
    using r key len assms(1,4,5)
    by (simp add: consume_reply_def xchacha_decrypt_def lawful_cryptoD put_slice_all)
qed

text \<open>C21: the cookie exchange works end to end. An initiator that consumed the reply to its last
  mac1 produces, while the cookie is fresh, a mac2 on every later handshake message, and the
  responder accepts that message as coming from the source address the cookie was made for.\<close>

theorem cookie_exchange:
  assumes "lawful_crypto C" and "keyed_validator C pk v" and "keyed_generator C pk g"
    and "length fn = 24" and "gm2_last_mac1 (g_mac2 g) = Some mac1"
    and reply: "generate_reply C v sender mac1 source fs fn t0 = (r, v')"
    and fresh: "vm2_secret_time (v_mac2 v') = Some ts" "t3 - ts \<le> COOKIE_REFRESH_TIME" "t2 - t1 \<le> COOKIE_REFRESH_TIME"
  shows "\<exists>reply g'. r = Inr reply \<and> consume_reply C g reply t1 = (Inr (), g') \<and>
    (\<exists>mac1' mac2 g''. build_macs C g' input t2 = ((mac1', Some mac2), g'') \<and>
       verify_mac2 C v' (input @ mac1' @ mac2) source t3 = Inr ())"
proof -
  obtain reply where r: "r = Inr reply"
    by (rule generate_reply_ok [OF assms(1,2,4) reply]) blast
  note consume_reply_ok [OF assms(1-5), of sender source fs t0 reply v' t1]
  with r reply fresh lawful_cryptoD(2) [OF assms(1)] show ?thesis
    by (simp add: build_macs_def is_secret_valid_def verify_mac2_def Let_def)
qed

text \<open>A concrete lawful instance of the parameters.\<close>

definition test_crypto :: crypto where
  "test_crypto = \<lparr>blake2s = (\<lambda>n k m. replicate n (word_of_nat (length m))),
     aead_encrypt = null_enc, aead_decrypt = null_dec\<rparr>"

lemma lawful_test_crypto: "lawful_crypto test_crypto"
  by (simp add: lawful_crypto_def test_crypto_def lawful_null)


theorem cookie_exchange_witness:
  "let g = snd (build_macs test_crypto (generator_new test_crypto [5]) [1, 2] 0);
       (r, v) = generate_reply test_crypto (validator_new test_crypto [5]) 9 (replicate 16 2)
                  [127, 0, 0, 1] (replicate 16 7) (replicate 24 8) 100
   in \<exists>reply g'. r = Inr reply \<and> consume_reply test_crypto g reply 200 = (Inr (), g') \<and>
        (\<exists>mac1 mac2 g''. build_macs test_crypto g' [6] 300 = ((mac1, Some mac2), g'') \<and>
           verify_mac2 test_crypto v ([6] @ mac1 @ mac2) [127, 0, 0, 1] 400 = Inr ())"
proof -
  let ?g = "snd (build_macs test_crypto (generator_new test_crypto [5]) [1, 2] 0)"
  obtain r v where rv: "generate_reply test_crypto (validator_new test_crypto [5]) 9 (replicate 16 2)
      [127, 0, 0, 1] (replicate 16 7) (replicate 24 8) 100 = (r, v)" by fastforce
  then have ts: "vm2_secret_time (v_mac2 v) = Some 100"
    by (auto simp: generate_reply_def validator_new_def is_secret_valid_def Let_def split: prod.splits sum.splits)
  have "gm2_last_mac1 (g_mac2 ?g) = Some (replicate 16 2)"
    by (simp add: build_macs_def test_crypto_def generator_new_def Let_def)
  from cookie_exchange [OF lawful_test_crypto keyed_validator_new
      keyed_generator_macs [OF keyed_generator_new] _ this rv ts, of 400 300 200 "[6]"]
  show ?thesis by (simp add: rv time_defs)
qed

end
