(* ===== verification/Noise.thy ===== *)
theory Noise
  imports Prelude
begin

text \<open>
  \<open>src/noise.rs\<close>: how the handshakes are set up. The Noise protocol itself is the \<open>snow\<close> library; its
  sessions are a type parameter \<open>'n\<close> and its functions the parameter \<open>noise_ops\<close>.

  A session is built from what the builder was given and an ephemeral secret, \<open>entropy\<close>, that the
  library draws. \<open>n_write_message\<close> and \<open>n_read_message\<close> take the size of the output buffer and
  return the bytes written to it.
\<close>

record noise_builder =
  nb_params :: string
  nb_local_private_key :: bytes
  nb_prologue :: bytes
  nb_remote_public_key :: "bytes option"
  nb_psk :: "(nat \<times> bytes) option"

record 'n noise_ops =
  n_build_initiator :: "nat \<Rightarrow> noise_builder \<Rightarrow> 'n result"
  n_build_responder :: "nat \<Rightarrow> noise_builder \<Rightarrow> 'n result"
  n_write_message :: "'n \<Rightarrow> bytes \<Rightarrow> nat \<Rightarrow> bytes result \<times> 'n"
  n_read_message :: "'n \<Rightarrow> bytes \<Rightarrow> nat \<Rightarrow> bytes result \<times> 'n"
  n_into_transport_mode :: "'n \<Rightarrow> 'n result"
  n_is_handshake_finished :: "'n \<Rightarrow> bool"
  n_sending_nonce :: "'n \<Rightarrow> u64 result"
  n_set_receiving_nonce :: "'n \<Rightarrow> u64 \<Rightarrow> unit result \<times> 'n"
  n_set_psk :: "'n \<Rightarrow> nat \<Rightarrow> bytes \<Rightarrow> unit result \<times> 'n"
  n_get_remote_static :: "'n \<Rightarrow> bytes option"

definition NOISE_PARAMS :: string where
  "NOISE_PARAMS = ''Noise_IKpsk2_25519_ChaChaPoly_BLAKE2s''"

definition noise_prologue :: bytes where
  "noise_prologue = map of_char ''WireGuard v1 zx2c4 Jason@zx2c4.com''"

definition new_foundation :: "bytes \<Rightarrow> noise_builder" where
  "new_foundation local_privkey =
     \<lparr>nb_params = NOISE_PARAMS, nb_local_private_key = local_privkey, nb_prologue = noise_prologue,
      nb_remote_public_key = None, nb_psk = None\<rparr>"

definition build_initiator :: "'n noise_ops \<Rightarrow> nat \<Rightarrow> bytes \<Rightarrow> bytes \<Rightarrow> bytes option \<Rightarrow> 'n result" where
  "build_initiator N entropy local_privkey remote_pubkey psk =
     n_build_initiator N entropy
       ((new_foundation local_privkey)
          \<lparr>nb_remote_public_key := Some remote_pubkey,
           nb_psk := Some (2, case psk of Some k \<Rightarrow> k | None \<Rightarrow> replicate 32 0)\<rparr>)"

definition build_responder :: "'n noise_ops \<Rightarrow> nat \<Rightarrow> bytes \<Rightarrow> 'n result" where
  "build_responder N entropy local_privkey = n_build_responder N entropy (new_foundation local_privkey)"

section \<open>What the code relies on\<close>

text \<open>A session is in transport mode when it has a sending nonce. Entering transport mode establishes
  it, no message or nonce update leaves it, and a session that has only sent the first handshake
  message has not finished its handshake.\<close>

definition in_transport :: "'n noise_ops \<Rightarrow> 'n \<Rightarrow> bool" where
  "in_transport N s \<longleftrightarrow> (\<exists>n. n_sending_nonce N s = Inr n)"

definition lawful_noise :: "'n noise_ops \<Rightarrow> bool" where
  "lawful_noise N \<longleftrightarrow>
     (\<forall>s s'. n_into_transport_mode N s = Inr s' \<longrightarrow> in_transport N s') \<and>
     (\<forall>s payload sz. in_transport N s \<longrightarrow> in_transport N (snd (n_write_message N s payload sz))) \<and>
     (\<forall>s message sz. in_transport N s \<longrightarrow> in_transport N (snd (n_read_message N s message sz))) \<and>
     (\<forall>s nonce. in_transport N s \<longrightarrow> in_transport N (snd (n_set_receiving_nonce N s nonce))) \<and>
     (\<forall>entropy b s payload sz msg s'. n_build_initiator N entropy b = Inr s \<and>
        n_write_message N s payload sz = (Inr msg, s') \<longrightarrow> \<not> n_is_handshake_finished N s')"

text \<open>\<open>b\<close> decrypts what \<open>a\<close> sends next: the ciphertext is sixteen bytes longer than the payload and \<open>b\<close>
  reads the payload back when it is told the nonce \<open>n\<close> it was sent with.\<close>

definition transport_pair :: "'n noise_ops \<Rightarrow> u64 \<Rightarrow> 'n \<Rightarrow> 'n \<Rightarrow> bool" where
  "transport_pair N n a b \<longleftrightarrow>
     n_sending_nonce N a = Inr n \<and> n_is_handshake_finished N b \<and>
     (\<exists>b1. n_set_receiving_nonce N b n = (Inr (), b1) \<and>
       (\<forall>payload sz. length payload + 16 \<le> sz \<longrightarrow>
          (\<exists>c a1 b2. n_write_message N a payload sz = (Inr c, a1) \<and> length c = length payload + 16 \<and>
             (\<forall>sz'. length payload \<le> sz' \<longrightarrow> n_read_message N b1 c sz' = (Inr payload, b2)))))"

text \<open>A successful run of the IKpsk2 handshake with a twelve byte first payload and an empty second one,
  between the sessions of \<open>build_initiator\<close> and \<open>build_responder\<close>: \<open>i\<close> and \<open>r\<close> are the sessions it ends in.\<close>

definition ik_handshake ::
  "'n noise_ops \<Rightarrow> nat \<Rightarrow> bytes \<Rightarrow> bytes \<Rightarrow> bytes option \<Rightarrow> nat \<Rightarrow> bytes \<Rightarrow> bytes \<Rightarrow> bytes option \<Rightarrow> bytes \<Rightarrow> 'n \<Rightarrow> 'n \<Rightarrow> bool" where
  "ik_handshake N ent_i priv_i pub_r psk_i ent_r priv_r pub_i psk_r payload i r \<longleftrightarrow>
     (\<exists>i0 i1 i2 r0 r1 r2 r3 msg1 msg2.
        build_initiator N ent_i priv_i pub_r psk_i = Inr i0 \<and>
        n_write_message N i0 payload 140 = (Inr msg1, i1) \<and> length msg1 = 108 \<and>
        build_responder N ent_r priv_r = Inr r0 \<and>
        n_read_message N r0 msg1 12 = (Inr payload, r1) \<and> n_get_remote_static N r1 = Some pub_i \<and>
        n_set_psk N r1 2 (case psk_r of Some k \<Rightarrow> k | None \<Rightarrow> replicate 32 0) = (Inr (), r2) \<and>
        n_write_message N r2 [] 80 = (Inr msg2, r3) \<and> length msg2 = 48 \<and>
        n_into_transport_mode N r3 = Inr r \<and>
        n_read_message N i1 msg2 0 = (Inr [], i2) \<and>
        n_into_transport_mode N i2 = Inr i)"

section \<open>A transparent instance\<close>

text \<open>Sessions that go through the phases of the protocol with messages in the clear, sized like the
  real ones: fresh, half done, handshake finished, transport.\<close>

datatype phase = Fresh | Half | Finished | Transporting

record clear_session =
  c_initiator :: bool
  c_phase :: phase
  c_local :: bytes
  c_remote :: "bytes option"
  c_sending :: u64

definition clear_build :: "bool \<Rightarrow> nat \<Rightarrow> noise_builder \<Rightarrow> clear_session result" where
  "clear_build initiator entropy b =
     Inr \<lparr>c_initiator = initiator, c_phase = Fresh, c_local = nb_local_private_key b,
          c_remote = nb_remote_public_key b, c_sending = 0\<rparr>"

definition clear_write :: "clear_session \<Rightarrow> bytes \<Rightarrow> nat \<Rightarrow> bytes result \<times> clear_session" where
  "clear_write s payload sz =
     (case c_phase s of
        Transporting \<Rightarrow> (Inr (payload @ replicate 16 0), s\<lparr>c_sending := c_sending s + 1\<rparr>)
      | Fresh \<Rightarrow> if c_initiator s then (Inr (c_local s @ payload @ replicate 64 0), s\<lparr>c_phase := Half\<rparr>)
                 else (Inl (Err ''state''), s)
      | Half \<Rightarrow> if c_initiator s then (Inl (Err ''state''), s)
                else (Inr (payload @ replicate 48 0), s\<lparr>c_phase := Finished\<rparr>)
      | Finished \<Rightarrow> (Inl (Err ''state''), s))"

definition clear_read :: "clear_session \<Rightarrow> bytes \<Rightarrow> nat \<Rightarrow> bytes result \<times> clear_session" where
  "clear_read s message sz =
     (case c_phase s of
        Transporting \<Rightarrow> if length message < 16 then (Inl (Err ''decrypt''), s)
                        else (Inr (take (length message - 16) message), s)
      | Fresh \<Rightarrow> if c_initiator s then (Inl (Err ''state''), s)
                 else (Inr (take 12 (drop 32 message)), s\<lparr>c_phase := Half, c_remote := Some (take 32 message)\<rparr>)
      | Half \<Rightarrow> if c_initiator s then (Inr [], s\<lparr>c_phase := Finished\<rparr>) else (Inl (Err ''state''), s)
      | Finished \<Rightarrow> (Inl (Err ''state''), s))"

definition clear_noise :: "clear_session noise_ops" where
  "clear_noise =
     \<lparr>n_build_initiator = clear_build True,
      n_build_responder = clear_build False,
      n_write_message = clear_write,
      n_read_message = clear_read,
      n_into_transport_mode =
        (\<lambda>s. if c_phase s = Finished then Inr (s\<lparr>c_phase := Transporting\<rparr>) else Inl (Err ''state'')),
      n_is_handshake_finished = (\<lambda>s. c_phase s = Finished \<or> c_phase s = Transporting),
      n_sending_nonce = (\<lambda>s. if c_phase s = Transporting then Inr (c_sending s) else Inl (Err ''state'')),
      n_set_receiving_nonce = (\<lambda>s n. if c_phase s = Transporting then (Inr (), s) else (Inl (Err ''state''), s)),
      n_set_psk = (\<lambda>s pos k. (Inr (), s)),
      n_get_remote_static = c_remote\<rparr>"

lemmas clear_defs = clear_noise_def clear_build_def clear_write_def clear_read_def

lemma lawful_clear_noise: "lawful_noise clear_noise"
  by (auto simp: lawful_noise_def in_transport_def clear_defs split: phase.splits if_splits)

lemma transport_pair_clear:
  "c_phase a = Transporting \<Longrightarrow> c_phase b = Transporting \<Longrightarrow> transport_pair clear_noise (c_sending a) a b"
  by (simp add: transport_pair_def clear_defs)

lemma ik_handshake_clear:
  assumes "length payload = 12" and "length priv_i = 32"
  shows "ik_handshake clear_noise ent_i priv_i pub_r psk_i ent_r priv_r priv_i psk_r payload
    \<lparr>c_initiator = True, c_phase = Transporting, c_local = priv_i, c_remote = Some pub_r, c_sending = 0\<rparr>
    \<lparr>c_initiator = False, c_phase = Transporting, c_local = priv_r, c_remote = Some priv_i, c_sending = 0\<rparr>"
  using assms by (simp add: ik_handshake_def clear_defs build_initiator_def build_responder_def new_foundation_def)

end
