(* ===== verification/Types.thy ===== *)
theory Types
  imports Consts
begin

text \<open>
  Addresses and the plain data types: the standard library's \<open>IpAddr\<close> and \<open>SocketAddr\<close>, \<open>Endpoint\<close> of
  \<open>src/udp/mod.rs\<close>, \<open>PeerInfo\<close> and \<open>InterfaceInfo\<close> of \<open>src/types.rs\<close>.
\<close>

section \<open>Addresses\<close>

datatype ip_addr = IpV4 "32 word" | IpV6 "128 word"

definition octets :: "ip_addr \<Rightarrow> bytes" where
  "octets ip = (case ip of IpV4 a \<Rightarrow> be_bytes 4 (unat a) | IpV6 a \<Rightarrow> be_bytes 16 (unat a))"

datatype socket_addr =
    SocketAddrV4 "32 word" u16
  | SocketAddrV6 "128 word" u16 u32 u32

fun sock_ip :: "socket_addr \<Rightarrow> ip_addr" where
  "sock_ip (SocketAddrV4 a p) = IpV4 a"
| "sock_ip (SocketAddrV6 a p flow scope) = IpV6 a"

fun sock_port :: "socket_addr \<Rightarrow> u16" where
  "sock_port (SocketAddrV4 a p) = p"
| "sock_port (SocketAddrV6 a p flow scope) = p"

section \<open>Endpoints\<close>

record in_pktinfo =
  ipi_ifindex :: i32
  ipi_spec_dst :: u32
  ipi_addr :: u32

record in6_pktinfo =
  ipi6_addr :: "128 word"
  ipi6_ifindex :: u32

datatype endpoint =
    EndpointV4 socket_addr "in_pktinfo option"
  | EndpointV6 socket_addr "in6_pktinfo option"

fun endpoint_addr :: "endpoint \<Rightarrow> socket_addr" where
  "endpoint_addr (EndpointV4 sock info) = sock"
| "endpoint_addr (EndpointV6 sock info) = sock"

fun to_cleared_pktinfo :: "endpoint \<Rightarrow> endpoint" where
  "to_cleared_pktinfo (EndpointV4 sock info) = EndpointV4 sock None"
| "to_cleared_pktinfo (EndpointV6 sock info) = EndpointV6 sock None"

fun endpoint_from :: "socket_addr \<Rightarrow> endpoint" where
  "endpoint_from (SocketAddrV4 a p) = EndpointV4 (SocketAddrV4 a p) None"
| "endpoint_from (SocketAddrV6 a p flow scope) = EndpointV6 (SocketAddrV6 a p flow scope) None"

text \<open>\<open>endpoint.ip()\<close>, through the dereference to the socket address.\<close>

definition endpoint_ip :: "endpoint \<Rightarrow> ip_addr" where
  "endpoint_ip e = sock_ip (endpoint_addr e)"

lemma endpoint_addr_cleared [simp]: "endpoint_addr (to_cleared_pktinfo e) = endpoint_addr e"
  by (cases e) simp_all

lemma endpoint_addr_from [simp]: "endpoint_addr (endpoint_from a) = a"
  by (cases a) simp_all

section \<open>Configuration data\<close>

record peer_info =
  pub_key :: bytes
  psk :: "bytes option"
  endpoint :: "endpoint option"
  allowed_ips :: "(ip_addr \<times> u32) list"
  keepalive :: "u16 option"

definition peer_info_default :: peer_info where
  "peer_info_default =
     \<lparr>pub_key = replicate 32 0, psk = None, endpoint = None, allowed_ips = [], keepalive = None\<rparr>"

definition persistent_keepalive :: "peer_info \<Rightarrow> duration option" where
  "persistent_keepalive info =
     (case keepalive info of
        Some k \<Rightarrow> if k > 0 then Some (secs (unat k)) else None
      | None \<Rightarrow> None)"

record interface_info =
  if_private_key :: "bytes option"
  if_pub_key :: "bytes option"
  if_listen_port :: "u16 option"
  if_fwmark :: "u32 option"

definition interface_info_default :: interface_info where
  "interface_info_default =
     \<lparr>if_private_key = None, if_pub_key = None, if_listen_port = None, if_fwmark = None\<rparr>"

end
