(* ===== verification/Router.thy ===== *)
theory Router
  imports Types
begin

text \<open>
  \<open>src/ip_packet.rs\<close> and \<open>src/router.rs\<close>: reading the addresses of IP packets, and cryptokey routing.

  The header parsers of \<open>rips-packets\<close> and the longest prefix match tables of \<open>treebitmap\<close> are
  parameters. A parsed packet is what its accessors return; a table is described by an abstract view
  from masked prefixes to values (\<open>lawful_table\<close>).
\<close>

section \<open>IP packets\<close>

record ipv4_packet =
  v4_source :: "32 word"
  v4_destination :: "32 word"
  v4_total_length :: u16

record ipv6_packet =
  v6_source :: "128 word"
  v6_destination :: "128 word"
  v6_payload_length :: u16

record ip_parsers =
  ipv4_new :: "bytes \<Rightarrow> ipv4_packet option"
  ipv6_new :: "bytes \<Rightarrow> ipv6_packet option"

datatype ip_packet = PacketV4 ipv4_packet | PacketV6 ipv6_packet

definition ip_packet_new :: "ip_parsers \<Rightarrow> bytes \<Rightarrow> ip_packet option" where
  "ip_packet_new P packet =
     (case packet of
        [] \<Rightarrow> None
      | byte # _ \<Rightarrow>
          if drop_bit 4 byte = 4 then map_option PacketV4 (ipv4_new P packet)
          else if drop_bit 4 byte = 6 then map_option PacketV6 (ipv6_new P packet)
          else None)"

fun ip_source :: "ip_packet \<Rightarrow> ip_addr" where
  "ip_source (PacketV4 p) = IpV4 (v4_source p)"
| "ip_source (PacketV6 p) = IpV6 (v6_source p)"

fun ip_destination :: "ip_packet \<Rightarrow> ip_addr" where
  "ip_destination (PacketV4 p) = IpV4 (v4_destination p)"
| "ip_destination (PacketV6 p) = IpV6 (v6_destination p)"

text \<open>The sum is a \<open>u16\<close> and wraps in a release build.\<close>

fun ip_length :: "ip_packet \<Rightarrow> u16" where
  "ip_length (PacketV4 p) = v4_total_length p"
| "ip_length (PacketV6 p) = 40 + v6_payload_length p"

section \<open>The router\<close>

record ('t, 'a, 'v) table_ops =
  t_new :: 't
  t_insert :: "'t \<Rightarrow> 'a \<Rightarrow> u32 \<Rightarrow> 'v \<Rightarrow> 't"
  t_remove :: "'t \<Rightarrow> 'a \<Rightarrow> u32 \<Rightarrow> 't"
  t_longest_match :: "'t \<Rightarrow> 'a \<Rightarrow> ('a \<times> u32 \<times> 'v) option"

record ('t4, 't6, 'v) router_ops =
  ops4 :: "('t4, 32 word, 'v) table_ops"
  ops6 :: "('t6, 128 word, 'v) table_ops"

record ('t4, 't6) router =
  ip4_map :: 't4
  ip6_map :: 't6

definition router_default :: "('t4, 't6, 'v) router_ops \<Rightarrow> ('t4, 't6) router" where
  "router_default R = \<lparr>ip4_map = t_new (ops4 R), ip6_map = t_new (ops6 R)\<rparr>"

definition add_allowed_ip ::
  "('t4, 't6, 'v) router_ops \<Rightarrow> ('t4, 't6) router \<Rightarrow> ip_addr \<Rightarrow> u32 \<Rightarrow> 'v \<Rightarrow> ('t4, 't6) router" where
  "add_allowed_ip R r addr msk peer =
     (case addr of
        IpV4 a \<Rightarrow> r\<lparr>ip4_map := t_insert (ops4 R) (ip4_map r) a msk peer\<rparr>
      | IpV6 a \<Rightarrow> r\<lparr>ip6_map := t_insert (ops6 R) (ip6_map r) a msk peer\<rparr>)"

fun add_allowed_ips ::
  "('t4, 't6, 'v) router_ops \<Rightarrow> ('t4, 't6) router \<Rightarrow> (ip_addr \<times> u32) list \<Rightarrow> 'v \<Rightarrow> ('t4, 't6) router" where
  "add_allowed_ips R r [] peer = r"
| "add_allowed_ips R r ((ip_addr, msk) # ips) peer =
     add_allowed_ips R (add_allowed_ip R r ip_addr msk peer) ips peer"

definition remove_allowed_ip ::
  "('t4, 't6, 'v) router_ops \<Rightarrow> ('t4, 't6) router \<Rightarrow> ip_addr \<Rightarrow> u32 \<Rightarrow> ('t4, 't6) router" where
  "remove_allowed_ip R r addr msk =
     (case addr of
        IpV4 a \<Rightarrow> r\<lparr>ip4_map := t_remove (ops4 R) (ip4_map r) a msk\<rparr>
      | IpV6 a \<Rightarrow> r\<lparr>ip6_map := t_remove (ops6 R) (ip6_map r) a msk\<rparr>)"

fun remove_allowed_ips ::
  "('t4, 't6, 'v) router_ops \<Rightarrow> ('t4, 't6) router \<Rightarrow> (ip_addr \<times> u32) list \<Rightarrow> ('t4, 't6) router" where
  "remove_allowed_ips R r [] = r"
| "remove_allowed_ips R r ((ip_addr, msk) # ips) =
     remove_allowed_ips R (remove_allowed_ip R r ip_addr msk) ips"

definition router_clear :: "('t4, 't6, 'v) router_ops \<Rightarrow> ('t4, 't6) router \<Rightarrow> ('t4, 't6) router" where
  "router_clear R r = r\<lparr>ip4_map := t_new (ops4 R), ip6_map := t_new (ops6 R)\<rparr>"

definition get_peer_from_ip ::
  "('t4, 't6, 'v) router_ops \<Rightarrow> ('t4, 't6) router \<Rightarrow> ip_addr \<Rightarrow> 'v option" where
  "get_peer_from_ip R r ip =
     (case ip of
        IpV4 a \<Rightarrow> map_option (\<lambda>(_, _, peer). peer) (t_longest_match (ops4 R) (ip4_map r) a)
      | IpV6 a \<Rightarrow> map_option (\<lambda>(_, _, peer). peer) (t_longest_match (ops6 R) (ip6_map r) a))"

definition route_to_peer ::
  "ip_parsers \<Rightarrow> ('t4, 't6, 'v) router_ops \<Rightarrow> ('t4, 't6) router \<Rightarrow> bytes \<Rightarrow> 'v option" where
  "route_to_peer P R r packet =
     (case ip_packet_new P packet of
        Some p \<Rightarrow> get_peer_from_ip R r (ip_destination p)
      | None \<Rightarrow> None)"

text \<open>\<open>same\<close> is the comparison of two shared peers, which compares their public keys.\<close>

definition validate_source ::
  "ip_parsers \<Rightarrow> ('t4, 't6, 'v) router_ops \<Rightarrow> ('v \<Rightarrow> 'v \<Rightarrow> bool) \<Rightarrow> ('t4, 't6) router \<Rightarrow> bytes \<Rightarrow> 'v \<Rightarrow>
     unit result" where
  "validate_source P R same r packet peer =
     (case (case ip_packet_new P packet of
              Some p \<Rightarrow> get_peer_from_ip R r (ip_source p)
            | None \<Rightarrow> None) of
        None \<Rightarrow> Inl (Err ''no peer found on route'')
      | Some routed_peer \<Rightarrow> if same routed_peer peer then Inr () else Inl (Err ''peer mismatch''))"

section \<open>Prefix tables\<close>

text \<open>The first \<open>m\<close> bits of an address, the rest cleared.\<close>

definition prefix_of :: "'a :: len word \<Rightarrow> nat \<Rightarrow> 'a word" where
  "prefix_of a m = a AND NOT (mask (LENGTH('a) - m))"

text \<open>
  A table holds at most one value per prefix, insertion replaces it, removal deletes it, and a
  lookup returns the value of the longest prefix of the address that is present. Masks longer than
  the address are outside the contract.
\<close>

definition lawful_table ::
  "('t, 'a :: len word, 'v) table_ops \<Rightarrow> ('t \<Rightarrow> 'a word \<times> nat \<Rightarrow> 'v option) \<Rightarrow> bool" where
  "lawful_table T view \<longleftrightarrow>
     view (t_new T) = Map.empty \<and>
     (\<forall>t a m v. unat m \<le> LENGTH('a) \<longrightarrow>
        view (t_insert T t a m v) = (view t)((prefix_of a (unat m), unat m) \<mapsto> v)) \<and>
     (\<forall>t a m. unat m \<le> LENGTH('a) \<longrightarrow>
        view (t_remove T t a m) = (view t)((prefix_of a (unat m), unat m) := None)) \<and>
     (\<forall>t a. case t_longest_match T t a of
        None \<Rightarrow> \<forall>m \<le> LENGTH('a). view t (prefix_of a m, m) = None
      | Some (p, m, v) \<Rightarrow>
          p = prefix_of a (unat m) \<and> unat m \<le> LENGTH('a) \<and> view t (prefix_of a (unat m), unat m) = Some v \<and>
          (\<forall>m'. unat m < m' \<and> m' \<le> LENGTH('a) \<longrightarrow> view t (prefix_of a m', m') = None))"

lemma lawful_tableD:
  assumes "lawful_table (T :: ('t, 'a :: len word, 'v) table_ops) view"
  shows "view (t_new T) = Map.empty"
    and "unat m \<le> LENGTH('a) \<Longrightarrow> view (t_insert T t a m v) = (view t)((prefix_of a (unat m), unat m) \<mapsto> v)"
    and "unat m \<le> LENGTH('a) \<Longrightarrow> view (t_remove T t a m) = (view t)((prefix_of a (unat m), unat m) := None)"
  using assms unfolding lawful_table_def by blast+

lemma lawful_table_match:
  assumes "lawful_table (T :: ('t, 'a :: len word, 'v) table_ops) view"
  shows "case t_longest_match T t a of
        None \<Rightarrow> \<forall>m \<le> LENGTH('a). view t (prefix_of a m, m) = None
      | Some (p, m, v) \<Rightarrow>
          p = prefix_of a (unat m) \<and> unat m \<le> LENGTH('a) \<and> view t (prefix_of a (unat m), unat m) = Some v \<and>
          (\<forall>m'. unat m < m' \<and> m' \<le> LENGTH('a) \<longrightarrow> view t (prefix_of a m', m') = None)"
  using assms unfolding lawful_table_def by blast

section \<open>The routing table as one map\<close>

type_synonym net = "ip_addr \<times> nat"

fun ip_width :: "ip_addr \<Rightarrow> nat" where
  "ip_width (IpV4 a) = 32"
| "ip_width (IpV6 a) = 128"

fun ip_prefix :: "ip_addr \<Rightarrow> nat \<Rightarrow> ip_addr" where
  "ip_prefix (IpV4 a) m = IpV4 (prefix_of a m)"
| "ip_prefix (IpV6 a) m = IpV6 (prefix_of a m)"

definition net_of :: "ip_addr \<times> u32 \<Rightarrow> net" where
  "net_of n = (ip_prefix (fst n) (unat (snd n)), unat (snd n))"

definition valid_net :: "ip_addr \<times> u32 \<Rightarrow> bool" where
  "valid_net n \<longleftrightarrow> unat (snd n) \<le> ip_width (fst n)"

definition router_view ::
  "('t4 \<Rightarrow> 32 word \<times> nat \<Rightarrow> 'v option) \<Rightarrow> ('t6 \<Rightarrow> 128 word \<times> nat \<Rightarrow> 'v option) \<Rightarrow>
     ('t4, 't6) router \<Rightarrow> net \<Rightarrow> 'v option" where
  "router_view V4 V6 r n =
     (case fst n of IpV4 a \<Rightarrow> V4 (ip4_map r) (a, snd n) | IpV6 a \<Rightarrow> V6 (ip6_map r) (a, snd n))"

definition lawful_router ::
  "('t4, 't6, 'v) router_ops \<Rightarrow> ('t4 \<Rightarrow> 32 word \<times> nat \<Rightarrow> 'v option) \<Rightarrow>
     ('t6 \<Rightarrow> 128 word \<times> nat \<Rightarrow> 'v option) \<Rightarrow> bool" where
  "lawful_router R V4 V6 \<longleftrightarrow> lawful_table (ops4 R) V4 \<and> lawful_table (ops6 R) V6"

text \<open>The specification of a lookup: try the prefixes of the address from the longest to the empty one.\<close>

fun longest_from :: "(net \<Rightarrow> 'v option) \<Rightarrow> ip_addr \<Rightarrow> nat \<Rightarrow> 'v option" where
  "longest_from view ip 0 = view (ip_prefix ip 0, 0)"
| "longest_from view ip (Suc m) =
     (case view (ip_prefix ip (Suc m), Suc m) of Some v \<Rightarrow> Some v | None \<Rightarrow> longest_from view ip m)"

definition longest_route :: "(net \<Rightarrow> 'v option) \<Rightarrow> ip_addr \<Rightarrow> 'v option" where
  "longest_route view ip = longest_from view ip (ip_width ip)"

lemma longest_from_None:
  "\<forall>m \<le> k. view (ip_prefix ip m, m) = None \<Longrightarrow> longest_from view ip k = None"
  by (induction k) auto

lemma longest_from_Some:
  "view (ip_prefix ip m, m) = Some v \<Longrightarrow> m \<le> k \<Longrightarrow>
     \<forall>m'. m < m' \<and> m' \<le> k \<longrightarrow> view (ip_prefix ip m', m') = None \<Longrightarrow> longest_from view ip k = Some v"
proof (induction k)
  case 0
  then show ?case by simp
next
  case (Suc k)
  show ?case
  proof (cases "m = Suc k")
    case True
    with Suc show ?thesis by simp
  next
    case False
    with Suc.prems have "view (ip_prefix ip (Suc k), Suc k) = None" and "longest_from view ip k = Some v"
      using Suc.IH by auto
    then show ?thesis by simp
  qed
qed

lemma longest_from_net: "longest_from view ip k = Some v \<Longrightarrow> \<exists>m \<le> k. view (ip_prefix ip m, m) = Some v"
  by (induction k) (auto split: option.splits intro: le_SucI)

lemma router_view_default:
  "lawful_router R V4 V6 \<Longrightarrow> router_view V4 V6 (router_default R) = Map.empty"
  by (auto simp: router_view_def router_default_def lawful_router_def lawful_tableD(1) split: ip_addr.splits)

lemma router_view_clear:
  "lawful_router R V4 V6 \<Longrightarrow> router_view V4 V6 (router_clear R r) = Map.empty"
  by (auto simp: router_view_def router_clear_def lawful_router_def lawful_tableD(1) split: ip_addr.splits)

lemma router_view_add_one:
  assumes "lawful_router R V4 V6" and "valid_net (ip, msk)"
  shows "router_view V4 V6 (add_allowed_ip R r ip msk v) = (router_view V4 V6 r)(net_of (ip, msk) \<mapsto> v)"
  using assms by (cases ip) (auto simp: router_view_def add_allowed_ip_def lawful_router_def valid_net_def
      net_of_def lawful_tableD(2) fun_eq_iff split: ip_addr.splits)

lemma router_view_remove_one:
  assumes "lawful_router R V4 V6" and "valid_net (ip, msk)"
  shows "router_view V4 V6 (remove_allowed_ip R r ip msk) = (router_view V4 V6 r)(net_of (ip, msk) := None)"
  using assms by (cases ip) (auto simp: router_view_def remove_allowed_ip_def lawful_router_def valid_net_def
      net_of_def lawful_tableD(3) fun_eq_iff split: ip_addr.splits)

lemma router_view_add:
  assumes "lawful_router R V4 V6" and "list_all valid_net ips"
  shows "router_view V4 V6 (add_allowed_ips R r ips v) =
    (\<lambda>n. if n \<in> net_of ` set ips then Some v else router_view V4 V6 r n)"
  using assms by (induction R r ips v rule: add_allowed_ips.induct) (auto simp: router_view_add_one fun_eq_iff)

lemma router_view_remove:
  assumes "lawful_router R V4 V6" and "list_all valid_net ips"
  shows "router_view V4 V6 (remove_allowed_ips R r ips) =
    (\<lambda>n. if n \<in> net_of ` set ips then None else router_view V4 V6 r n)"
  using assms by (induction R r ips rule: remove_allowed_ips.induct) (auto simp: router_view_remove_one fun_eq_iff)

lemmas router_view_simps = router_view_default router_view_clear router_view_add router_view_remove

lemma get_peer_route:
  assumes "lawful_router R V4 V6"
  shows "get_peer_from_ip R r ip = longest_route (router_view V4 V6 r) ip"
proof (cases ip)
  case (IpV4 a)
  have "lawful_table (ops4 R) V4" using assms by (simp add: lawful_router_def)
  note lawful_table_match [OF this, of "ip4_map r" a]
  then show ?thesis
    by (auto simp: IpV4 get_peer_from_ip_def longest_route_def router_view_def split: option.splits prod.splits
        intro!: longest_from_None [symmetric] longest_from_Some [symmetric])
next
  case (IpV6 a)
  have "lawful_table (ops6 R) V6" using assms by (simp add: lawful_router_def)
  note lawful_table_match [OF this, of "ip6_map r" a]
  then show ?thesis
    by (auto simp: IpV6 get_peer_from_ip_def longest_route_def router_view_def split: option.splits prod.splits
        intro!: longest_from_None [symmetric] longest_from_Some [symmetric])
qed

lemma get_peer_covered:
  assumes "lawful_router R V4 V6" and "get_peer_from_ip R r ip = Some v"
  obtains m where "m \<le> ip_width ip" and "router_view V4 V6 r (ip_prefix ip m, m) = Some v"
  using longest_from_net [of "router_view V4 V6 r" ip "ip_width ip" v] assms(2)
  unfolding get_peer_route [OF assms(1)] longest_route_def by blast

section \<open>Histories of the routing table\<close>

datatype 'v router_op =
    AddIps "(ip_addr \<times> u32) list" 'v
  | RemoveIps "(ip_addr \<times> u32) list"
  | ClearIps

fun router_op_valid :: "'v router_op \<Rightarrow> bool" where
  "router_op_valid (AddIps ips v) = list_all valid_net ips"
| "router_op_valid (RemoveIps ips) = list_all valid_net ips"
| "router_op_valid ClearIps = True"

fun router_run :: "('t4, 't6, 'v) router_ops \<Rightarrow> ('t4, 't6) router \<Rightarrow> 'v router_op list \<Rightarrow> ('t4, 't6) router" where
  "router_run R r [] = r"
| "router_run R r (AddIps ips v # ops) = router_run R (add_allowed_ips R r ips v) ops"
| "router_run R r (RemoveIps ips # ops) = router_run R (remove_allowed_ips R r ips) ops"
| "router_run R r (ClearIps # ops) = router_run R (router_clear R r) ops"

text \<open>The specification keeps one map from networks to peers.\<close>

fun routes_run :: "(net \<Rightarrow> 'v option) \<Rightarrow> 'v router_op list \<Rightarrow> net \<Rightarrow> 'v option" where
  "routes_run f [] = f"
| "routes_run f (AddIps ips v # ops) = routes_run (\<lambda>n. if n \<in> net_of ` set ips then Some v else f n) ops"
| "routes_run f (RemoveIps ips # ops) = routes_run (\<lambda>n. if n \<in> net_of ` set ips then None else f n) ops"
| "routes_run f (ClearIps # ops) = routes_run (\<lambda>n. None) ops"

lemma router_run_view:
  assumes "lawful_router R V4 V6" and "list_all router_op_valid ops"
  shows "router_view V4 V6 (router_run R r ops) = routes_run (router_view V4 V6 r) ops"
  using assms
  by (induction R r ops rule: router_run.induct)
    (simp_all add: router_view_clear router_view_add router_view_remove)

section \<open>A reference table\<close>

fun alist_match :: "(('a :: len word \<times> nat) \<times> 'v) list \<Rightarrow> 'a word \<Rightarrow> nat \<Rightarrow> ('a word \<times> u32 \<times> 'v) option" where
  "alist_match t a m =
     (case map_of t (prefix_of a m, m) of
        Some v \<Rightarrow> Some (prefix_of a m, of_nat m, v)
      | None \<Rightarrow> (case m of 0 \<Rightarrow> None | Suc m' \<Rightarrow> alist_match t a m'))"

declare alist_match.simps [simp del]

definition alist_table :: "((('a :: len word \<times> nat) \<times> 'v) list, 'a word, 'v) table_ops" where
  "alist_table =
     \<lparr>t_new = [],
      t_insert = (\<lambda>t a m v. AList.update (prefix_of a (unat m), unat m) v t),
      t_remove = (\<lambda>t a m. AList.delete (prefix_of a (unat m), unat m) t),
      t_longest_match = (\<lambda>t a. alist_match t a LENGTH('a))\<rparr>"

lemma alist_match_0:
  "alist_match t a 0 = map_option (\<lambda>v. (prefix_of a 0, 0, v)) (map_of t (prefix_of a 0, 0))"
  by (simp add: alist_match.simps [of t a 0] split: option.splits)

lemma alist_match_Suc:
  "alist_match t a (Suc k) =
     (case map_of t (prefix_of a (Suc k), Suc k) of
        Some v \<Rightarrow> Some (prefix_of a (Suc k), of_nat (Suc k), v)
      | None \<Rightarrow> alist_match t a k)"
  by (subst alist_match.simps) (simp split: option.split)

lemma alist_match_None: "alist_match t a k = None \<Longrightarrow> m \<le> k \<Longrightarrow> map_of t (prefix_of a m, m) = None"
  by (induction k) (auto simp: alist_match_0 alist_match_Suc le_Suc_eq split: option.splits simp del: of_nat_Suc)

lemma alist_match_Some:
  "alist_match t a k = Some (p, w, v) \<Longrightarrow>
     \<exists>m \<le> k. p = prefix_of a m \<and> w = of_nat m \<and> map_of t (prefix_of a m, m) = Some v \<and>
       (\<forall>m'. m < m' \<and> m' \<le> k \<longrightarrow> map_of t (prefix_of a m', m') = None)"
proof (induction k)
  case 0
  then show ?case by (auto simp: alist_match_0)
next
  case (Suc k)
  show ?case
  proof (cases "map_of t (prefix_of a (Suc k), Suc k)")
    case None
    with Suc obtain m where "m \<le> k" "p = prefix_of a m" "w = of_nat m" "map_of t (prefix_of a m, m) = Some v"
      and "\<forall>m'. m < m' \<and> m' \<le> k \<longrightarrow> map_of t (prefix_of a m', m') = None"
      by (auto simp: alist_match_Suc)
    with None show ?thesis by (intro exI [of _ m]) (auto simp: le_Suc_eq simp del: not_None_eq)
  next
    case (Some v')
    with Suc.prems show ?thesis
      by (intro exI [of _ "Suc k"]) (auto simp: alist_match_Suc simp del: of_nat_Suc)
  qed
qed

lemma alist_match_spec:
  assumes "k < 2 ^ 32"
  shows "case alist_match t a k of
     None \<Rightarrow> \<forall>m \<le> k. map_of t (prefix_of a m, m) = None
   | Some (p, m, v) \<Rightarrow>
       p = prefix_of a (unat m) \<and> unat m \<le> k \<and> map_of t (prefix_of a (unat m), unat m) = Some v \<and>
       (\<forall>m'. unat m < m' \<and> m' \<le> k \<longrightarrow> map_of t (prefix_of a m', m') = None)"
proof (cases "alist_match t a k")
  case None
  then show ?thesis using alist_match_None [OF None] by simp
next
  case (Some x)
  obtain p w v where x: "x = (p, w, v)" by (cases x) auto
  from alist_match_Some [OF Some [unfolded x]] obtain m where
    m: "m \<le> k" "p = prefix_of a m" "w = of_nat m" "map_of t (prefix_of a m, m) = Some v"
       "\<forall>m'. m < m' \<and> m' \<le> k \<longrightarrow> map_of t (prefix_of a m', m') = None" by blast
  have "unat w = m" using assms m(1,3) by (simp add: unat_of_nat take_bit_nat_eq_self)
  then show ?thesis using m Some x by simp
qed

lemma lawful_alist_table:
  assumes "LENGTH('a) < 2 ^ 32"
  shows "lawful_table (alist_table :: (_, 'a :: len word, 'v) table_ops) map_of"
  using alist_match_spec [OF assms, where ?'a = 'a and ?'b = 'v]
  unfolding lawful_table_def alist_table_def by (simp only: table_ops.simps map_of_update map_of_delete) simp

definition alist_router :: "(((32 word \<times> nat) \<times> 'v) list, ((128 word \<times> nat) \<times> 'v) list, 'v) router_ops" where
  "alist_router = \<lparr>ops4 = alist_table, ops6 = alist_table\<rparr>"

lemma lawful_alist_router: "lawful_router alist_router map_of map_of"
  by (simp add: lawful_router_def alist_router_def lawful_alist_table)

section \<open>Properties\<close>



text \<open>A decrypted packet passes the source check exactly when it parses as an IP packet whose source
  address is routed, by longest prefix, to the peer it came from; otherwise it is rejected with the
  error that tells the two failures apart.\<close>

lemma validate_source_cases:
  assumes "lawful_router R V4 V6"
  shows "validate_source P R same r packet peer =
    (case Option.bind (ip_packet_new P packet) (\<lambda>p. longest_route (router_view V4 V6 r) (ip_source p)) of
       None \<Rightarrow> Inl (Err ''no peer found on route'')
     | Some v \<Rightarrow> if same v peer then Inr () else Inl (Err ''peer mismatch''))"
  using get_peer_route [OF assms] by (auto simp: validate_source_def split: option.splits)

end
