(* ===== verification/Text.thy ===== *)
theory Text
  imports Types
begin

text \<open>
  The text formats of the standard library that the configuration protocol and the error messages use:
  numbers, splitting at a separator and UTF-8. A \<open>str\<close> is the list of its UTF-8 bytes as characters.
\<close>

section \<open>Numbers\<close>

text \<open>\<open>{}\<close> and \<open>{:x}\<close> of an unsigned integer.\<close>

definition digit_char :: "nat \<Rightarrow> char" where
  "digit_char d = char_of (if d < 10 then 48 + d else 87 + d)"

function radix_string :: "nat \<Rightarrow> nat \<Rightarrow> string" where
  "radix_string b n =
     (if b < 2 \<or> n < b then [digit_char n] else radix_string b (n div b) @ [digit_char (n mod b)])"
  by pat_completeness auto
termination by (relation "measure snd") auto

declare radix_string.simps [simp del]

abbreviation dec :: "nat \<Rightarrow> string" where
  "dec \<equiv> radix_string 10"

abbreviation lower_hex :: "nat \<Rightarrow> string" where
  "lower_hex \<equiv> radix_string 16"

text \<open>The value of a digit, in upper or lower case.\<close>

definition char_digit :: "nat \<Rightarrow> char \<Rightarrow> nat option" where
  "char_digit b c =
     (let n = of_char c;
          v = (if 48 \<le> n \<and> n \<le> 57 then Some (n - 48)
               else if 97 \<le> n \<and> n \<le> 122 then Some (n - 87)
               else if 65 \<le> n \<and> n \<le> 90 then Some (n - 55)
               else None)
      in case v of Some d \<Rightarrow> if d < b then Some d else None | None \<Rightarrow> None)"

text \<open>\<open>str::parse\<close> of an unsigned integer type with \<open>bound\<close> values: an optional \<open>+\<close>, then one or more
  digits, and no overflow.\<close>

fun parse_digits :: "nat \<Rightarrow> nat \<Rightarrow> string \<Rightarrow> nat result" where
  "parse_digits bound acc [] = Inr acc"
| "parse_digits bound acc (c # cs) =
     (case char_digit 10 c of
        None \<Rightarrow> Inl (Err ''invalid digit found in string'')
      | Some d \<Rightarrow>
          if acc * 10 + d < bound then parse_digits bound (acc * 10 + d) cs
          else Inl (Err ''number too large to fit in target type''))"

definition parse_uint :: "nat \<Rightarrow> string \<Rightarrow> nat result" where
  "parse_uint bound s =
     (let digits = (case s of c # cs \<Rightarrow> if c = CHR ''+'' then cs else s | [] \<Rightarrow> []) in
      if digits = [] then Inl (Err ''cannot parse integer from empty string'') else parse_digits bound 0 digits)"

lemma char_digit_digit_char [simp]: "d < b \<Longrightarrow> b \<le> 16 \<Longrightarrow> char_digit b (digit_char d) = Some d"
  by (simp add: char_digit_def digit_char_def Let_def)

lemma radix_string_cases:
  assumes "2 \<le> b"
  obtains "n < b" "radix_string b n = [digit_char n]"
  | "b \<le> n" "radix_string b n = radix_string b (n div b) @ [digit_char (n mod b)]" "n div b < n" "n mod b < b"
    "n div b * b + n mod b = n"
proof (cases "n < b")
  case True
  then show thesis using that(1) by (simp add: radix_string.simps)
next
  case False
  then show thesis using that(2) assms by (simp add: radix_string.simps [of b n])
qed

lemma radix_string_nonempty [simp]: "radix_string b n \<noteq> []"
  by (subst radix_string.simps) simp

lemma set_radix_string:
  assumes "2 \<le> b" and "c \<in> set (radix_string b n)"
  shows "\<exists>d < b. c = digit_char d"
  using assms(2)
proof (induction n rule: less_induct)
  case (less n)
  from assms(1) show ?case by (rule radix_string_cases [of b n]) (use less in auto)
qed

lemma length_radix_string:
  assumes "2 \<le> b" and "n < b ^ k" and "0 < k"
  shows "length (radix_string b n) \<le> k"
  using assms(2,3)
proof (induction k arbitrary: n)
  case (Suc k)
  from assms(1) show ?case
  proof (rule radix_string_cases [of b n])
    assume "b \<le> n" and eq: "radix_string b n = radix_string b (n div b) @ [digit_char (n mod b)]"
    then have "0 < k" using Suc.prems by (cases k) auto
    moreover have "n div b < b ^ k" using Suc.prems(1) by (simp add: less_mult_imp_div_less mult.commute)
    ultimately show ?thesis using Suc.IH [of "n div b"] eq by simp
  qed simp
qed simp

lemma char_digit_SomeD: "char_digit b c = Some d \<Longrightarrow> d < b"
  by (auto simp: char_digit_def Let_def split: option.splits if_splits)

lemma parse_digits_append:
  "parse_digits bound acc (xs @ ys) =
     (case parse_digits bound acc xs of Inl e \<Rightarrow> Inl e | Inr a \<Rightarrow> parse_digits bound a ys)"
  by (induction xs arbitrary: acc) (auto split: option.splits)

lemma parse_digits_dec: "n < bound \<Longrightarrow> parse_digits bound 0 (dec n) = Inr n"
proof (induction n rule: less_induct)
  case (less n)
  have "2 \<le> (10 :: nat)" by simp
  then show ?case
    by (rule radix_string_cases [of 10 n]) (use less in \<open>auto simp: parse_digits_append\<close>)
qed

lemma digit_char_range:
  "d < 10 \<Longrightarrow> of_char (digit_char d) = (48 + d :: nat)"
  "10 \<le> d \<Longrightarrow> d < 16 \<Longrightarrow> of_char (digit_char d) = (87 + d :: nat)"
  by (simp_all add: digit_char_def)

text \<open>Printed numbers contain no separator of the formats.\<close>

lemma radix_string_plain:
  assumes "b \<in> {10, 16}" and "c \<in> set (radix_string b n)"
  shows "48 \<le> (of_char c :: nat) \<and> (of_char c :: nat) \<le> 57 \<or> 97 \<le> (of_char c :: nat) \<and> (of_char c :: nat) \<le> 102"
proof -
  obtain d where "d < b" "c = digit_char d" using set_radix_string [of b c n] assms by auto
  then show ?thesis using assms(1) digit_char_range [of d] by (cases "d < 10") auto
qed

lemma radix_string_no_separator:
  assumes "b \<in> {10, 16}" and "(of_char c :: nat) < 48 \<or> 57 < (of_char c :: nat) \<and> (of_char c :: nat) < 97"
  shows "c \<notin> set (radix_string b n)"
  using radix_string_plain [OF assms(1), of c n] assms(2) by auto

lemma parse_uint_dec [simp]:
  assumes "n < bound"
  shows "parse_uint bound (dec n) = Inr n"
proof -
  have "CHR ''+'' \<notin> set (dec n)" by (rule radix_string_no_separator) auto
  then have "(case dec n of c # cs \<Rightarrow> if c = CHR ''+'' then cs else dec n | [] \<Rightarrow> []) = dec n"
    by (auto split: list.split)
  then show ?thesis using parse_digits_dec [OF assms] by (simp add: parse_uint_def)
qed

section \<open>Splitting\<close>

text \<open>\<open>s.split(c)\<close> for a character, and the text before and after the first empty line, which is what
  the code uses of \<open>s.split("\n\n")\<close>.\<close>

abbreviation newline :: char where
  "newline \<equiv> CHR 0x0A"

fun split_char :: "char \<Rightarrow> string \<Rightarrow> string list" where
  "split_char c [] = [[]]"
| "split_char c (x # xs) =
     (if x = c then [] # split_char c xs
      else case split_char c xs of [] \<Rightarrow> [[x]] | y # ys \<Rightarrow> (x # y) # ys)"

fun split_blank_line :: "string \<Rightarrow> (string \<times> string) option" where
  "split_blank_line (a # b # s) =
     (if a = newline \<and> b = newline then Some ([], s)
      else map_option (\<lambda>(before, after). (a # before, after)) (split_blank_line (b # s)))"
| "split_blank_line _ = None"

lemma split_char_nonempty [simp]: "split_char c s \<noteq> []"
  by (induction s) (auto split: list.splits)

lemma split_char_none: "c \<notin> set s \<Longrightarrow> split_char c s = [s]"
  by (induction s) auto

lemma split_char_append: "c \<notin> set s \<Longrightarrow> split_char c (s @ c # t) = s # split_char c t"
  by (induction s) auto

lemma split_blank_line_Some:
  "split_blank_line s = Some (before, after) \<Longrightarrow> s = before @ [newline, newline] @ after"
  by (induction s arbitrary: before rule: split_blank_line.induct) (auto split: if_splits)

section \<open>UTF-8\<close>

text \<open>\<open>String::from_utf8\<close> accepts the well-formed byte sequences of the Unicode standard.\<close>

definition utf8_continuation :: "u8 \<Rightarrow> bool" where
  "utf8_continuation b \<longleftrightarrow> 0x80 \<le> b \<and> b \<le> 0xBF"

fun utf8_valid :: "bytes \<Rightarrow> bool" where
  "utf8_valid [] = True"
| "utf8_valid (a # r) =
     (if a < 0x80 then utf8_valid r
      else if 0xC2 \<le> a \<and> a \<le> 0xDF then (case r of b # r \<Rightarrow> utf8_continuation b \<and> utf8_valid r | _ \<Rightarrow> False)
      else if 0xE0 \<le> a \<and> a \<le> 0xEF then
        (case r of
           b # c # r \<Rightarrow>
             utf8_continuation b \<and> utf8_continuation c \<and> (a = 0xE0 \<longrightarrow> 0xA0 \<le> b) \<and> (a = 0xED \<longrightarrow> b \<le> 0x9F) \<and> utf8_valid r
         | _ \<Rightarrow> False)
      else if 0xF0 \<le> a \<and> a \<le> 0xF4 then
        (case r of
           b # c # d # r \<Rightarrow>
             utf8_continuation b \<and> utf8_continuation c \<and> utf8_continuation d \<and>
             (a = 0xF0 \<longrightarrow> 0x90 \<le> b) \<and> (a = 0xF4 \<longrightarrow> b \<le> 0x8F) \<and> utf8_valid r
         | _ \<Rightarrow> False)
      else False)"

definition str_of_bytes :: "bytes \<Rightarrow> string" where
  "str_of_bytes bs = map (\<lambda>b. char_of (unat b)) bs"

text \<open>\<open>s.as_bytes()\<close>\<close>

definition as_bytes :: "string \<Rightarrow> bytes" where
  "as_bytes s = map of_char s"

definition from_utf8 :: "bytes \<Rightarrow> string option" where
  "from_utf8 bs = (if utf8_valid bs then Some (str_of_bytes bs) else None)"

definition ascii :: "string \<Rightarrow> bool" where
  "ascii s \<longleftrightarrow> list_all (\<lambda>c. (of_char c :: nat) < 128) s"

lemma unat_of_char: "unat (of_char c :: u8) = of_char c"
proof -
  have "(of_char c :: u8) = of_nat (of_char c)" by (simp only: of_nat_of_char)
  then show ?thesis by (simp add: unat_of_nat take_bit_nat_eq_self nat_of_char_less_256)
qed

lemma str_of_as_bytes [simp]: "str_of_bytes (as_bytes s) = s"
  by (induction s) (simp_all add: str_of_bytes_def as_bytes_def unat_of_char)

lemma utf8_valid_ascii: "ascii s \<Longrightarrow> utf8_valid (as_bytes s)"
proof (induction s)
  case (Cons c s)
  then have "(of_char c :: u8) < 0x80" by (simp add: ascii_def word_less_nat_alt unat_of_char)
  then show ?case using Cons by (simp add: as_bytes_def ascii_def)
qed (simp add: as_bytes_def)

lemma from_utf8_ascii [simp]: "ascii s \<Longrightarrow> from_utf8 (as_bytes s) = Some s"
  by (simp add: from_utf8_def utf8_valid_ascii)

lemma ascii_simps [simp]:
  "ascii []" "ascii (c # s) \<longleftrightarrow> (of_char c :: nat) < 128 \<and> ascii s" "ascii (s @ t) \<longleftrightarrow> ascii s \<and> ascii t"
  by (simp_all add: ascii_def)

lemma ascii_radix_string: "b \<in> {10, 16} \<Longrightarrow> ascii (radix_string b n)"
  unfolding ascii_def list_all_iff
  by (auto dest: radix_string_plain [rotated])

end
