(* ===== verification/Timestamp.thy ===== *)
theory Timestamp
  imports Consts
begin

text \<open>
  \<open>src/timestamp.rs\<close>: the TAI64N timestamps of handshake initiations and the optional instants
  (\<open>Timestamp\<close>) that the timers of a peer are kept in. \<open>SystemTime::now()\<close> and \<open>Instant::now()\<close>
  are arguments.
\<close>

section \<open>TAI64N\<close>

definition TAI64N_BASE :: i64 where "TAI64N_BASE = 4611686018427387914"

datatype tai64n = Tai64n (tai64n_deref: bytes)

text \<open>\<open>t\<close> is the time since the Unix epoch; the additions wrap as in a release build.\<close>

definition tai64n_now :: "duration \<Rightarrow> tai64n" where
  "tai64n_now t =
     (let buf = replicate 12 0;
          buf = put_slice 0 (be_bytes 8 (unat (TAI64N_BASE + word_of_nat (as_secs t)))) buf;
          buf = put_slice 8 (be_bytes 4 (unat (word_of_nat (subsec_nanos t) :: i32))) buf
      in Tai64n buf)"

definition tai64n_from :: "bytes \<Rightarrow> tai64n" where
  "tai64n_from bs = Tai64n bs"

definition tai64n_lt :: "tai64n \<Rightarrow> tai64n \<Rightarrow> bool" where
  "tai64n_lt a b = bytes_lt (tai64n_deref a) (tai64n_deref b)"

text \<open>The derived \<open>PartialOrd\<close> is a linear order.\<close>

instantiation tai64n :: linorder
begin

definition less_tai64n :: "tai64n \<Rightarrow> tai64n \<Rightarrow> bool" where
  "less_tai64n = tai64n_lt"

definition less_eq_tai64n :: "tai64n \<Rightarrow> tai64n \<Rightarrow> bool" where
  "less_eq_tai64n a b \<longleftrightarrow> a = b \<or> tai64n_lt a b"

instance
proof
  fix a b c :: tai64n
  show "a < b \<longleftrightarrow> a \<le> b \<and> \<not> b \<le> a" "a \<le> a" "a \<le> b \<Longrightarrow> b \<le> c \<Longrightarrow> a \<le> c" "a \<le> b \<Longrightarrow> b \<le> a \<Longrightarrow> a = b"
    using bytes_lt_irrefl bytes_lt_trans unfolding less_tai64n_def less_eq_tai64n_def tai64n_lt_def by metis+
  show "a \<le> b \<or> b \<le> a"
    using bytes_lt_total [of "tai64n_deref a" "tai64n_deref b"] by (auto simp: less_eq_tai64n_def tai64n_lt_def intro: tai64n.expand)
qed

end

lemma length_tai64n_now [simp]: "length (tai64n_deref (tai64n_now t)) = 12"
  by (simp add: tai64n_now_def Let_def)

lemma tai64n_now_bytes:
  "tai64n_deref (tai64n_now t) =
     be_bytes 8 (unat (TAI64N_BASE + word_of_nat (as_secs t))) @
     be_bytes 4 (unat (word_of_nat (subsec_nanos t) :: i32))"
  by (simp add: tai64n_now_def Let_def put_slice_def)

text \<open>Up to the year 146 billion the seconds stay a positive \<open>i64\<close>.\<close>

lemma unat_tai64n_secs:
  assumes "as_secs t < 2 ^ 62 - 10"
  shows "unat (TAI64N_BASE + word_of_nat (as_secs t)) = 4611686018427387914 + as_secs t"
proof -
  have eq: "TAI64N_BASE + word_of_nat (as_secs t) = (word_of_nat (4611686018427387914 + as_secs t) :: i64)"
    by (simp add: TAI64N_BASE_def)
  have "unat (word_of_nat (4611686018427387914 + as_secs t) :: i64) =
      (4611686018427387914 + as_secs t) mod 2 ^ LENGTH(64)"
    by (rule unat_of_nat)
  then show ?thesis
    unfolding eq using assms by simp
qed

lemma unat_tai64n_nanos: "unat (word_of_nat (subsec_nanos t) :: i32) = subsec_nanos t"
proof -
  have "subsec_nanos t < 1000000000" by (simp add: subsec_nanos_def)
  then show ?thesis by (simp add: unat_of_nat)
qed

lemma be_bytes_less:
  assumes "a < 256 ^ n" and "b < 256 ^ n"
  shows "bytes_lt (be_bytes n a) (be_bytes n b) \<longleftrightarrow> a < b"
  using assms by (subst bytes_lt_be_val) simp_all

lemma be_bytes_inj:
  assumes "a < 256 ^ n" and "b < 256 ^ n"
  shows "be_bytes n a = be_bytes n b \<longleftrightarrow> a = b"
proof
  assume "be_bytes n a = be_bytes n b"
  then have "be_val (be_bytes n a) = be_val (be_bytes n b)" by simp
  then show "a = b" using assms by simp
qed simp

text \<open>C19: the byte-wise comparison that rejects replayed handshake initiations is the
  chronological order of the clock readings the timestamps encode.\<close>

theorem tai64n_order:
  assumes "t1 < secs (2 ^ 62 - 10)" and "t2 < secs (2 ^ 62 - 10)"
  shows "tai64n_lt (tai64n_now t1) (tai64n_now t2) \<longleftrightarrow> t1 < t2"
proof -
  have s: "as_secs t1 < 2 ^ 62 - 10" "as_secs t2 < 2 ^ 62 - 10"
    using assms by (simp_all add: secs_def as_secs_def less_mult_imp_div_less)
  have n: "subsec_nanos t1 < 1000000000" "subsec_nanos t2 < 1000000000"
    by (simp_all add: subsec_nanos_def)
  have t: "t1 = as_secs t1 * 1000000000 + subsec_nanos t1" "t2 = as_secs t2 * 1000000000 + subsec_nanos t2"
    by (simp_all add: as_secs_def subsec_nanos_def)
  have "tai64n_lt (tai64n_now t1) (tai64n_now t2) \<longleftrightarrow>
      as_secs t1 < as_secs t2 \<or> (as_secs t1 = as_secs t2 \<and> subsec_nanos t1 < subsec_nanos t2)"
    using s n by (simp add: tai64n_lt_def tai64n_now_bytes bytes_lt_append be_bytes_less be_bytes_inj
        unat_tai64n_secs unat_tai64n_nanos)
  also have "\<dots> \<longleftrightarrow> t1 < t2"
    using n t by linarith
  finally show ?thesis .
qed

theorem tai64n_order_witness:
  "tai64n_lt (tai64n_now (secs 1526000000)) (tai64n_now (secs 1526000000 + 1))"
proof -
  have "secs 1526000000 < secs (2 ^ 62 - 10)" and "secs 1526000000 + 1 < secs (2 ^ 62 - 10)"
    by (simp_all add: secs_def)
  from tai64n_order [OF this] show ?thesis by simp
qed

section \<open>Timestamp\<close>

text \<open>\<open>struct Timestamp(Option<Instant>)\<close>; its \<open>Default\<close> and \<open>unset\<close> are \<open>None\<close>.\<close>

type_synonym timestamp = "instant option"

definition FOREVER :: duration where "FOREVER = secs 0xffffffff"

definition timestamp_default :: timestamp where "timestamp_default = None"
definition timestamp_now :: "instant \<Rightarrow> timestamp" where "timestamp_now now = Some now"
definition timestamp_unset :: timestamp where "timestamp_unset = None"
definition is_set :: "timestamp \<Rightarrow> bool" where "is_set ts \<longleftrightarrow> ts \<noteq> None"

text \<open>\<open>Instant::now().duration_since(t)\<close> of a monotonic clock: \<open>t\<close> is never later than \<open>now\<close>.\<close>

definition elapsed :: "timestamp \<Rightarrow> instant \<Rightarrow> duration" where
  "elapsed ts now = (case ts of Some time \<Rightarrow> now - time | None \<Rightarrow> FOREVER)"

lemma elapsed_simps [simp]:
  "elapsed (Some t) now = now - t"
  "elapsed (timestamp_now t) now = now - t"
  "elapsed None now = FOREVER"
  "elapsed timestamp_default now = FOREVER"
  by (simp_all add: elapsed_def timestamp_now_def timestamp_default_def)

end
