(* ===== verification/Timer.thy ===== *)
theory Timer
  imports Consts "HOL-Library.Multiset"
begin

text \<open>
  \<open>src/timer.rs\<close>. \<open>send_after\<close> spawns a delay that, when it expires, puts a message into the channel the
  peer server polls, unless the handle it returned was cancelled. Weak references to peers are
  references into the peer store; whether one can be upgraded is decided where the message is handled.
\<close>

type_synonym peer_ref = nat
type_synonym timer_handle = nat

datatype timer_message =
    PersistentKeepAlive peer_ref
  | PassiveKeepAlive peer_ref
  | Rekey peer_ref u32
  | Wipe peer_ref

text \<open>A spawned delay: its handle, when it expires, its message.\<close>

record delay =
  d_handle :: timer_handle
  d_due :: instant
  d_message :: timer_message

record timer =
  t_delays :: "delay list"
  t_next_handle :: timer_handle
  t_canceled :: "timer_handle list"
  t_rx :: "timer_message list"

definition timer_new :: timer where
  "timer_new = \<lparr>t_delays = [], t_next_handle = 0, t_canceled = [], t_rx = []\<rparr>"

definition send_after :: "duration \<Rightarrow> timer_message \<Rightarrow> instant \<Rightarrow> timer \<Rightarrow> timer_handle \<times> timer" where
  "send_after wait message now t =
     (t_next_handle t,
      t\<lparr>t_delays := t_delays t @ [\<lparr>d_handle = t_next_handle t, d_due = now + wait + TIMER_RESOLUTION * 2,
                                  d_message = message\<rparr>],
        t_next_handle := t_next_handle t + 1\<rparr>)"

definition timer_cancel :: "timer_handle \<Rightarrow> timer \<Rightarrow> timer" where
  "timer_cancel h t = t\<lparr>t_canceled := h # t_canceled t\<rparr>"

text \<open>The reactor runs the delay with handle \<open>h\<close> once it has expired.\<close>

definition timer_expire :: "timer_handle \<Rightarrow> instant \<Rightarrow> timer \<Rightarrow> timer" where
  "timer_expire h now t =
     (case filter (\<lambda>d. d_handle d = h) (t_delays t) of
        [] \<Rightarrow> t
      | d # _ \<Rightarrow>
          if now < d_due d then t
          else
            let t = t\<lparr>t_delays := filter (\<lambda>d. d_handle d \<noteq> h) (t_delays t)\<rparr>
            in if h \<notin> set (t_canceled t) then t\<lparr>t_rx := t_rx t @ [d_message d]\<rparr> else t)"

definition timer_poll :: "timer \<Rightarrow> timer_message option \<times> timer" where
  "timer_poll t = (case t_rx t of [] \<Rightarrow> (None, t) | m # ms \<Rightarrow> (Some m, t\<lparr>t_rx := ms\<rparr>))"

section \<open>Delivery\<close>

datatype timer_event =
    SendAfter duration timer_message instant
  | Cancel timer_handle
  | Expire timer_handle instant
  | PollTimer

fun timer_step :: "timer_event \<Rightarrow> timer \<Rightarrow> timer_message list \<times> timer" where
  "timer_step (SendAfter wait m now) t = ([], snd (send_after wait m now t))"
| "timer_step (Cancel h) t = ([], timer_cancel h t)"
| "timer_step (Expire h now) t = ([], timer_expire h now t)"
| "timer_step PollTimer t = (case timer_poll t of (None, t) \<Rightarrow> ([], t) | (Some m, t) \<Rightarrow> ([m], t))"

fun timer_run :: "timer_event list \<Rightarrow> timer \<Rightarrow> timer_message list \<times> timer" where
  "timer_run [] t = ([], t)"
| "timer_run (e # es) t = (let (ms, t) = timer_step e t; (ms', t) = timer_run es t in (ms @ ms', t))"

fun sent_message :: "timer_event \<Rightarrow> timer_message list" where
  "sent_message (SendAfter wait m now) = [m]"
| "sent_message _ = []"

definition timer_outstanding :: "timer \<Rightarrow> timer_message multiset" where
  "timer_outstanding t = mset (map d_message (t_delays t)) + mset (t_rx t)"

lemma timer_outstanding_new [simp]: "timer_outstanding timer_new = {#}"
  by (simp add: timer_outstanding_def timer_new_def)

text \<open>Expiry moves one delay's message into the channel, or drops it when it was cancelled.\<close>

lemma timer_outstanding_expire: "timer_outstanding (timer_expire h now t) \<subseteq># timer_outstanding t"
proof (cases "filter (\<lambda>d. d_handle d = h) (t_delays t)")
  case Nil
  then show ?thesis by (simp add: timer_expire_def)
next
  case (Cons d ds)
  have "mset (t_delays t) = mset (d # ds) + mset (filter (\<lambda>d. d_handle d \<noteq> h) (t_delays t))"
    unfolding Cons [symmetric] mset_filter by (rule multiset_partition)
  from arg_cong [OF this, of "image_mset d_message"]
  have "image_mset d_message (mset (t_delays t)) =
      {#d_message d#} + image_mset d_message (mset ds) +
      image_mset d_message (mset (filter (\<lambda>d. d_handle d \<noteq> h) (t_delays t)))"
    by simp
  then show ?thesis using Cons by (auto simp: timer_expire_def timer_outstanding_def Let_def)
qed

lemma timer_step_outstanding:
  "mset (fst (timer_step e t)) + timer_outstanding (snd (timer_step e t))
     \<subseteq># timer_outstanding t + mset (sent_message e)"
  using timer_outstanding_expire
  by (cases e) (auto simp: timer_outstanding_def send_after_def timer_cancel_def timer_poll_def split: list.splits)

lemma timer_run_outstanding:
  "mset (fst (timer_run es t)) + timer_outstanding (snd (timer_run es t))
     \<subseteq># timer_outstanding t + mset (concat (map sent_message es))"
proof (induction es arbitrary: t)
  case Nil
  then show ?case by simp
next
  case (Cons e es)
  let ?t = "snd (timer_step e t)"
  have "mset (fst (timer_step e t)) + (mset (fst (timer_run es ?t)) + timer_outstanding (snd (timer_run es ?t)))
      \<subseteq># mset (fst (timer_step e t)) + (timer_outstanding ?t + mset (concat (map sent_message es)))"
    using Cons by (rule subset_mset.add_left_mono)
  also have "\<dots> \<subseteq># timer_outstanding t + mset (sent_message e) + mset (concat (map sent_message es))"
    using subset_mset.add_right_mono [OF timer_step_outstanding [of e t]] by (simp add: ac_simps)
  finally show ?case by (simp add: split_beta ac_simps)
qed


end
