(* ===== verification/Tunnel.thy ===== *)
theory Tunnel
  imports Prelude
begin

text \<open>
  The packets of the tunnel device, \<open>UtunPacket\<close> and \<open>VecUtunCodec\<close> of \<open>src/interface/mod.rs\<close>.
\<close>

datatype utun_packet = Inet4 bytes | Inet6 bytes

fun utun_payload :: "utun_packet \<Rightarrow> bytes" where
  "utun_payload (Inet4 payload) = payload"
| "utun_payload (Inet6 payload) = payload"

text \<open>\<open>raw_packet[0]\<close> panics on an empty packet.\<close>

definition utun_from :: "bytes \<Rightarrow> utun_packet result" where
  "utun_from raw_packet =
     (case raw_packet of
        [] \<Rightarrow> Inl (Panicked IndexOutOfBounds)
      | b # _ \<Rightarrow>
          if drop_bit 4 b = 4 then Inr (Inet4 raw_packet)
          else if drop_bit 4 b = 6 then Inr (Inet6 raw_packet)
          else Inl (Err ''unrecognized IP version''))"

text \<open>The device puts a four byte header before each packet; \<open>buf[4]\<close> panics on a shorter read.\<close>

definition utun_decode :: "bytes \<Rightarrow> utun_packet result" where
  "utun_decode buf =
     (if length buf \<le> 4 then Inl (Panicked IndexOutOfBounds)
      else if drop_bit 4 (buf ! 4) = 4 then Inr (Inet4 (drop 4 buf))
      else if drop_bit 4 (buf ! 4) = 6 then Inr (Inet6 (drop 4 buf))
      else Inl (Err ''invalid data''))"

definition utun_encode :: "bytes \<Rightarrow> bytes \<Rightarrow> bytes" where
  "utun_encode msg buf = buf @ msg"

lemma utun_decode_from:
  "length buf > 4 \<Longrightarrow> utun_decode buf = Inr p \<longleftrightarrow> utun_from (drop 4 buf) = Inr p"
  by (cases "drop 4 buf") (auto simp: utun_decode_def utun_from_def nth_via_drop)

end
