(* ===== verification/Peer.thy ===== *)
theory Peer
  imports AntiReplay Cookie Noise Router Text Timestamp Timer Tunnel
begin

text \<open>
  \<open>src/peer.rs\<close>: the sessions of a peer, its handshakes and its transport packets.

  The Noise library is the parameter \<open>N\<close>, the hashes and ciphers are \<open>C\<close>, the IP header parsers are
  \<open>P\<close>. A method with \<open>&mut self\<close> returns its result and the peer it leaves behind, on errors too.
  All readings of the monotonic clock in one call give the argument \<open>now\<close>.
\<close>

section \<open>Data\<close>

datatype session_type = Past | Current | Next

datatype session_transition = NoTransition | Transition "u32 option"

record timers =
  data_sent :: timestamp
  data_received :: timestamp
  authenticated_received :: timestamp
  authenticated_traversed :: timestamp
  egress_queued :: timestamp
  handshake_completed :: timestamp
  handshake_initialized :: timestamp
  persistent_timer :: "timer_handle option"
  handshake_attempts :: u64
  keepalive_sent :: bool

definition timers_default :: timers where
  "timers_default =
     \<lparr>data_sent = timestamp_default, data_received = timestamp_default,
      authenticated_received = timestamp_default, authenticated_traversed = timestamp_default,
      egress_queued = timestamp_default, handshake_completed = timestamp_default,
      handshake_initialized = timestamp_default, persistent_timer = None,
      handshake_attempts = 0, keepalive_sent = False\<rparr>"

record 'n session =
  s_noise :: 'n
  our_index :: u32
  their_index :: u32
  s_anti_replay :: anti_replay
  birthday :: timestamp

definition session_new :: "'n \<Rightarrow> u32 \<Rightarrow> 'n session" where
  "session_new noise index =
     \<lparr>s_noise = noise, our_index = index, their_index = 0, s_anti_replay = ar_new, birthday = timestamp_default\<rparr>"

definition session_with_their_index :: "'n \<Rightarrow> u32 \<Rightarrow> u32 \<Rightarrow> 'n session" where
  "session_with_their_index noise index their =
     \<lparr>s_noise = noise, our_index = index, their_index = their, s_anti_replay = ar_new, birthday = timestamp_default\<rparr>"

definition into_transport_mode :: "'n noise_ops \<Rightarrow> 'n session \<Rightarrow> 'n session result" where
  "into_transport_mode N s =
     (case n_into_transport_mode N (s_noise s) of
        Inl e \<Rightarrow> Inl e
      | Inr noise \<Rightarrow> Inr (s\<lparr>s_noise := noise\<rparr>))"

record 'n incomplete_incoming_handshake =
  ih_their_index :: u32
  ih_timestamp :: tai64n
  ih_noise :: 'n

definition their_pubkey :: "'n noise_ops \<Rightarrow> 'n incomplete_incoming_handshake \<Rightarrow> bytes result" where
  "their_pubkey N h =
     (case n_get_remote_static N (ih_noise h) of
        Some k \<Rightarrow> Inr k
      | None \<Rightarrow> Inl (Panicked UnwrapFailed))"

record 'n sessions =
  past :: "'n session option"
  current :: "'n session option"
  next_s :: "'n session option"

definition sessions_default :: "'n sessions" where
  "sessions_default = \<lparr>past = None, current = None, next_s = None\<rparr>"

definition index_of :: "'n session option \<Rightarrow> u32 list" where
  "index_of s = (case s of Some s \<Rightarrow> [our_index s] | None \<Rightarrow> [])"

definition wipe :: "'n sessions \<Rightarrow> u32 list \<times> 'n sessions" where
  "wipe ss = (index_of (past ss) @ index_of (current ss) @ index_of (next_s ss), sessions_default)"

record 'n peer =
  info :: peer_info
  sessions :: "'n sessions"
  timers :: timers
  tx_bytes :: u64
  rx_bytes :: u64
  last_handshake_tai64n :: "tai64n option"
  outgoing_queue :: "utun_packet list"
  p_cookie :: generator

text \<open>\<open>PartialEq for Peer\<close>\<close>

definition peer_eq :: "'n peer \<Rightarrow> 'n peer \<Rightarrow> bool" where
  "peer_eq p q \<longleftrightarrow> pub_key (info p) = pub_key (info q)"

definition peer_new :: "crypto \<Rightarrow> peer_info \<Rightarrow> 'n peer" where
  "peer_new C i =
     \<lparr>info = i, sessions = sessions_default, timers = timers_default, tx_bytes = 0, rx_bytes = 0,
      last_handshake_tai64n = None, outgoing_queue = [], p_cookie = generator_new C (pub_key i)\<rparr>"

section \<open>Sessions\<close>

definition has_index :: "u32 \<Rightarrow> 'n session option \<Rightarrow> bool" where
  "has_index i s = (case s of Some s \<Rightarrow> our_index s = i | None \<Rightarrow> False)"

definition find_session :: "u32 \<Rightarrow> 'n peer \<Rightarrow> ('n session \<times> session_type) option" where
  "find_session i p =
     (let ss = sessions p in
      if has_index i (next_s ss) then map_option (\<lambda>s. (s, Next)) (next_s ss)
      else if has_index i (current ss) then map_option (\<lambda>s. (s, Current)) (current ss)
      else if has_index i (past ss) then map_option (\<lambda>s. (s, Past)) (past ss)
      else None)"

text \<open>Writing through the \<open>&mut Session\<close> that \<open>find_session\<close> returned.\<close>

definition put_session :: "session_type \<Rightarrow> 'n session \<Rightarrow> 'n peer \<Rightarrow> 'n peer" where
  "put_session ty s p =
     (case ty of
        Next \<Rightarrow> p\<lparr>sessions := (sessions p)\<lparr>next_s := Some s\<rparr>\<rparr>
      | Current \<Rightarrow> p\<lparr>sessions := (sessions p)\<lparr>current := Some s\<rparr>\<rparr>
      | Past \<Rightarrow> p\<lparr>sessions := (sessions p)\<lparr>past := Some s\<rparr>\<rparr>)"

definition queue_egress :: "utun_packet \<Rightarrow> 'n peer \<Rightarrow> 'n peer" where
  "queue_egress packet p =
     (if length (outgoing_queue p) < MAX_QUEUED_PACKETS
      then p\<lparr>outgoing_queue := outgoing_queue p @ [packet], timers := (timers p)\<lparr>handshake_attempts := 0\<rparr>\<rparr>
      else p)"

text \<open>\<open>sending_nonce().unwrap()\<close> panics when the session is not in transport mode.\<close>

definition unwrapped_nonce :: "'n noise_ops \<Rightarrow> 'n session \<Rightarrow> u64 result" where
  "unwrapped_nonce N s =
     (case n_sending_nonce N (s_noise s) of Inr n \<Rightarrow> Inr n | Inl _ \<Rightarrow> Inl (Panicked UnwrapFailed))"

definition needs_new_handshake :: "'n noise_ops \<Rightarrow> bool \<Rightarrow> instant \<Rightarrow> 'n peer \<Rightarrow> bool result" where
  "needs_new_handshake N sending now p =
     (if next_s (sessions p) \<noteq> None then Inr (handshake_attempts (timers p) \<ge> MAX_HANDSHAKE_ATTEMPTS)
      else
        (case current (sessions p) of
          None \<Rightarrow> Inr True
        | Some session \<Rightarrow>
            if sending \<and> elapsed (handshake_completed (timers p)) now > REKEY_AFTER_TIME then Inr True
            else if \<not> sending \<and> elapsed (handshake_completed (timers p)) now > REKEY_AFTER_TIME_RECV then Inr True
            else map_sum id (\<lambda>nonce. nonce \<ge> REKEY_AFTER_MESSAGES) (unwrapped_nonce N session)))"

definition ready_for_transport :: "'n noise_ops \<Rightarrow> instant \<Rightarrow> 'n peer \<Rightarrow> bool result" where
  "ready_for_transport N now p =
     (case current (sessions p) of
        Some s \<Rightarrow>
          if elapsed (birthday s) now < REJECT_AFTER_TIME
          then map_sum id (\<lambda>nonce. nonce < REJECT_AFTER_MESSAGES) (unwrapped_nonce N s)
          else Inr False
      | None \<Rightarrow> Inr False)"

definition get_mapped_indices :: "'n peer \<Rightarrow> u32 list" where
  "get_mapped_indices p =
     index_of (past (sessions p)) @ index_of (current (sessions p)) @ index_of (next_s (sessions p))"

section \<open>Handshakes\<close>

text \<open>Storing a new \<open>next\<close> session: a \<open>next\<close> that was there becomes \<open>past\<close>, and the index of the
  \<open>past\<close> session it replaces is dead.\<close>

definition replace_next :: "'n session \<Rightarrow> 'n peer \<Rightarrow> u32 option \<times> 'n peer" where
  "replace_next session p =
     (let old_next = next_s (sessions p);
          p = p\<lparr>sessions := (sessions p)\<lparr>next_s := Some session\<rparr>\<rparr>
      in if old_next \<noteq> None
         then (map_option our_index (past (sessions p)), p\<lparr>sessions := (sessions p)\<lparr>past := old_next\<rparr>\<rparr>)
         else (None, p))"

definition put_macs :: "nat \<Rightarrow> bytes \<Rightarrow> bytes option \<Rightarrow> bytes \<Rightarrow> bytes" where
  "put_macs off mac1 mac2 packet =
     (let packet = put_slice off mac1 packet
      in (case mac2 of Some m \<Rightarrow> put_slice (off + 16) m packet | None \<Rightarrow> packet))"

definition initiate_new_session ::
  "'n noise_ops \<Rightarrow> crypto \<Rightarrow> bytes \<Rightarrow> u32 \<Rightarrow> nat \<Rightarrow> instant \<Rightarrow> duration \<Rightarrow> 'n peer \<Rightarrow>
     (endpoint \<times> bytes \<times> u32 option) result \<times> 'n peer" where
  "initiate_new_session N C private_key index entropy now wall p =
     (case build_initiator N entropy private_key (pub_key (info p)) (psk (info p)) of
        Inl e \<Rightarrow> (Inl e, p)
      | Inr noise \<Rightarrow>
          let session = session_new noise index in
          (case endpoint (info p) of
            None \<Rightarrow> (Inl (Err ''no known peer endpoint''), p)
          | Some ep \<Rightarrow>
              let packet = (replicate 148 0)[0 := 1];
                  packet = write_u32 4 (our_index session) packet
              in (case n_write_message N (s_noise session) (tai64n_deref (tai64n_now wall)) (length packet - 8) of
                   (Inl e, _) \<Rightarrow> (Inl e, p)
                 | (Inr msg, noise) \<Rightarrow>
                     let session = session\<lparr>s_noise := noise\<rparr>;
                         packet = put_slice 8 msg packet;
                         ((mac1, mac2), cookie) = build_macs C (p_cookie p) (take 116 packet) now;
                         p = p\<lparr>p_cookie := cookie\<rparr>;
                         packet = put_macs 116 mac1 mac2 packet;
                         (dead_index, p) = replace_next session p
                     in (Inr (ep, packet, dead_index), p))))"

definition process_incoming_handshake ::
  "'n noise_ops \<Rightarrow> bytes \<Rightarrow> nat \<Rightarrow> initiation \<Rightarrow> 'n incomplete_incoming_handshake result" where
  "process_incoming_handshake N private_key entropy packet =
     (case build_responder N entropy private_key of
        Inl e \<Rightarrow> Inl e
      | Inr noise \<Rightarrow>
          (case n_read_message N noise (initiation_noise_bytes packet) 12 of
            (Inl e, _) \<Rightarrow> Inl e
          | (Inr payload, noise) \<Rightarrow>
              if length payload \<noteq> 12 then Inl (Err ''incorrect handshake payload length'')
              else Inr \<lparr>ih_their_index = initiation_sender_index packet, ih_timestamp = tai64n_from payload,
                        ih_noise = noise\<rparr>))"

definition get_response_packet ::
  "'n noise_ops \<Rightarrow> crypto \<Rightarrow> instant \<Rightarrow> 'n session \<times> 'n peer \<Rightarrow> bytes result \<times> 'n session \<times> 'n peer" where
  "get_response_packet N C now = (\<lambda>(next_session, p).
     let packet = (replicate 92 0)[0 := 2];
         packet = write_u32 4 (our_index next_session) packet;
         packet = write_u32 8 (their_index next_session) packet
     in (case n_write_message N (s_noise next_session) [] (length packet - 12) of
          (Inl e, noise) \<Rightarrow> (Inl e, next_session\<lparr>s_noise := noise\<rparr>, p)
        | (Inr msg, noise) \<Rightarrow>
            let packet = put_slice 12 msg packet;
                ((mac1, mac2), cookie) = build_macs C (p_cookie p) (take 60 packet) now
            in (Inr (put_macs 60 mac1 mac2 packet), next_session\<lparr>s_noise := noise\<rparr>, p\<lparr>p_cookie := cookie\<rparr>)))"

definition complete_incoming_handshake ::
  "'n noise_ops \<Rightarrow> crypto \<Rightarrow> endpoint \<Rightarrow> u32 \<Rightarrow> 'n incomplete_incoming_handshake \<Rightarrow> instant \<Rightarrow> 'n peer \<Rightarrow>
     (bytes \<times> u32 option) result \<times> 'n peer" where
  "complete_incoming_handshake N C addr index incomplete now p =
     (if (case last_handshake_tai64n p of
            Some last_tai64n \<Rightarrow> \<not> tai64n_lt last_tai64n (ih_timestamp incomplete)
          | None \<Rightarrow> False)
      then (Inl (Err ''handshake timestamp earlier than last handshake's timestamp''), p)
      else
        (case n_set_psk N (ih_noise incomplete) 2 (case psk (info p) of Some k \<Rightarrow> k | None \<Rightarrow> replicate 32 0) of
          (Inl e, _) \<Rightarrow> (Inl e, p)
        | (Inr _, noise) \<Rightarrow>
            let next_session = session_with_their_index noise index (ih_their_index incomplete);
                next_session = next_session\<lparr>birthday := timestamp_now now\<rparr>
            in (case get_response_packet N C now (next_session, p) of
                 (Inl e, _, p) \<Rightarrow> (Inl e, p)
               | (Inr response_packet, next_session, p) \<Rightarrow>
                   (case into_transport_mode N next_session of
                     Inl e \<Rightarrow> (Inl e, p)
                   | Inr next_session \<Rightarrow>
                       let (dead_index, p) = replace_next next_session p
                       in (Inr (response_packet, dead_index),
                           p\<lparr>info := (info p)\<lparr>endpoint := Some addr\<rparr>,
                             last_handshake_tai64n := Some (ih_timestamp incomplete),
                             timers := (timers p)\<lparr>authenticated_received := timestamp_now now,
                                                 authenticated_traversed := timestamp_now now\<rparr>\<rparr>)))))"

definition consume_cookie_reply :: "crypto \<Rightarrow> cookie_reply \<Rightarrow> instant \<Rightarrow> 'n peer \<Rightarrow> unit result \<times> 'n peer" where
  "consume_cookie_reply C reply now p =
     (let (r, cookie) = consume_reply C (p_cookie p) reply now in (r, p\<lparr>p_cookie := cookie\<rparr>))"

text \<open>The \<open>next\<close> session is taken out of the peer first, and is dropped on every error.\<close>

definition process_incoming_handshake_response ::
  "'n noise_ops \<Rightarrow> endpoint \<Rightarrow> response \<Rightarrow> instant \<Rightarrow> 'n peer \<Rightarrow> u32 option result \<times> 'n peer" where
  "process_incoming_handshake_response N addr packet now p =
     (case next_s (sessions p) of
        None \<Rightarrow> (Inl (Err ''no next session''), p)
      | Some session \<Rightarrow>
          let p = p\<lparr>sessions := (sessions p)\<lparr>next_s := None\<rparr>\<rparr> in
          (case n_read_message N (s_noise session) (response_noise_bytes packet) 0 of
            (Inl e, _) \<Rightarrow> (Inl e, p)
          | (Inr _, noise) \<Rightarrow>
              (case into_transport_mode N (session\<lparr>s_noise := noise\<rparr>) of
                Inl e \<Rightarrow> (Inl e, p)
              | Inr session \<Rightarrow>
                  let session = session\<lparr>their_index := response_sender_index packet, birthday := timestamp_now now\<rparr>;
                      p = p\<lparr>info := (info p)\<lparr>endpoint := Some addr\<rparr>,
                            timers := (timers p)\<lparr>authenticated_received := timestamp_now now,
                                                authenticated_traversed := timestamp_now now,
                                                handshake_completed := timestamp_now now\<rparr>\<rparr>;
                      dead = past (sessions p)
                  in (Inr (map_option our_index dead),
                      p\<lparr>sessions := (sessions p)\<lparr>current := Some session, past := current (sessions p)\<rparr>\<rparr>))))"

section \<open>Transport packets\<close>

text \<open>The part of \<open>handle_incoming_transport\<close> that borrows the session. The plaintext is written to
  the front of a zeroed buffer as long as the packet, which is then cut to the length in the IP
  header; the cut never lengthens the buffer.\<close>

definition receive_in_session ::
  "'n noise_ops \<Rightarrow> ip_parsers \<Rightarrow> transport \<Rightarrow> instant \<Rightarrow> 'n session \<Rightarrow> bytes result \<times> 'n session" where
  "receive_in_session N P packet now session =
     (let nonce = transport_nonce packet in
      if \<not> n_is_handshake_finished N (s_noise session) then
        (Inl (Err ''session is not ready for transport packets''), session)
      else if \<not> nonce < REJECT_AFTER_MESSAGES then (Inl (Err ''exceeded REJECT-AFTER-MESSAGES''), session)
      else if \<not> elapsed (birthday session) now < REJECT_AFTER_TIME then
        (Inl (Err ''exceeded REJECT-AFTER-TIME''), session)
      else
        (case ar_update (s_anti_replay session) nonce of
          (Inl e, ar) \<Rightarrow> (Inl e, session\<lparr>s_anti_replay := ar\<rparr>)
        | (Inr _, ar) \<Rightarrow>
            let session = session\<lparr>s_anti_replay := ar\<rparr> in
            (case n_set_receiving_nonce N (s_noise session) nonce of
              (Inl e, noise) \<Rightarrow> (Inl e, session\<lparr>s_noise := noise\<rparr>)
            | (Inr _, noise) \<Rightarrow>
                (case n_read_message N noise (transport_payload packet) (length packet) of
                  (Inl e, noise) \<Rightarrow> (Inl e, session\<lparr>s_noise := noise\<rparr>)
                | (Inr plain, noise) \<Rightarrow>
                    let session = session\<lparr>s_noise := noise\<rparr>;
                        raw_packet = put_slice 0 plain (replicate (length packet) 0);
                        len = length plain
                    in if len > 0 then
                         (case ip_packet_new P (take len raw_packet) of
                           None \<Rightarrow> (Inl (Err (''invalid IP packet (len '' @ dec len @ '')'')), session)
                         | Some ip \<Rightarrow> (Inr (take (unat (ip_length ip)) raw_packet), session))
                       else (Inr [], session)))))"

definition handle_incoming_transport ::
  "'n noise_ops \<Rightarrow> ip_parsers \<Rightarrow> endpoint \<Rightarrow> transport \<Rightarrow> instant \<Rightarrow> 'n peer \<Rightarrow>
     (bytes \<times> session_transition) result \<times> 'n peer" where
  "handle_incoming_transport N P addr packet now p =
     (case find_session (transport_our_index packet) p of
        None \<Rightarrow> (Inl (Err ''no session with index''), p)
      | Some (session, session_type) \<Rightarrow>
          (case receive_in_session N P packet now session of
            (Inl e, session) \<Rightarrow> (Inl e, put_session session_type session p)
          | (Inr raw_packet, session) \<Rightarrow>
              let p = put_session session_type session p;
                  p = (if raw_packet \<noteq> [] then p\<lparr>timers := (timers p)\<lparr>data_received := timestamp_now now\<rparr>\<rparr> else p);
                  p = p\<lparr>timers := (timers p)\<lparr>authenticated_received := timestamp_now now,
                                            authenticated_traversed := timestamp_now now,
                                            keepalive_sent := False\<rparr>\<rparr>;
                  (transition, p) =
                    (if session_type = Next then
                       let dead = past (sessions p);
                           p = p\<lparr>sessions := \<lparr>past = current (sessions p), current = next_s (sessions p), next_s = None\<rparr>\<rparr>;
                           p = p\<lparr>timers := (timers p)\<lparr>handshake_completed := timestamp_now now\<rparr>\<rparr>
                       in (Transition (map_option our_index dead), p)
                     else (NoTransition, p));
                  p = p\<lparr>rx_bytes := rx_bytes p + of_nat (length packet), info := (info p)\<lparr>endpoint := Some addr\<rparr>\<rparr>
              in (Inr (raw_packet, transition), p)))"

definition padding_of :: "bytes \<Rightarrow> nat" where
  "padding_of packet =
     (if length packet mod PADDING_MULTIPLE \<noteq> 0 then PADDING_MULTIPLE - length packet mod PADDING_MULTIPLE else 0)"

definition handle_outgoing_transport ::
  "'n noise_ops \<Rightarrow> bytes \<Rightarrow> instant \<Rightarrow> 'n peer \<Rightarrow> (endpoint \<times> bytes) result \<times> 'n peer" where
  "handle_outgoing_transport N packet now p =
     (case current (sessions p) of
        None \<Rightarrow> (Inl (Err ''no current noise session''), p)
      | Some session \<Rightarrow>
          (case endpoint (info p) of
            None \<Rightarrow> (Inl (Err ''no known peer endpoint''), p)
          | Some ep \<Rightarrow>
              let padding = padding_of packet;
                  padded_len = length packet + padding;
                  out_packet = replicate (padded_len + TRANSPORT_OVERHEAD) 0
              in (case n_sending_nonce N (s_noise session) of
                   Inl e \<Rightarrow> (Inl e, p)
                 | Inr nonce \<Rightarrow>
                     if \<not> nonce < REJECT_AFTER_MESSAGES then (Inl (Err ''exceeded REJECT-AFTER-MESSAGES''), p)
                     else if \<not> elapsed (birthday session) now < REJECT_AFTER_TIME then
                       (Inl (Err ''exceeded REJECT-AFTER-TIME''), p)
                     else
                       let out_packet = out_packet[0 := 4];
                           out_packet = write_u32 4 (their_index session) out_packet;
                           out_packet = write_u64 8 nonce out_packet;
                           padded_packet = packet @ replicate padding 0
                       in (case n_write_message N (s_noise session) padded_packet (length out_packet - 16) of
                            (Inl e, noise) \<Rightarrow> (Inl e, put_session Current (session\<lparr>s_noise := noise\<rparr>) p)
                          | (Inr msg, noise) \<Rightarrow>
                              let p = put_session Current (session\<lparr>s_noise := noise\<rparr>) p;
                                  len = length msg;
                                  out_packet = put_slice 16 msg out_packet;
                                  p = p\<lparr>tx_bytes := tx_bytes p + of_nat len\<rparr>;
                                  p = (if packet \<noteq> [] then p\<lparr>timers := (timers p)\<lparr>data_sent := timestamp_now now\<rparr>\<rparr> else p);
                                  p = p\<lparr>timers := (timers p)\<lparr>authenticated_traversed := timestamp_now now\<rparr>\<rparr>
                              in (Inr (ep, take (TRANSPORT_HEADER_SIZE + len) out_packet), p)))))"

end
