(* ===== verification/PeerSessions.thy ===== *)
theory PeerSessions
  imports Peer "HOL-Library.Multiset"
begin

text \<open>
  What the operations of a peer do to its sessions: which receiver indices they add and retire
  (\<open>session_op\<close>), what they keep of the replay windows (\<open>fresh_session_op\<close>), and from these that no
  transport packet is accepted twice in the life of a peer and no handshake initiation either.
\<close>

lemma distinct_mset_subset:
  assumes "mset xs \<subseteq># mset ys" and "distinct ys"
  shows "distinct xs"
proof -
  obtain zs where "mset ys = mset (xs @ zs)"
    using assms(1) by (metis ex_mset mset_append mset_subset_eq_exists_conv)
  then show ?thesis using assms(2) mset_eq_imp_distinct_iff distinct_append by blast
qed

section \<open>Indices and replay windows of the stored sessions\<close>

definition opt_list :: "'a option \<Rightarrow> 'a list" where
  "opt_list x = (case x of Some a \<Rightarrow> [a] | None \<Rightarrow> [])"

lemma opt_list_simps [simp]: "opt_list None = []" "opt_list (Some a) = [a]"
  by (simp_all add: opt_list_def)

lemma set_opt_list [simp]: "set (opt_list x) = set_option x"
  by (cases x) simp_all

definition stored :: "'n peer \<Rightarrow> 'n session list" where
  "stored p = opt_list (past (sessions p)) @ opt_list (current (sessions p)) @ opt_list (next_s (sessions p))"

definition core :: "'n session \<Rightarrow> u32 \<times> anti_replay" where
  "core s = (our_index s, s_anti_replay s)"

definition cores :: "'n peer \<Rightarrow> (u32 \<times> anti_replay) list" where
  "cores p = map core (stored p)"

lemma index_of_opt_list: "index_of s = map our_index (opt_list s)"
  by (cases s) (simp_all add: index_of_def)

lemma get_mapped_indices_stored: "get_mapped_indices p = map our_index (stored p)"
  by (simp add: get_mapped_indices_def stored_def index_of_opt_list)

lemma get_mapped_indices_cores: "get_mapped_indices p = map fst (cores p)"
  by (simp add: get_mapped_indices_stored cores_def core_def comp_def)

lemma core_simps [simp]:
  "core (s\<lparr>s_noise := n\<rparr>) = core s"
  "core (s\<lparr>birthday := t\<rparr>) = core s"
  "core (s\<lparr>their_index := i\<rparr>) = core s"
  "core (session_new n i) = (i, ar_new)"
  "core (session_with_their_index n i j) = (i, ar_new)"
  by (simp_all add: core_def session_new_def session_with_their_index_def)

lemma our_index_core: "our_index s = fst (core s)"
  by (simp add: core_def)

definition core_of :: "'n session option \<Rightarrow> (u32 \<times> anti_replay) multiset" where
  "core_of s = mset (map core (opt_list s))"

lemma core_of_simps [simp]: "core_of None = {#}" "core_of (Some s) = {#core s#}"
  by (simp_all add: core_of_def)

lemma mset_cores:
  "mset (cores p) = core_of (past (sessions p)) + core_of (current (sessions p)) + core_of (next_s (sessions p))"
  by (simp add: cores_def stored_def core_of_def)

lemma cores_cong: "sessions p = sessions q \<Longrightarrow> cores p = cores q"
  by (simp add: cores_def stored_def)

lemma mset_indices: "mset (get_mapped_indices p) = image_mset fst (mset (cores p))"
  by (simp add: get_mapped_indices_cores)

text \<open>What identifies a peer in the configuration: no operation of the peer itself changes it.\<close>

definition config_of :: "'n peer \<Rightarrow> bytes \<times> bytes option \<times> (ip_addr \<times> u32) list \<times> u16 option" where
  "config_of p = (pub_key (info p), psk (info p), allowed_ips (info p), keepalive (info p))"

section \<open>The contract of the operations on sessions\<close>

locale session_op =
  fixes op :: "'n peer \<Rightarrow> 'a result \<times> 'n peer"
    and dead :: "'a \<Rightarrow> u32 list"
    and fresh :: "u32 list"
  assumes ok_ledger: "op p = (Inr x, p') \<Longrightarrow>
      mset (get_mapped_indices p') + mset (dead x) = mset (get_mapped_indices p) + mset fresh"
    and err_ledger: "op p = (Inl e, p') \<Longrightarrow> mset (get_mapped_indices p') \<subseteq># mset (get_mapped_indices p)"
    and config_kept: "op p = (r, p') \<Longrightarrow> config_of p' = config_of p"
begin

lemma ok_set:
  assumes "op p = (Inr x, p')" and "distinct (get_mapped_indices p)" and "set fresh \<inter> set (get_mapped_indices p) = {}"
    and "distinct fresh"
  shows "distinct (get_mapped_indices p')"
    and "set (get_mapped_indices p') = (set (get_mapped_indices p) \<union> set fresh) - set (dead x)"
    and "set (dead x) \<subseteq> set (get_mapped_indices p) \<union> set fresh"
proof -
  have all: "distinct (get_mapped_indices p @ fresh)" using assms by auto
  have eq: "mset (get_mapped_indices p' @ dead x) = mset (get_mapped_indices p @ fresh)"
    using ok_ledger [OF assms(1)] by simp
  then have d: "distinct (get_mapped_indices p' @ dead x)" using all mset_eq_imp_distinct_iff by blast
  then show "distinct (get_mapped_indices p')" by simp
  have "set (get_mapped_indices p' @ dead x) = set (get_mapped_indices p @ fresh)" using eq mset_eq_setD by blast
  then show "set (get_mapped_indices p') = (set (get_mapped_indices p) \<union> set fresh) - set (dead x)"
    and "set (dead x) \<subseteq> set (get_mapped_indices p) \<union> set fresh"
    using d by auto
qed

lemma err_set:
  assumes "op p = (Inl e, p')" and "distinct (get_mapped_indices p)"
  shows "distinct (get_mapped_indices p')" and "set (get_mapped_indices p') \<subseteq> set (get_mapped_indices p)"
proof -
  show "set (get_mapped_indices p') \<subseteq> set (get_mapped_indices p)"
    using set_mset_mono [OF err_ledger [OF assms(1)]] by simp
  show "distinct (get_mapped_indices p')"
    by (rule distinct_mset_subset [OF err_ledger [OF assms(1)] assms(2)])
qed

end

text \<open>Operations that leave the replay windows alone: the sessions they keep have the window they had,
  and a session they add starts with an empty one.\<close>

locale fresh_session_op = session_op +
  assumes cores_kept: "op p = (r, p') \<Longrightarrow> mset (cores p') \<subseteq># mset (cores p) + mset (map (\<lambda>i. (i, ar_new)) fresh)"

section \<open>The operations satisfy it\<close>

lemma put_macs_length [simp]:
  "off + 32 \<le> length packet \<Longrightarrow> length mac1 = 16 \<Longrightarrow> (\<And>m. mac2 = Some m \<Longrightarrow> length m = 16) \<Longrightarrow>
     length (put_macs off mac1 mac2 packet) = length packet"
  by (auto simp: put_macs_def Let_def split: option.splits)

lemma replace_next_ledger:
  assumes "replace_next s p = (d, p')"
  shows "mset (get_mapped_indices p') + mset (opt_list d) = add_mset (our_index s) (mset (get_mapped_indices p))"
    and "mset (cores p') \<subseteq># add_mset (core s) (mset (cores p))"
    and "config_of p' = config_of p"
  using assms
  by (cases "next_s (sessions p)"; cases "past (sessions p)";
      auto simp: replace_next_def mset_indices mset_cores our_index_core config_of_def)+

lemma session_noise_simps [simp]:
  "session_new n i\<lparr>s_noise := m\<rparr> = session_new m i"
  "s_noise (session_new n i) = n" "our_index (session_new n i) = i"
  "session_with_their_index n i j\<lparr>s_noise := m\<rparr> = session_with_their_index m i j"
  "s_noise (session_with_their_index n i j) = n" "our_index (session_with_their_index n i j) = i"
  "their_index (session_with_their_index n i j) = j"
  "session_with_their_index n i j\<lparr>birthday := t, s_noise := m\<rparr> = session_with_their_index m i j\<lparr>birthday := t\<rparr>"
  by (simp_all add: session_new_def session_with_their_index_def)

text \<open>The frames of the two handshake messages before their MACs are filled in.\<close>

definition initiation_frame :: "u32 \<Rightarrow> bytes \<Rightarrow> bytes" where
  "initiation_frame i msg = put_slice 8 msg (write_u32 4 i ((replicate 148 0)[0 := 1]))"

definition response_frame :: "u32 \<Rightarrow> u32 \<Rightarrow> bytes \<Rightarrow> bytes" where
  "response_frame i j msg = put_slice 12 msg (write_u32 8 j (write_u32 4 i ((replicate 92 0)[0 := 2])))"

lemma initiate_cases:
  assumes "initiate_new_session N C k i ent now wall p = (r, p')"
  obtains (err) e where "r = Inl e" "p' = p"
  | (ok) noise0 ep msg noise mac1 mac2 cookie d where
      "build_initiator N ent k (pub_key (info p)) (psk (info p)) = Inr noise0"
      "endpoint (info p) = Some ep"
      "n_write_message N noise0 (tai64n_deref (tai64n_now wall)) 140 = (Inr msg, noise)"
      "build_macs C (p_cookie p) (take 116 (initiation_frame i msg)) now = ((mac1, mac2), cookie)"
      "replace_next (session_new noise i) (p\<lparr>p_cookie := cookie\<rparr>) = (d, p')"
      "r = Inr (ep, put_macs 116 mac1 mac2 (initiation_frame i msg), d)"
  using assms
  by (auto simp: initiate_new_session_def Let_def initiation_frame_def
      split: sum.splits option.splits prod.splits)

lemma response_packet_cases:
  assumes "get_response_packet N C now (s, p) = (r, s', p')"
  obtains (err) e noise where "r = Inl e" "s' = s\<lparr>s_noise := noise\<rparr>" "p' = p"
  | (ok) msg noise mac1 mac2 cookie where
      "n_write_message N (s_noise s) [] 80 = (Inr msg, noise)"
      "build_macs C (p_cookie p) (take 60 (response_frame (our_index s) (their_index s) msg)) now = ((mac1, mac2), cookie)"
      "r = Inr (put_macs 60 mac1 mac2 (response_frame (our_index s) (their_index s) msg))"
      "s' = s\<lparr>s_noise := noise\<rparr>" "p' = p\<lparr>p_cookie := cookie\<rparr>"
  using assms
  by (auto simp: get_response_packet_def Let_def response_frame_def
      split: sum.splits option.splits prod.splits)

lemma into_transport_mode_Inr:
  "into_transport_mode N s = Inr s' \<longleftrightarrow> (\<exists>noise. n_into_transport_mode N (s_noise s) = Inr noise \<and> s' = s\<lparr>s_noise := noise\<rparr>)"
  by (auto simp: into_transport_mode_def split: sum.splits)

lemma complete_cases:
  assumes "complete_incoming_handshake N C addr i h now p = (r, p')"
  obtains (err) e where "r = Inl e" "sessions p' = sessions p" "info p' = info p" "outgoing_queue p' = outgoing_queue p"
      "last_handshake_tai64n p' = last_handshake_tai64n p"
  | (ok) noise1 msg noise2 mac1 mac2 cookie noise3 d q where
      "\<And>l. last_handshake_tai64n p = Some l \<Longrightarrow> tai64n_lt l (ih_timestamp h)"
      "n_set_psk N (ih_noise h) 2 (case psk (info p) of Some k \<Rightarrow> k | None \<Rightarrow> replicate 32 0) = (Inr (), noise1)"
      "n_write_message N noise1 [] 80 = (Inr msg, noise2)"
      "build_macs C (p_cookie p) (take 60 (response_frame i (ih_their_index h) msg)) now = ((mac1, mac2), cookie)"
      "n_into_transport_mode N noise2 = Inr noise3"
      "replace_next ((session_with_their_index noise3 i (ih_their_index h))\<lparr>birthday := Some now\<rparr>) (p\<lparr>p_cookie := cookie\<rparr>) = (d, q)"
      "p' = q\<lparr>info := (info q)\<lparr>endpoint := Some addr\<rparr>, last_handshake_tai64n := Some (ih_timestamp h),
              timers := (timers q)\<lparr>authenticated_received := Some now, authenticated_traversed := Some now\<rparr>\<rparr>"
      "r = Inr (put_macs 60 mac1 mac2 (response_frame i (ih_their_index h) msg), d)"
proof (cases "\<exists>l. last_handshake_tai64n p = Some l \<and> \<not> tai64n_lt l (ih_timestamp h)")
  case True
  then have "p' = p" "\<exists>e. r = Inl e"
    using assms by (auto simp: complete_incoming_handshake_def)
  then show thesis using err by auto
next
  case False
  then have fresh: "\<And>l. last_handshake_tai64n p = Some l \<Longrightarrow> tai64n_lt l (ih_timestamp h)" by auto
  obtain rp noise1 where psk: "n_set_psk N (ih_noise h) 2 (case psk (info p) of Some k \<Rightarrow> k | None \<Rightarrow> replicate 32 0) = (rp, noise1)"
    by fastforce
  let ?s = "session_with_their_index noise1 i (ih_their_index h)\<lparr>birthday := Some now\<rparr>"
  obtain r1 s1 p1 where resp: "get_response_packet N C now (?s, p) = (r1, s1, p1)" by (cases "get_response_packet N C now (?s, p)") auto
  have step: "(r, p') = (case rp of Inl e \<Rightarrow> (Inl e, p) | Inr _ \<Rightarrow> (case r1 of Inl e \<Rightarrow> (Inl e, p1) | Inr pk \<Rightarrow>
      (case into_transport_mode N s1 of Inl e \<Rightarrow> (Inl e, p1) | Inr s2 \<Rightarrow>
        let (d, q) = replace_next s2 p1 in
        (Inr (pk, d), q\<lparr>info := (info q)\<lparr>endpoint := Some addr\<rparr>, last_handshake_tai64n := Some (ih_timestamp h),
           timers := (timers q)\<lparr>authenticated_received := Some now, authenticated_traversed := Some now\<rparr>\<rparr>))))"
    using assms False psk resp
    by (cases "last_handshake_tai64n p"; cases rp; cases r1; cases "into_transport_mode N s1")
      (simp_all add: complete_incoming_handshake_def timestamp_now_def Let_def)
  show thesis
  proof (cases rp)
    case (Inl e)
    then show thesis using step err by simp
  next
    case (Inr u)
    from resp show thesis
    proof (cases rule: response_packet_cases)
      case (err e noise)
      then show thesis using step Inr that(1) by simp
    next
      case (ok msg noise2 mac1 mac2 cookie)
      show thesis
        using step Inr ok that(1) that(2) [OF fresh, of noise1 msg noise2 mac1 mac2 cookie] psk
        by (auto simp: into_transport_mode_def split: sum.splits prod.splits)
    qed
  qed
qed

lemma handshake_response_cases:
  assumes "process_incoming_handshake_response N addr packet now p = (r, p')"
  obtains (none) "next_s (sessions p) = None" "r = Inl (Err ''no next session'')" "p' = p"
  | (err) e s where "next_s (sessions p) = Some s" "r = Inl e" "p' = p\<lparr>sessions := (sessions p)\<lparr>next_s := None\<rparr>\<rparr>"
  | (ok) s payload noise1 noise2 where
      "next_s (sessions p) = Some s"
      "n_read_message N (s_noise s) (response_noise_bytes packet) 0 = (Inr payload, noise1)"
      "n_into_transport_mode N noise1 = Inr noise2"
      "r = Inr (map_option our_index (past (sessions p)))"
      "p' = p\<lparr>info := (info p)\<lparr>endpoint := Some addr\<rparr>,
             timers := (timers p)\<lparr>authenticated_received := Some now, authenticated_traversed := Some now,
                                 handshake_completed := Some now\<rparr>,
             sessions := \<lparr>past = current (sessions p),
                          current = Some (s\<lparr>s_noise := noise2, their_index := response_sender_index packet, birthday := Some now\<rparr>),
                          next_s = None\<rparr>\<rparr>"
  using assms
  by (auto simp: process_incoming_handshake_response_def into_transport_mode_def timestamp_now_def Let_def
      split: option.splits sum.splits prod.splits)

lemma receive_cases:
  assumes "receive_in_session N P packet now s = (r, s')"
  obtains (early) e where "r = Inl e" "s' = s"
  | (late) e ar noise where "ar_update (s_anti_replay s) (transport_nonce packet) = (Inr (), ar)"
      "r = Inl e" "s' = s\<lparr>s_anti_replay := ar, s_noise := noise\<rparr>"
  | (ok) ar noise1 plain noise2 where
      "n_is_handshake_finished N (s_noise s)"
      "transport_nonce packet < REJECT_AFTER_MESSAGES"
      "elapsed (birthday s) now < REJECT_AFTER_TIME"
      "ar_update (s_anti_replay s) (transport_nonce packet) = (Inr (), ar)"
      "n_set_receiving_nonce N (s_noise s) (transport_nonce packet) = (Inr (), noise1)"
      "n_read_message N noise1 (transport_payload packet) (length packet) = (Inr plain, noise2)"
      "s' = s\<lparr>s_anti_replay := ar, s_noise := noise2\<rparr>"
      "if plain = [] then r = Inr []
       else (\<exists>ip. ip_packet_new P (take (length plain) (put_slice 0 plain (replicate (length packet) 0))) = Some ip \<and>
              r = Inr (take (unat (ip_length ip)) (put_slice 0 plain (replicate (length packet) 0))))"
proof -
  have "\<exists>e. r = Inl e \<and> s' = s"
    if "\<not> (n_is_handshake_finished N (s_noise s) \<and> transport_nonce packet < REJECT_AFTER_MESSAGES \<and>
        elapsed (birthday s) now < REJECT_AFTER_TIME \<and> ar_check (s_anti_replay s) (transport_nonce packet))"
    using assms that by (auto simp: receive_in_session_def ar_update_def Let_def split: if_splits)
  then show thesis
    using assms that
    by (fastforce simp: receive_in_session_def ar_update_def Let_def
        split: if_splits option.splits sum.splits prod.splits)
qed

text \<open>What a successful transport packet does besides updating the session it was for.\<close>

definition rotate_sessions :: "instant \<Rightarrow> 'n peer \<Rightarrow> 'n peer" where
  "rotate_sessions now p =
     p\<lparr>sessions := \<lparr>past = current (sessions p), current = next_s (sessions p), next_s = None\<rparr>,
       timers := (timers p)\<lparr>handshake_completed := Some now\<rparr>\<rparr>"

definition note_received :: "endpoint \<Rightarrow> transport \<Rightarrow> bytes \<Rightarrow> instant \<Rightarrow> 'n peer \<Rightarrow> 'n peer" where
  "note_received addr packet raw now p =
     p\<lparr>info := (info p)\<lparr>endpoint := Some addr\<rparr>,
       timers := (timers p)\<lparr>data_received := (if raw \<noteq> [] then Some now else data_received (timers p)),
                           authenticated_received := Some now, authenticated_traversed := Some now,
                           keepalive_sent := False\<rparr>,
       rx_bytes := rx_bytes p + of_nat (length packet)\<rparr>"

lemma incoming_cases:
  assumes "handle_incoming_transport N P addr packet now p = (r, p')"
  obtains (none) "find_session (transport_our_index packet) p = None" "r = Inl (Err ''no session with index'')" "p' = p"
  | (err) s ty e s' where "find_session (transport_our_index packet) p = Some (s, ty)"
      "receive_in_session N P packet now s = (Inl e, s')" "r = Inl e" "p' = put_session ty s' p"
  | (ok) s ty raw s' where "find_session (transport_our_index packet) p = Some (s, ty)" "ty \<noteq> Next"
      "receive_in_session N P packet now s = (Inr raw, s')" "r = Inr (raw, NoTransition)"
      "p' = note_received addr packet raw now (put_session ty s' p)"
  | (rotate) s raw s' where "find_session (transport_our_index packet) p = Some (s, Next)"
      "receive_in_session N P packet now s = (Inr raw, s')"
      "r = Inr (raw, Transition (map_option our_index (past (sessions p))))"
      "p' = note_received addr packet raw now (rotate_sessions now (put_session Next s' p))"
proof (cases "find_session (transport_our_index packet) p")
  case None
  then show thesis using assms by (intro none) (auto simp: handle_incoming_transport_def)
next
  case (Some x)
  obtain s ty where x: "x = (s, ty)" by force
  obtain rr s' where rcv: "receive_in_session N P packet now s = (rr, s')" by force
  show thesis
  proof (cases rr)
    case (Inl e)
    then show thesis using assms Some x rcv by (intro err) (auto simp: handle_incoming_transport_def)
  next
    case (Inr raw)
    show thesis
    proof (cases "ty = Next")
      case True
      have "r = Inr (raw, Transition (map_option our_index (past (sessions p))))"
        and "p' = note_received addr packet raw now (rotate_sessions now (put_session Next s' p))"
        using assms Some x rcv Inr True
        by (auto simp: handle_incoming_transport_def note_received_def rotate_sessions_def put_session_def
            timestamp_now_def Let_def)
      then show thesis using Some x rcv Inr True by (intro rotate) simp_all
    next
      case False
      have "r = Inr (raw, NoTransition)" and "p' = note_received addr packet raw now (put_session ty s' p)"
        using assms Some x rcv Inr False
        by (auto simp: handle_incoming_transport_def note_received_def timestamp_now_def Let_def)
      then show thesis using Some x rcv Inr False by (intro ok) simp_all
    qed
  qed
qed

definition transport_frame :: "u32 \<Rightarrow> u64 \<Rightarrow> bytes \<Rightarrow> bytes \<Rightarrow> bytes" where
  "transport_frame their nonce packet msg =
     take (TRANSPORT_HEADER_SIZE + length msg)
       (put_slice 16 msg (write_u64 8 nonce (write_u32 4 their
          ((replicate (length packet + padding_of packet + TRANSPORT_OVERHEAD) 0)[0 := 4]))))"

definition note_sent :: "bytes \<Rightarrow> bytes \<Rightarrow> instant \<Rightarrow> 'n peer \<Rightarrow> 'n peer" where
  "note_sent packet msg now p =
     p\<lparr>tx_bytes := tx_bytes p + of_nat (length msg),
       timers := (timers p)\<lparr>data_sent := (if packet \<noteq> [] then Some now else data_sent (timers p)),
                           authenticated_traversed := Some now\<rparr>\<rparr>"

lemma outgoing_cases:
  assumes "handle_outgoing_transport N packet now p = (r, p')"
  obtains (early) e where "r = Inl e" "p' = p"
  | (late) e s noise where "current (sessions p) = Some s" "r = Inl e" "p' = put_session Current (s\<lparr>s_noise := noise\<rparr>) p"
      "n_write_message N (s_noise s) (packet @ replicate (padding_of packet) 0)
         (length packet + padding_of packet + TRANSPORT_OVERHEAD - 16) = (Inl e, noise)"
  | (ok) s ep nonce msg noise where
      "current (sessions p) = Some s" "endpoint (info p) = Some ep" "n_sending_nonce N (s_noise s) = Inr nonce"
      "nonce < REJECT_AFTER_MESSAGES" "elapsed (birthday s) now < REJECT_AFTER_TIME"
      "n_write_message N (s_noise s) (packet @ replicate (padding_of packet) 0)
         (length packet + padding_of packet + TRANSPORT_OVERHEAD - 16) = (Inr msg, noise)"
      "r = Inr (ep, transport_frame (their_index s) nonce packet msg)"
      "p' = note_sent packet msg now (put_session Current (s\<lparr>s_noise := noise\<rparr>) p)"
  using assms
  by (auto simp: handle_outgoing_transport_def transport_frame_def note_sent_def timestamp_now_def Let_def size_defs
      split: option.splits sum.splits prod.splits if_splits)

definition session_at :: "session_type \<Rightarrow> 'n peer \<Rightarrow> 'n session option" where
  "session_at ty p = (case ty of Past \<Rightarrow> past (sessions p) | Current \<Rightarrow> current (sessions p) | Next \<Rightarrow> next_s (sessions p))"

lemma find_sessionD:
  assumes "find_session i p = Some (s, ty)"
  shows "session_at ty p = Some s" and "our_index s = i"
  using assms by (auto simp: find_session_def session_at_def has_index_def Let_def split: if_splits option.splits)

lemma session_at_stored: "session_at ty p = Some s \<Longrightarrow> s \<in> set (stored p)"
  by (cases ty) (auto simp: session_at_def stored_def)

lemma find_session_stored: "i \<in> set (get_mapped_indices p) \<longleftrightarrow> find_session i p \<noteq> None"
  by (auto simp: find_session_def get_mapped_indices_def index_of_def has_index_def Let_def split: option.splits)

text \<open>Writing a session back where it came from replaces its core.\<close>

lemma put_session_cores:
  assumes "session_at ty p = Some s"
  shows "add_mset (core s) (mset (cores (put_session ty s' p))) = add_mset (core s') (mset (cores p))"
  using assms by (cases ty) (auto simp: session_at_def mset_cores put_session_def)

lemma put_session_indices:
  assumes "session_at ty p = Some s" and "our_index s' = our_index s"
  shows "get_mapped_indices (put_session ty s' p) = get_mapped_indices p"
  using assms by (cases ty) (auto simp: session_at_def get_mapped_indices_def put_session_def index_of_def)

lemma receive_index: "receive_in_session N P packet now s = (r, s') \<Longrightarrow> our_index s' = our_index s"
  by (erule receive_cases) simp_all

lemma put_session_simps [simp]:
  "config_of (put_session ty s p) = config_of p"
  "info (put_session ty s p) = info p"
  "outgoing_queue (put_session ty s p) = outgoing_queue p"
  "timers (put_session ty s p) = timers p"
  "p_cookie (put_session ty s p) = p_cookie p"
  "last_handshake_tai64n (put_session ty s p) = last_handshake_tai64n p"
  by (cases ty; simp add: put_session_def config_of_def)+

lemma note_simps [simp]:
  "config_of (note_received addr packet raw now p) = config_of p"
  "sessions (note_received addr packet raw now p) = sessions p"
  "outgoing_queue (note_received addr packet raw now p) = outgoing_queue p"
  "last_handshake_tai64n (note_received addr packet raw now p) = last_handshake_tai64n p"
  "config_of (note_sent pk msg now p) = config_of p"
  "sessions (note_sent pk msg now p) = sessions p"
  "info (note_sent pk msg now p) = info p"
  "outgoing_queue (note_sent pk msg now p) = outgoing_queue p"
  "last_handshake_tai64n (note_sent pk msg now p) = last_handshake_tai64n p"
  "config_of (rotate_sessions now p) = config_of p"
  "info (rotate_sessions now p) = info p"
  "outgoing_queue (rotate_sessions now p) = outgoing_queue p"
  "last_handshake_tai64n (rotate_sessions now p) = last_handshake_tai64n p"
  by (simp_all add: note_received_def note_sent_def rotate_sessions_def config_of_def)

lemma get_mapped_indices_cong: "sessions p = sessions q \<Longrightarrow> get_mapped_indices p = get_mapped_indices q"
  by (simp add: get_mapped_indices_def)

lemma update_indices [simp]:
  "get_mapped_indices (p\<lparr>p_cookie := x0\<rparr>) = get_mapped_indices p" "cores (p\<lparr>p_cookie := x0\<rparr>) = cores p"
  "get_mapped_indices (p\<lparr>info := x1\<rparr>) = get_mapped_indices p" "cores (p\<lparr>info := x1\<rparr>) = cores p"
  "get_mapped_indices (p\<lparr>timers := x2\<rparr>) = get_mapped_indices p" "cores (p\<lparr>timers := x2\<rparr>) = cores p"
  "get_mapped_indices (p\<lparr>last_handshake_tai64n := x3\<rparr>) = get_mapped_indices p" "cores (p\<lparr>last_handshake_tai64n := x3\<rparr>) = cores p"
  "get_mapped_indices (p\<lparr>outgoing_queue := x4\<rparr>) = get_mapped_indices p" "cores (p\<lparr>outgoing_queue := x4\<rparr>) = cores p"
  "get_mapped_indices (p\<lparr>tx_bytes := x5\<rparr>) = get_mapped_indices p" "cores (p\<lparr>tx_bytes := x5\<rparr>) = cores p"
  "get_mapped_indices (p\<lparr>rx_bytes := x6\<rparr>) = get_mapped_indices p" "cores (p\<lparr>rx_bytes := x6\<rparr>) = cores p"
  by (rule get_mapped_indices_cong cores_cong, simp)+

lemma note_indices [simp]:
  "get_mapped_indices (note_received addr packet raw now p) = get_mapped_indices p"
  "get_mapped_indices (note_sent pk msg now p) = get_mapped_indices p"
  "cores (note_received addr packet raw now p) = cores p"
  "cores (note_sent pk msg now p) = cores p"
  by (rule get_mapped_indices_cong cores_cong, simp)+

lemma rotate_cores:
  "next_s (sessions p) \<noteq> None \<Longrightarrow>
     mset (cores (rotate_sessions now p)) + core_of (past (sessions p)) = mset (cores p)"
  by (simp add: mset_cores rotate_sessions_def)

lemma mset_opt_index: "mset (opt_list (map_option our_index s)) = image_mset fst (core_of s)"
  by (cases s) (simp_all add: our_index_core)

definition wipe_sessions :: "'n peer \<Rightarrow> u32 list result \<times> 'n peer" where
  "wipe_sessions p = (let (indices, ss) = wipe (sessions p) in (Inr indices, p\<lparr>sessions := ss\<rparr>))"

interpretation initiate: fresh_session_op "initiate_new_session N C k i ent now wall" "\<lambda>(ep, packet, d). opt_list d" "[i]"
proof
  fix p p' :: "'a peer" and x e and r :: "(endpoint \<times> bytes \<times> u32 option) result"
  show "mset (get_mapped_indices p') + mset (case x of (ep, packet, d) \<Rightarrow> opt_list d) =
      mset (get_mapped_indices p) + mset [i]"
    if "initiate_new_session N C k i ent now wall p = (Inr x, p')"
    using that
  proof (cases rule: initiate_cases)
    case (ok noise0 ep msg noise mac1 mac2 cookie d)
    then show ?thesis using replace_next_ledger(1) [OF ok(5)] by simp
  qed simp
  show "mset (get_mapped_indices p') \<subseteq># mset (get_mapped_indices p)"
    if "initiate_new_session N C k i ent now wall p = (Inl e, p')"
    using that by (cases rule: initiate_cases) simp_all
  assume "initiate_new_session N C k i ent now wall p = (r, p')"
  then show "config_of p' = config_of p"
  proof (cases rule: initiate_cases)
    case (ok noise0 ep msg noise mac1 mac2 cookie d)
    then show ?thesis using replace_next_ledger(3) [OF ok(5)] by (simp add: config_of_def)
  qed simp
next
  fix p p' :: "'a peer" and r :: "(endpoint \<times> bytes \<times> u32 option) result"
  assume "initiate_new_session N C k i ent now wall p = (r, p')"
  then show "mset (cores p') \<subseteq># mset (cores p) + mset (map (\<lambda>i. (i, ar_new)) [i])"
  proof (cases rule: initiate_cases)
    case (ok noise0 ep msg noise mac1 mac2 cookie d)
    then show ?thesis using replace_next_ledger(2) [OF ok(5)] by simp
  qed simp
qed

interpretation complete: fresh_session_op "complete_incoming_handshake N C addr i h now" "\<lambda>(packet, d). opt_list d" "[i]"
proof
  fix p p' :: "'a peer" and x e and r :: "(bytes \<times> u32 option) result"
  show "mset (get_mapped_indices p') + mset (case x of (packet, d) \<Rightarrow> opt_list d) = mset (get_mapped_indices p) + mset [i]"
    if "complete_incoming_handshake N C addr i h now p = (Inr x, p')"
    using that
  proof (cases rule: complete_cases)
    case (ok noise1 msg noise2 mac1 mac2 cookie noise3 d q)
    then show ?thesis using replace_next_ledger(1) [OF ok(6)] by simp
  qed simp
  show "mset (get_mapped_indices p') \<subseteq># mset (get_mapped_indices p)"
    if "complete_incoming_handshake N C addr i h now p = (Inl e, p')"
    using that get_mapped_indices_cong [of p' p] by (cases rule: complete_cases) simp_all
  assume "complete_incoming_handshake N C addr i h now p = (r, p')"
  then show "config_of p' = config_of p"
  proof (cases rule: complete_cases)
    case (ok noise1 msg noise2 mac1 mac2 cookie noise3 d q)
    then show ?thesis using replace_next_ledger(3) [OF ok(6)] by (simp add: config_of_def)
  qed (simp add: config_of_def)
next
  fix p p' :: "'a peer" and r :: "(bytes \<times> u32 option) result"
  assume "complete_incoming_handshake N C addr i h now p = (r, p')"
  then show "mset (cores p') \<subseteq># mset (cores p) + mset (map (\<lambda>i. (i, ar_new)) [i])"
  proof (cases rule: complete_cases)
    case (err e)
    then show ?thesis using cores_cong [of p' p] by simp
  next
    case (ok noise1 msg noise2 mac1 mac2 cookie noise3 d q)
    then show ?thesis using replace_next_ledger(2) [OF ok(6)] by simp
  qed
qed

interpretation response: fresh_session_op "process_incoming_handshake_response N addr packet now" opt_list "[]"
proof
  fix p p' :: "'a peer" and x e and r :: "u32 option result"
  show "mset (get_mapped_indices p') + mset (opt_list x) = mset (get_mapped_indices p) + mset []"
    if "process_incoming_handshake_response N addr packet now p = (Inr x, p')"
    using that by (cases rule: handshake_response_cases) (simp_all add: mset_indices mset_cores mset_opt_index)
  show "mset (get_mapped_indices p') \<subseteq># mset (get_mapped_indices p)"
    if "process_incoming_handshake_response N addr packet now p = (Inl e, p')"
    using that by (cases rule: handshake_response_cases) (simp_all add: mset_indices mset_cores)
  assume "process_incoming_handshake_response N addr packet now p = (r, p')"
  then show "config_of p' = config_of p"
    by (cases rule: handshake_response_cases) (simp_all add: config_of_def)
next
  fix p p' :: "'a peer" and r :: "u32 option result"
  assume "process_incoming_handshake_response N addr packet now p = (r, p')"
  then show "mset (cores p') \<subseteq># mset (cores p) + mset (map (\<lambda>i. (i, ar_new)) [])"
    by (cases rule: handshake_response_cases) (simp_all add: mset_cores)
qed

definition transition_dead :: "session_transition \<Rightarrow> u32 list" where
  "transition_dead t = (case t of NoTransition \<Rightarrow> [] | Transition d \<Rightarrow> opt_list d)"

interpretation incoming: session_op "handle_incoming_transport N P addr packet now" "\<lambda>(raw, t). transition_dead t" "[]"
proof
  fix p p' :: "'a peer" and x e and r :: "(bytes \<times> session_transition) result"
  show "mset (get_mapped_indices p') + mset (case x of (raw, t) \<Rightarrow> transition_dead t) = mset (get_mapped_indices p) + mset []"
    if "handle_incoming_transport N P addr packet now p = (Inr x, p')"
    using that
  proof (cases rule: incoming_cases)
    case (ok s ty raw s')
    then show ?thesis
      using put_session_indices [OF find_sessionD(1) receive_index, OF ok(1,3)] by (simp add: transition_dead_def)
  next
    case (rotate s raw s')
    let ?q = "put_session Next s' p"
    have "image_mset fst (mset (cores ?q)) = image_mset fst (mset (cores p))"
      unfolding mset_indices [symmetric]
      using put_session_indices [OF find_sessionD(1) receive_index, OF rotate(1,2)] by simp
    moreover have "next_s (sessions ?q) \<noteq> None" "past (sessions ?q) = past (sessions p)" by (simp_all add: put_session_def)
    ultimately show ?thesis
      using arg_cong [OF rotate_cores [of ?q now], of "image_mset fst"] rotate
      by (simp add: transition_dead_def mset_indices mset_opt_index)
  qed simp_all
  show "mset (get_mapped_indices p') \<subseteq># mset (get_mapped_indices p)"
    if "handle_incoming_transport N P addr packet now p = (Inl e, p')"
    using that
  proof (cases rule: incoming_cases)
    case (err s ty e s')
    then show ?thesis using put_session_indices [OF find_sessionD(1) receive_index, OF err(1,2)] by simp
  qed simp_all
  assume "handle_incoming_transport N P addr packet now p = (r, p')"
  then show "config_of p' = config_of p"
    by (cases rule: incoming_cases) simp_all
qed

interpretation outgoing: fresh_session_op "handle_outgoing_transport N packet now" "\<lambda>_. []" "[]"
proof
  fix p p' :: "'a peer" and x e and r :: "(endpoint \<times> bytes) result"
  have current: "session_at Current p = Some s" if "current (sessions p) = Some s" for s
    using that by (simp add: session_at_def)
  show "mset (get_mapped_indices p') + mset [] = mset (get_mapped_indices p) + mset []"
    if "handle_outgoing_transport N packet now p = (Inr x, p')"
    using that by (cases rule: outgoing_cases) (simp_all add: put_session_indices [OF current])
  show "mset (get_mapped_indices p') \<subseteq># mset (get_mapped_indices p)"
    if "handle_outgoing_transport N packet now p = (Inl e, p')"
    using that by (cases rule: outgoing_cases) (simp_all add: put_session_indices [OF current])
  assume "handle_outgoing_transport N packet now p = (r, p')"
  then show "config_of p' = config_of p"
    by (cases rule: outgoing_cases) simp_all
next
  fix p p' :: "'a peer" and r :: "(endpoint \<times> bytes) result"
  have current: "mset (cores (put_session Current (s\<lparr>s_noise := n\<rparr>) p)) = mset (cores p)"
    if "current (sessions p) = Some s" for s n
    using put_session_cores [of Current p s "s\<lparr>s_noise := n\<rparr>"] that by (simp add: session_at_def)
  assume "handle_outgoing_transport N packet now p = (r, p')"
  then show "mset (cores p') \<subseteq># mset (cores p) + mset (map (\<lambda>i. (i, ar_new)) [])"
    by (cases rule: outgoing_cases) (simp_all add: current)
qed

interpretation wiping: fresh_session_op wipe_sessions "\<lambda>indices. indices" "[]"
  by unfold_locales (auto simp: wipe_sessions_def wipe_def get_mapped_indices_def sessions_default_def config_of_def
      index_of_def mset_cores)

interpretation cookie_reply: fresh_session_op "consume_cookie_reply C reply now" "\<lambda>_. []" "[]"
  by unfold_locales (auto simp: consume_cookie_reply_def config_of_def split: prod.splits)

section \<open>Replayed packets\<close>

definition ar_seen :: "anti_replay \<Rightarrow> u64 set \<Rightarrow> bool" where
  "ar_seen ar ns \<longleftrightarrow> (\<exists>hist. ar_models hist ar \<and> ns \<subseteq> set hist)"

lemma ar_seen_new: "ar_seen ar_new {}"
  using ar_models_new by (auto simp: ar_seen_def)

lemma ar_seen_update:
  assumes "ar_seen ar ns" and "ar_update ar n = (Inr (), ar')"
  shows "n \<notin> ns" and "ar_seen ar' (insert n ns)"
proof -
  obtain hist where h: "ar_models hist ar" "ns \<subseteq> set hist" using assms(1) by (auto simp: ar_seen_def)
  have ok: "ar_check ar n" and ar': "ar' = ar_update_store ar n"
    using assms(2) by (auto simp: ar_update_def split: if_splits)
  have w: "window_accepts hist n" using ar_check_iff [OF h(1)] ok by simp
  then show "n \<notin> ns" using h(2) by (auto simp: window_accepts_def)
  have "ar_models (n # hist) ar'" using ar_models_store [OF h(1)] w ar' by simp
  then show "ar_seen ar' (insert n ns)" using h(2) by (auto simp: ar_seen_def intro!: exI [of _ "n # hist"])
qed

lemma ar_seen_mono: "ar_seen ar ns \<Longrightarrow> ms \<subseteq> ns \<Longrightarrow> ar_seen ar ms"
  by (auto simp: ar_seen_def)

text \<open>\<open>used\<close> are the receiver indices handed out so far and \<open>acc\<close> the (index, nonce) pairs of the packets
  accepted so far: each is in the window of its session, if that session is still there.\<close>

definition replay_inv :: "u32 set \<Rightarrow> (u32 \<times> u64) list \<Rightarrow> 'n peer \<Rightarrow> bool" where
  "replay_inv used acc p \<longleftrightarrow>
     distinct (get_mapped_indices p) \<and> set (get_mapped_indices p) \<subseteq> used \<and>
     distinct acc \<and> fst ` set acc \<subseteq> used \<and>
     (\<forall>(i, ar) \<in> set (cores p). ar_seen ar {n. (i, n) \<in> set acc})"

lemma replay_inv_cores:
  assumes "replay_inv used acc p" and "mset (cores q) \<subseteq># mset (cores p) + mset (map (\<lambda>i. (i, ar_new)) fresh)"
    and "distinct fresh" and "set fresh \<inter> used = {}"
  shows "replay_inv (used \<union> set fresh) acc q"
proof -
  let ?all = "cores p @ map (\<lambda>i. (i, ar_new)) fresh"
  have sub: "mset (cores q) \<subseteq># mset ?all" using assms(2) by simp
  have inv: "distinct (map fst (cores p))" "fst ` set (cores p) \<subseteq> used" "distinct acc" "fst ` set acc \<subseteq> used"
    "\<forall>(i, ar) \<in> set (cores p). ar_seen ar {n. (i, n) \<in> set acc}"
    using assms(1) by (auto simp: replay_inv_def get_mapped_indices_cores)
  have idx: "mset (map fst (cores q)) \<subseteq># mset (map fst ?all)"
    using image_mset_subseteq_mono [OF sub, of fst] by (simp only: mset_map)
  have "distinct (map fst ?all)" using inv(1,2) assms(3,4) by (auto simp: comp_def)
  with idx have "distinct (map fst (cores q))" by (rule distinct_mset_subset)
  moreover have "set (map fst (cores q)) \<subseteq> used \<union> set fresh"
    using set_mset_mono [OF idx] inv(2) by (auto simp: comp_def)
  moreover have "ar_seen ar {n. (i, n) \<in> set acc}" if "(i, ar) \<in> set (cores q)" for i ar
  proof -
    have "(i, ar) \<in> set (cores p) \<or> (i \<in> set fresh \<and> ar = ar_new)" using set_mset_mono [OF sub] that by auto
    then show ?thesis
    proof
      assume "i \<in> set fresh \<and> ar = ar_new"
      then show ?thesis using assms(4) inv(4) ar_seen_new by (force intro: ar_seen_mono [of _ "{}"])
    qed (use inv(5) in auto)
  qed
  ultimately show ?thesis using inv(3,4) by (auto simp: replay_inv_def get_mapped_indices_cores)
qed

context fresh_session_op
begin

lemma keeps_replay_inv:
  assumes "replay_inv used acc p" and "op p = (r, p')" and "distinct fresh" and "set fresh \<inter> used = {}"
  shows "replay_inv (used \<union> set fresh) acc p'"
  by (rule replay_inv_cores [OF assms(1) cores_kept [OF assms(2)] assms(3,4)])

end

text \<open>Advancing one session's window by one packet, accepted in the end or not.\<close>

lemma replay_inv_put:
  assumes inv: "replay_inv used acc p" and s: "session_at ty p = Some s"
    and core: "our_index s' = our_index s" and seen: "ar_seen (s_anti_replay s') {n. (our_index s, n) \<in> set acc'}"
    and acc': "distinct acc'" "\<And>i n. i \<noteq> our_index s \<Longrightarrow> (i, n) \<in> set acc' \<longleftrightarrow> (i, n) \<in> set acc" "\<forall>x \<in> set acc'. fst x \<in> used"
  shows "replay_inv used acc' (put_session ty s' p)"
proof -
  have idx: "get_mapped_indices (put_session ty s' p) = get_mapped_indices p"
    by (rule put_session_indices [OF s core])
  have "core s \<in># mset (cores p)" using session_at_stored [OF s] by (simp add: cores_def)
  then obtain B where B: "mset (cores p) = add_mset (core s) B" by (blast dest: multi_member_split)
  have eq: "mset (cores (put_session ty s' p)) = add_mset (core s') B"
    using put_session_cores [OF s, of s'] by (simp add: B add_mset_commute)
  have "ar_seen ar {n. (i, n) \<in> set acc'}" if "(i, ar) \<in> set (cores (put_session ty s' p))" for i ar
  proof (cases "(i, ar) = core s'")
    case True
    then show ?thesis using seen core by (simp add: core_def)
  next
    case False
    have "(i, ar) \<in># mset (cores (put_session ty s' p))" using that by simp
    with False have "(i, ar) \<in># B" by (auto simp: eq)
    then obtain ms where ms: "mset (cores p) = add_mset (core s) (add_mset (i, ar) ms)"
      using B by (auto dest: multi_member_split)
    have "distinct (map fst (cores p))" using inv by (simp add: replay_inv_def get_mapped_indices_cores)
    then have "i \<noteq> our_index s"
      using arg_cong [OF ms, of "image_mset fst"] by (auto simp: distinct_count_atmost_1 core_def split: if_splits)
    moreover have "(i, ar) \<in> set (cores p)" unfolding set_mset_mset [symmetric] ms by simp
    then have "ar_seen ar {n. (i, n) \<in> set acc}" using inv by (auto simp: replay_inv_def)
    ultimately show ?thesis using acc'(2) by simp
  qed
  then show ?thesis using inv acc' idx by (auto simp: replay_inv_def)
qed

lemma incoming_replay_inv:
  assumes inv: "replay_inv used acc p" and step: "handle_incoming_transport N P addr packet now p = (r, p')"
  shows "replay_inv used
    (case r of Inl _ \<Rightarrow> acc | Inr _ \<Rightarrow> (transport_our_index packet, transport_nonce packet) # acc) p'"
proof -
  let ?i = "transport_our_index packet" and ?n = "transport_nonce packet"
  have put: "replay_inv used (case rr of Inl _ \<Rightarrow> acc | Inr _ \<Rightarrow> (?i, ?n) # acc) (put_session ty s' p)"
    if find: "find_session ?i p = Some (s, ty)" and rcv: "receive_in_session N P packet now s = (rr, s')" for s ty rr s'
  proof -
    have s: "session_at ty p = Some s" "our_index s = ?i" using find_sessionD [OF find] by auto
    then have "core s \<in> set (cores p)" using session_at_stored [OF s(1)] by (simp add: cores_def)
    then have seen: "ar_seen (s_anti_replay s) {n. (?i, n) \<in> set acc}" and used: "?i \<in> used"
      using inv s(2) by (auto simp: replay_inv_def core_def get_mapped_indices_cores)
    have acc: "distinct acc" "\<forall>x \<in> set acc. fst x \<in> used" using inv by (auto simp: replay_inv_def)
    show ?thesis
      using rcv
    proof (cases rule: receive_cases)
      case (early e)
      then show ?thesis using inv seen s acc by (auto intro: replay_inv_put [OF inv s(1)])
    next
      case (late e ar noise)
      then show ?thesis using ar_seen_update [OF seen late(1)] acc s
        by (auto intro!: replay_inv_put [OF inv s(1)] intro: ar_seen_mono)
    next
      case (ok ar noise1 plain noise2)
      have "ar_seen ar (insert ?n {n. (?i, n) \<in> set acc})" and "(?i, ?n) \<notin> set acc"
        using ar_seen_update [OF seen ok(4)] by auto
      moreover have "{n. (?i, n) \<in> set ((?i, ?n) # acc)} = insert ?n {n. (?i, n) \<in> set acc}" by auto
      moreover have "\<exists>raw. rr = Inr raw" using ok(8) by (auto split: if_splits)
      ultimately show ?thesis using ok acc s used
        by (auto intro!: replay_inv_put [OF inv s(1)])
    qed
  qed
  have cong: "replay_inv used a (note_received addr packet raw now q) \<longleftrightarrow> replay_inv used a q" for a raw q
    by (simp add: replay_inv_def)
  show ?thesis
    using step
  proof (cases rule: incoming_cases)
    case (rotate s raw s')
    let ?q = "put_session Next s' p"
    have "mset (cores (rotate_sessions now ?q)) \<subseteq># mset (cores ?q) + mset (map (\<lambda>i. (i, ar_new)) [])"
    proof -
      have "next_s (sessions ?q) \<noteq> None" by (simp add: put_session_def)
      from rotate_cores [OF this, of now, symmetric] show ?thesis by simp
    qed
    from replay_inv_cores [OF put [OF rotate(1,2)] this] show ?thesis using rotate by (simp add: cong)
  next
    case (err s ty e s')
    then show ?thesis using put [OF err(1,2)] by simp
  next
    case (ok s ty raw s')
    then show ?thesis using put [OF ok(1,3)] by (simp add: cong)
  qed (use inv in simp)
qed

section \<open>The life of a peer\<close>

text \<open>Everything that happens to a peer: the calls of its methods, and the writes of the configuration
  service and of the peer server to its public fields.\<close>

datatype 'n peer_event =
    InitiateSession bytes u32 nat instant duration
  | CompleteHandshake endpoint u32 "'n incomplete_incoming_handshake" instant
  | HandshakeResponse endpoint response instant
  | ConsumeCookie cookie_reply instant
  | IncomingTransport endpoint transport instant
  | OutgoingTransport bytes instant
  | QueueEgress utun_packet
  | TakeQueue
  | WipeSessions
  | SetInfo peer_info
  | SetTimers timers

fun peer_step :: "'n noise_ops \<Rightarrow> crypto \<Rightarrow> ip_parsers \<Rightarrow> 'n peer_event \<Rightarrow> 'n peer \<Rightarrow> 'n peer" where
  "peer_step N C P (InitiateSession k i ent now wall) p = snd (initiate_new_session N C k i ent now wall p)"
| "peer_step N C P (CompleteHandshake addr i h now) p = snd (complete_incoming_handshake N C addr i h now p)"
| "peer_step N C P (HandshakeResponse addr packet now) p = snd (process_incoming_handshake_response N addr packet now p)"
| "peer_step N C P (ConsumeCookie reply now) p = snd (consume_cookie_reply C reply now p)"
| "peer_step N C P (IncomingTransport addr packet now) p = snd (handle_incoming_transport N P addr packet now p)"
| "peer_step N C P (OutgoingTransport packet now) p = snd (handle_outgoing_transport N packet now p)"
| "peer_step N C P (QueueEgress packet) p = queue_egress packet p"
| "peer_step N C P TakeQueue p = p\<lparr>outgoing_queue := tl (outgoing_queue p)\<rparr>"
| "peer_step N C P WipeSessions p = snd (wipe_sessions p)"
| "peer_step N C P (SetInfo i) p = p\<lparr>info := i\<rparr>"
| "peer_step N C P (SetTimers t) p = p\<lparr>timers := t\<rparr>"

text \<open>The receiver index an event introduces, the packet it accepts, the handshake it accepts.\<close>

fun event_index :: "'n peer_event \<Rightarrow> u32 list" where
  "event_index (InitiateSession k i ent now wall) = [i]"
| "event_index (CompleteHandshake addr i h now) = [i]"
| "event_index _ = []"

fun accepted_packet :: "'n noise_ops \<Rightarrow> ip_parsers \<Rightarrow> 'n peer_event \<Rightarrow> 'n peer \<Rightarrow> (u32 \<times> u64) list" where
  "accepted_packet N P (IncomingTransport addr packet now) p =
     (case fst (handle_incoming_transport N P addr packet now p) of
        Inl _ \<Rightarrow> []
      | Inr _ \<Rightarrow> [(transport_our_index packet, transport_nonce packet)])"
| "accepted_packet N P _ p = []"

fun accepted_packets ::
  "'n noise_ops \<Rightarrow> crypto \<Rightarrow> ip_parsers \<Rightarrow> 'n peer_event list \<Rightarrow> 'n peer \<Rightarrow> (u32 \<times> u64) list" where
  "accepted_packets N C P [] p = []"
| "accepted_packets N C P (ev # evs) p =
     accepted_packet N P ev p @ accepted_packets N C P evs (peer_step N C P ev p)"

fun accepted_handshake :: "'n noise_ops \<Rightarrow> crypto \<Rightarrow> 'n peer_event \<Rightarrow> 'n peer \<Rightarrow> tai64n list" where
  "accepted_handshake N C (CompleteHandshake addr i h now) p =
     (case fst (complete_incoming_handshake N C addr i h now p) of Inl _ \<Rightarrow> [] | Inr _ \<Rightarrow> [ih_timestamp h])"
| "accepted_handshake N C _ p = []"

fun accepted_handshakes ::
  "'n noise_ops \<Rightarrow> crypto \<Rightarrow> ip_parsers \<Rightarrow> 'n peer_event list \<Rightarrow> 'n peer \<Rightarrow> tai64n list" where
  "accepted_handshakes N C P [] p = []"
| "accepted_handshakes N C P (ev # evs) p =
     accepted_handshake N C ev p @ accepted_handshakes N C P evs (peer_step N C P ev p)"

lemma replay_inv_update [simp]:
  "replay_inv used acc (p\<lparr>info := i\<rparr>) = replay_inv used acc p"
  "replay_inv used acc (p\<lparr>timers := t\<rparr>) = replay_inv used acc p"
  "replay_inv used acc (p\<lparr>outgoing_queue := q\<rparr>) = replay_inv used acc p"
  by (simp_all add: replay_inv_def)

lemma replay_inv_step:
  assumes "replay_inv used acc p" and "set (event_index ev) \<inter> used = {}"
  shows "replay_inv (used \<union> set (event_index ev)) (rev (accepted_packet N P ev p) @ acc) (peer_step N C P ev p)"
proof (cases ev)
  case (IncomingTransport addr packet now)
  then show ?thesis using incoming_replay_inv [OF assms(1), of N P addr packet now]
    by (auto split: sum.splits prod.splits intro: prod.exhaust [of "handle_incoming_transport N P addr packet now p"])
next
  case (QueueEgress packet)
  then show ?thesis using assms by (simp add: queue_egress_def)
qed (use assms in \<open>simp_all add: initiate.keeps_replay_inv [OF assms(1) surjective_pairing, simplified]
    complete.keeps_replay_inv [OF assms(1) surjective_pairing, simplified]
    response.keeps_replay_inv [OF assms(1) surjective_pairing, simplified]
    cookie_reply.keeps_replay_inv [OF assms(1) surjective_pairing, simplified]
    outgoing.keeps_replay_inv [OF assms(1) surjective_pairing, simplified]
    wiping.keeps_replay_inv [OF assms(1) surjective_pairing, simplified]\<close>)

lemma accepted_packets_distinct:
  "replay_inv used acc p \<Longrightarrow> distinct (concat (map event_index evs)) \<Longrightarrow>
     set (concat (map event_index evs)) \<inter> used = {} \<Longrightarrow>
     distinct (rev (accepted_packets N C P evs p) @ acc)"
proof (induction evs arbitrary: used acc p)
  case Nil
  then show ?case by (simp add: replay_inv_def)
next
  case (Cons ev evs)
  have "replay_inv (used \<union> set (event_index ev)) (rev (accepted_packet N P ev p) @ acc) (peer_step N C P ev p)"
    using Cons.prems by (intro replay_inv_step) auto
  from Cons.IH [OF this] Cons.prems show ?case by auto
qed

lemma replay_inv_new: "replay_inv {} [] (peer_new C i)"
  by (simp add: replay_inv_def peer_new_def sessions_default_def get_mapped_indices_def index_of_def cores_def stored_def)

section \<open>Replayed handshakes\<close>

lemma last_handshake_kept:
  "accepted_handshake N C ev p = [] \<Longrightarrow> last_handshake_tai64n (peer_step N C P ev p) = last_handshake_tai64n p"
proof (induction N C P ev p rule: peer_step.induct)
  case (1 N C P k i ent now wall p)
  obtain r p' where step: "initiate_new_session N C k i ent now wall p = (r, p')" by force
  then show ?case by (cases rule: initiate_cases) (use step in \<open>auto simp: replace_next_def Let_def split: if_splits\<close>)
next
  case (2 N C P addr i h now p)
  obtain r p' where step: "complete_incoming_handshake N C addr i h now p = (r, p')" by force
  then show ?case by (cases rule: complete_cases) (use step 2 in \<open>auto\<close>)
next
  case (3 N C P addr packet now p)
  obtain r p' where step: "process_incoming_handshake_response N addr packet now p = (r, p')" by force
  then show ?case by (cases rule: handshake_response_cases) (use step in \<open>auto\<close>)
next
  case (5 N C P addr packet now p)
  obtain r p' where step: "handle_incoming_transport N P addr packet now p = (r, p')" by force
  then show ?case by (cases rule: incoming_cases) (use step in \<open>auto\<close>)
next
  case (6 N C P packet now p)
  obtain r p' where step: "handle_outgoing_transport N packet now p = (r, p')" by force
  then show ?case by (cases rule: outgoing_cases) (use step in \<open>auto\<close>)
qed (auto simp: consume_cookie_reply_def queue_egress_def wipe_sessions_def wipe_def split: prod.splits)

lemma accepted_handshake_step:
  assumes "accepted_handshake N C ev p = ts # tss"
  shows "tss = []" and "last_handshake_tai64n (peer_step N C P ev p) = Some ts"
    and "last_handshake_tai64n p = Some l \<Longrightarrow> tai64n_lt l ts"
proof -
  obtain addr i h now where ev: "ev = CompleteHandshake addr i h now" using assms by (cases ev) auto
  obtain r p' where step: "complete_incoming_handshake N C addr i h now p = (r, p')" by force
  then have "tss = [] \<and> last_handshake_tai64n p' = Some ts \<and> (\<forall>l. last_handshake_tai64n p = Some l \<longrightarrow> tai64n_lt l ts)"
    by (cases rule: complete_cases) (use assms ev step in auto)
  then show "tss = []" and "last_handshake_tai64n (peer_step N C P ev p) = Some ts"
    and "last_handshake_tai64n p = Some l \<Longrightarrow> tai64n_lt l ts"
    using ev step by auto
qed

lemma transp_tai64n_lt: "transp tai64n_lt"
  by (simp flip: less_tai64n_def)

lemma accepted_handshakes_sorted:
  "sorted_wrt tai64n_lt (opt_list (last_handshake_tai64n p) @ accepted_handshakes N C P evs p)"
proof (induction evs arbitrary: p)
  case Nil
  then show ?case by (cases "last_handshake_tai64n p") simp_all
next
  case (Cons ev evs)
  show ?case
  proof (cases "accepted_handshake N C ev p")
    case Nil
    then show ?thesis using Cons [of "peer_step N C P ev p"] last_handshake_kept [OF Nil] by simp
  next
    case (Cons ts tss)
    note step = accepted_handshake_step [OF Cons]
    have "sorted_wrt tai64n_lt (ts # accepted_handshakes N C P evs (peer_step N C P ev p))"
      using Cons.IH [of "peer_step N C P ev p"] step(2) by simp
    then show ?thesis using Cons step(1,3)
      by (cases "last_handshake_tai64n p") (simp_all add: sorted_wrt2 [OF transp_tai64n_lt] del: sorted_wrt.simps)
  qed
qed

section \<open>Properties\<close>

text \<open>C14: in the whole life of a peer, whatever handshakes, session rotations, errors and forged packets
  interleave, no transport packet is accepted twice: the pairs of receiver index and nonce of the
  accepted packets are pairwise different, as long as no receiver index is drawn twice.\<close>

theorem transport_accepted_once:
  assumes "distinct (concat (map event_index evs))"
  shows "distinct (accepted_packets N C P evs (peer_new C i))"
  using accepted_packets_distinct [OF replay_inv_new assms, of N C P C i] by simp

theorem transport_accepted_once_witness:
  "distinct (accepted_packets clear_noise test_crypto \<lparr>ipv4_new = \<lambda>_. None, ipv6_new = \<lambda>_. None\<rparr>
     [InitiateSession (replicate 32 1) 7 0 0 0,
      HandshakeResponse (endpoint_from (SocketAddrV4 1 2)) (replicate 92 0) 1,
      IncomingTransport (endpoint_from (SocketAddrV4 1 2)) (4 # replicate 3 0 @ [7] @ replicate 27 0) 2,
      IncomingTransport (endpoint_from (SocketAddrV4 1 2)) (4 # replicate 3 0 @ [7] @ replicate 27 0) 3,
      InitiateSession (replicate 32 1) 9 1 4 1]
     (peer_new test_crypto (peer_info_default\<lparr>endpoint := Some (endpoint_from (SocketAddrV4 1 2))\<rparr>)))"
  by (rule transport_accepted_once) simp

text \<open>C15: the timestamps of the handshake initiations a peer accepts increase strictly over its whole
  life, so a recorded initiation is never accepted again.\<close>

theorem handshake_timestamps_increase:
  "sorted_wrt tai64n_lt (accepted_handshakes N C P evs (peer_new C i))"
  using accepted_handshakes_sorted [of "peer_new C i" N C P evs] by (simp add: peer_new_def)

end
