(* ===== verification/Device.thy ===== *)
theory Device
  imports PeerSessions
begin

text \<open>
  The state the configuration service and the peer server share, \<open>State\<close> of \<open>src/interface/mod.rs\<close>, and
  the updates of the configuration service, \<open>handle_update\<close> and \<open>clear_peer_refs\<close> of
  \<open>src/interface/config.rs\<close>.

  Peers are shared between the maps, the routing table, timers and channel messages. They live in a
  store: a \<open>SharedPeer\<close> is a reference into it, and \<open>heap\<close> gives the peer behind each reference, so that
  a write through one reference is seen through all. \<open>next_ref\<close> is the first reference not handed out.
  Hash maps are association lists. The routing tables are the parameter \<open>R\<close>, \<open>x25519::generate_public\<close>
  is \<open>G\<close>.
\<close>

section \<open>The shared state\<close>

record ('n, 't4, 't6) state =
  heap :: "peer_ref \<Rightarrow> 'n peer"
  next_ref :: peer_ref
  pubkey_map :: "(bytes \<times> peer_ref) list"
  index_map :: "(u32 \<times> peer_ref) list"
  router :: "('t4, 't6) router"
  interface_info :: interface_info

definition state_default :: "crypto \<Rightarrow> ('t4, 't6, peer_ref) router_ops \<Rightarrow> ('n, 't4, 't6) state" where
  "state_default C R =
     \<lparr>heap = (\<lambda>_. peer_new C peer_info_default), next_ref = 0, pubkey_map = [], index_map = [],
      router = router_default R, interface_info = interface_info_default\<rparr>"

text \<open>\<open>Rc::new(RefCell::new(peer))\<close>\<close>

definition alloc_peer :: "'n peer \<Rightarrow> ('n, 't4, 't6) state \<Rightarrow> peer_ref \<times> ('n, 't4, 't6) state" where
  "alloc_peer p st = (next_ref st, st\<lparr>heap := (heap st)(next_ref st := p), next_ref := next_ref st + 1\<rparr>)"

text \<open>Writing through \<open>peer_ref.borrow_mut()\<close>.\<close>

definition put_peer :: "peer_ref \<Rightarrow> 'n peer \<Rightarrow> ('n, 't4, 't6) state \<Rightarrow> ('n, 't4, 't6) state" where
  "put_peer r p st = st\<lparr>heap := (heap st)(r := p)\<rparr>"

section \<open>Configuration updates\<close>

datatype channel_message =
    ClearPrivateKey
  | NewPrivateKey
  | NewListenPort u16
  | NewFwmark u32
  | NewPersistentKeepalive peer_ref
  | NewPeer peer_ref

datatype update_event =
    PrivateKey bytes
  | Fwmark u32
  | ListenPort u16
  | UpdatePeer peer_info bool
  | RemovePeer bytes
  | RemoveAllPeers

definition clear_peer_refs ::
  "('t4, 't6, peer_ref) router_ops \<Rightarrow> 'n peer \<Rightarrow> ('n, 't4, 't6) state \<Rightarrow> ('n, 't4, 't6) state" where
  "clear_peer_refs R p st =
     (let st = st\<lparr>index_map := delete_all (get_mapped_indices p) (index_map st)\<rparr>
      in st\<lparr>router := remove_allowed_ips R (router st) (allowed_ips (info p))\<rparr>)"

definition or_else :: "'a option \<Rightarrow> 'a option \<Rightarrow> 'a option" where
  "or_else x y = (case x of Some a \<Rightarrow> Some a | None \<Rightarrow> y)"

definition update_private_key ::
  "('t4, 't6, peer_ref) router_ops \<Rightarrow> (bytes \<Rightarrow> bytes) \<Rightarrow> bytes \<Rightarrow> ('n, 't4, 't6) state \<Rightarrow>
     channel_message option result \<times> ('n, 't4, 't6) state" where
  "update_private_key R G private_key st =
     (if private_key = replicate 32 0 then
        (Inr (Some ClearPrivateKey),
         st\<lparr>interface_info := (interface_info st)\<lparr>if_private_key := None, if_pub_key := None\<rparr>\<rparr>)
      else
        let pub = G private_key;
            st = st\<lparr>interface_info := (interface_info st)\<lparr>if_private_key := Some private_key, if_pub_key := Some pub\<rparr>\<rparr>
        in case map_of (pubkey_map st) pub of
             Some peer_ref \<Rightarrow>
               (Inr (Some NewPrivateKey),
                clear_peer_refs R (heap st peer_ref) (st\<lparr>pubkey_map := AList.delete pub (pubkey_map st)\<rparr>))
           | None \<Rightarrow> (Inr (Some NewPrivateKey), st))"

definition update_existing_peer ::
  "('t4, 't6, peer_ref) router_ops \<Rightarrow> peer_info \<Rightarrow> bool \<Rightarrow> peer_ref \<Rightarrow> ('n, 't4, 't6) state \<Rightarrow>
     channel_message option \<times> ('n, 't4, 't6) state" where
  "update_existing_peer R new replace_allowed_ips peer_ref st =
     (let p = heap st peer_ref;
          old = info p;
          (st, new) =
            (if replace_allowed_ips then (st\<lparr>router := remove_allowed_ips R (router st) (allowed_ips old)\<rparr>, new)
             else (st, new\<lparr>allowed_ips := allowed_ips new @ allowed_ips old\<rparr>));
          ret = (if keepalive new \<noteq> None \<and> keepalive old \<noteq> keepalive new then Some (NewPersistentKeepalive peer_ref) else None);
          new = new\<lparr>endpoint := or_else (endpoint new) (endpoint old),
                    keepalive := or_else (keepalive new) (keepalive old),
                    psk := or_else (psk new) (psk old)\<rparr>;
          st = st\<lparr>router := add_allowed_ips R (router st) (allowed_ips new) peer_ref\<rparr>
      in (ret, put_peer peer_ref (p\<lparr>info := new\<rparr>) st))"

definition add_new_peer ::
  "crypto \<Rightarrow> ('t4, 't6, peer_ref) router_ops \<Rightarrow> peer_info \<Rightarrow> ('n, 't4, 't6) state \<Rightarrow>
     channel_message option result \<times> ('n, 't4, 't6) state" where
  "add_new_peer C R new st =
     (if if_pub_key (interface_info st) = Some (pub_key new) then (Inr None, st)
      else if length (pubkey_map st) \<ge> MAX_PEERS_PER_DEVICE then (Inl (Err ''already at max peers per device''), st)
      else
        let (peer_ref, st) = alloc_peer (peer_new C new) st;
            st = st\<lparr>pubkey_map := AList.update (pub_key new) peer_ref (pubkey_map st)\<rparr>;
            st = st\<lparr>router := add_allowed_ips R (router st) (allowed_ips new) peer_ref\<rparr>
        in (Inr (Some (NewPeer peer_ref)), st))"

definition handle_update ::
  "crypto \<Rightarrow> ('t4, 't6, peer_ref) router_ops \<Rightarrow> (bytes \<Rightarrow> bytes) \<Rightarrow> update_event \<Rightarrow> ('n, 't4, 't6) state \<Rightarrow>
     channel_message option result \<times> ('n, 't4, 't6) state" where
  "handle_update C R G event st =
     (case event of
        PrivateKey private_key \<Rightarrow> update_private_key R G private_key st
      | ListenPort port \<Rightarrow>
          (Inr (Some (NewListenPort port)), st\<lparr>interface_info := (interface_info st)\<lparr>if_listen_port := Some port\<rparr>\<rparr>)
      | Fwmark mark \<Rightarrow>
          (Inr (Some (NewFwmark mark)), st\<lparr>interface_info := (interface_info st)\<lparr>if_fwmark := Some mark\<rparr>\<rparr>)
      | UpdatePeer new replace_allowed_ips \<Rightarrow>
          (case map_of (pubkey_map st) (pub_key new) of
             Some peer_ref \<Rightarrow>
               (let (ret, st) = update_existing_peer R new replace_allowed_ips peer_ref st in (Inr ret, st))
           | None \<Rightarrow> add_new_peer C R new st)
      | RemoveAllPeers \<Rightarrow> (Inr None, st\<lparr>pubkey_map := [], index_map := [], router := router_clear R (router st)\<rparr>)
      | RemovePeer pub \<Rightarrow>
          (case map_of (pubkey_map st) pub of
             None \<Rightarrow> (Inl (Err ''trying to remove nonexistent peer''), st)
           | Some peer_ref \<Rightarrow>
               (Inr None, clear_peer_refs R (heap st peer_ref) (st\<lparr>pubkey_map := AList.delete pub (pubkey_map st)\<rparr>))))"

text \<open>A \<open>set\<close> command applies its updates in order and stops at the first that fails; the messages go to
  the peer server's channel. The reply is the text of the protocol.\<close>

fun apply_updates ::
  "crypto \<Rightarrow> ('t4, 't6, peer_ref) router_ops \<Rightarrow> (bytes \<Rightarrow> bytes) \<Rightarrow> update_event list \<Rightarrow> ('n, 't4, 't6) state \<Rightarrow>
     string \<times> channel_message list \<times> ('n, 't4, 't6) state" where
  "apply_updates C R G [] st = (''errno=0'' @ [CHR 0x0A] @ ''errno=0'' @ [CHR 0x0A, CHR 0x0A], [], st)"
| "apply_updates C R G (item # items) st =
     (case handle_update C R G item st of
        (Inl _, st) \<Rightarrow> (''errno=1'' @ [CHR 0x0A] @ ''errno=1'' @ [CHR 0x0A, CHR 0x0A], [], st)
      | (Inr msg, st) \<Rightarrow>
          (let (reply, msgs, st) = apply_updates C R G items st in (reply, opt_list msg @ msgs, st)))"

section \<open>Well-formed states\<close>

definition configured :: "('n, 't4, 't6) state \<Rightarrow> peer_ref \<Rightarrow> bool" where
  "configured st r \<longleftrightarrow> (\<exists>k. map_of (pubkey_map st) k = Some r)"

text \<open>The maps: keys are distinct, references are allocated, a peer is stored under its own public key,
  the device is not its own peer, and the number of peers is bounded.\<close>

definition maps_ok :: "('n, 't4, 't6) state \<Rightarrow> bool" where
  "maps_ok st \<longleftrightarrow>
     wf_map (pubkey_map st) \<and> wf_map (index_map st) \<and>
     (\<forall>k r. map_of (pubkey_map st) k = Some r \<longrightarrow> r < next_ref st \<and> pub_key (info (heap st r)) = k) \<and>
     (\<forall>i r. map_of (index_map st) i = Some r \<longrightarrow> r < next_ref st) \<and>
     (\<forall>k. if_pub_key (interface_info st) = Some k \<longrightarrow> map_of (pubkey_map st) k = None) \<and>
     length (pubkey_map st) \<le> MAX_PEERS_PER_DEVICE"

text \<open>The routing table: every route leads to a configured peer that lists the network.\<close>

definition routes_ok ::
  "('t4 \<Rightarrow> 32 word \<times> nat \<Rightarrow> peer_ref option) \<Rightarrow> ('t6 \<Rightarrow> 128 word \<times> nat \<Rightarrow> peer_ref option) \<Rightarrow>
     ('n, 't4, 't6) state \<Rightarrow> bool" where
  "routes_ok V4 V6 st \<longleftrightarrow>
     (\<forall>r. configured st r \<longrightarrow> list_all valid_net (allowed_ips (info (heap st r)))) \<and>
     (\<forall>n r. router_view V4 V6 (router st) n = Some r \<longrightarrow>
        configured st r \<and> n \<in> net_of ` set (allowed_ips (info (heap st r))))"

text \<open>The sessions: receiver indices are unique over all peers, and those of configured peers are in the
  index map.\<close>

definition sessions_ok :: "('n, 't4, 't6) state \<Rightarrow> bool" where
  "sessions_ok st \<longleftrightarrow>
     (\<forall>r < next_ref st. distinct (get_mapped_indices (heap st r))) \<and>
     (\<forall>r r' i. r < next_ref st \<longrightarrow> r' < next_ref st \<longrightarrow>
        i \<in> set (get_mapped_indices (heap st r)) \<longrightarrow> i \<in> set (get_mapped_indices (heap st r')) \<longrightarrow> r = r') \<and>
     (\<forall>r i. configured st r \<longrightarrow> i \<in> set (get_mapped_indices (heap st r)) \<longrightarrow> map_of (index_map st) i = Some r)"

definition wf_state ::
  "('t4 \<Rightarrow> 32 word \<times> nat \<Rightarrow> peer_ref option) \<Rightarrow> ('t6 \<Rightarrow> 128 word \<times> nat \<Rightarrow> peer_ref option) \<Rightarrow>
     ('n, 't4, 't6) state \<Rightarrow> bool" where
  "wf_state V4 V6 st \<longleftrightarrow> maps_ok st \<and> routes_ok V4 V6 st \<and> sessions_ok st"

definition valid_update :: "update_event \<Rightarrow> bool" where
  "valid_update event = (case event of UpdatePeer new _ \<Rightarrow> list_all valid_net (allowed_ips new) | _ \<Rightarrow> True)"

lemma update_append: "map_of m k = None \<Longrightarrow> AList.update k v m = m @ [(k, v)]"
  by (induction m) (auto split: if_splits)

lemma maps_okD:
  assumes "maps_ok st"
  shows "wf_map (pubkey_map st)" "wf_map (index_map st)"
    "map_of (pubkey_map st) k = Some r \<Longrightarrow> r < next_ref st"
    "map_of (pubkey_map st) k = Some r \<Longrightarrow> pub_key (info (heap st r)) = k"
    "map_of (index_map st) i = Some r \<Longrightarrow> r < next_ref st"
    "if_pub_key (interface_info st) = Some k \<Longrightarrow> map_of (pubkey_map st) k = None"
    "length (pubkey_map st) \<le> MAX_PEERS_PER_DEVICE"
  using assms unfolding maps_ok_def by blast+

lemma configured_bound: "maps_ok st \<Longrightarrow> configured st r \<Longrightarrow> r < next_ref st"
  by (auto simp: configured_def dest: maps_okD)

lemma configured_delete:
  assumes "maps_ok st" and "map_of (pubkey_map st) k = Some r"
  shows "configured (st\<lparr>pubkey_map := AList.delete k (pubkey_map st)\<rparr>) r' \<longleftrightarrow> configured st r' \<and> r' \<noteq> r"
proof -
  have k: "k' = k" if "map_of (pubkey_map st) k' = Some r" for k'
    using maps_okD(4) [OF assms(1) that] maps_okD(4) [OF assms] by simp
  have "map_of (AList.delete k (pubkey_map st)) k' = Some r' \<longleftrightarrow> map_of (pubkey_map st) k' = Some r' \<and> k' \<noteq> k" for k'
    by (simp add: map_of_delete)
  moreover have "(\<exists>k'. map_of (pubkey_map st) k' = Some r' \<and> k' \<noteq> k) \<longleftrightarrow> (\<exists>k'. map_of (pubkey_map st) k' = Some r') \<and> r' \<noteq> r"
    using k assms(2) by (metis option.inject)
  ultimately show ?thesis by (simp add: configured_def)
qed

lemma routes_okD:
  assumes "routes_ok V4 V6 st"
  shows "configured st r \<Longrightarrow> list_all valid_net (allowed_ips (info (heap st r)))"
    "router_view V4 V6 (router st) n = Some r \<Longrightarrow> configured st r"
    "router_view V4 V6 (router st) n = Some r \<Longrightarrow> n \<in> net_of ` set (allowed_ips (info (heap st r)))"
  using assms unfolding routes_ok_def by blast+

lemma routes_okI:
  assumes "\<And>r. configured st r \<Longrightarrow> list_all valid_net (allowed_ips (info (heap st r)))"
    and "\<And>n r. router_view V4 V6 (router st) n = Some r \<Longrightarrow> configured st r"
    and "\<And>n r. router_view V4 V6 (router st) n = Some r \<Longrightarrow> n \<in> net_of ` set (allowed_ips (info (heap st r)))"
  shows "routes_ok V4 V6 st"
  using assms unfolding routes_ok_def by blast

lemma maps_okI:
  assumes "wf_map (pubkey_map st)" "wf_map (index_map st)"
    "\<And>k r. map_of (pubkey_map st) k = Some r \<Longrightarrow> r < next_ref st"
    "\<And>k r. map_of (pubkey_map st) k = Some r \<Longrightarrow> pub_key (info (heap st r)) = k"
    "\<And>i r. map_of (index_map st) i = Some r \<Longrightarrow> r < next_ref st"
    "\<And>k. if_pub_key (interface_info st) = Some k \<Longrightarrow> map_of (pubkey_map st) k = None"
    "length (pubkey_map st) \<le> MAX_PEERS_PER_DEVICE"
  shows "maps_ok st"
  using assms unfolding maps_ok_def by blast

lemma sessions_okD:
  assumes "sessions_ok st"
  shows "r < next_ref st \<Longrightarrow> distinct (get_mapped_indices (heap st r))"
    "r < next_ref st \<Longrightarrow> r' < next_ref st \<Longrightarrow> i \<in> set (get_mapped_indices (heap st r)) \<Longrightarrow>
       i \<in> set (get_mapped_indices (heap st r')) \<Longrightarrow> r = r'"
    "configured st r \<Longrightarrow> i \<in> set (get_mapped_indices (heap st r)) \<Longrightarrow> map_of (index_map st) i = Some r"
  using assms unfolding sessions_ok_def by blast+

lemma sessions_okI:
  assumes "\<And>r. r < next_ref st \<Longrightarrow> distinct (get_mapped_indices (heap st r))"
    and "\<And>r r' i. r < next_ref st \<Longrightarrow> r' < next_ref st \<Longrightarrow> i \<in> set (get_mapped_indices (heap st r)) \<Longrightarrow>
       i \<in> set (get_mapped_indices (heap st r')) \<Longrightarrow> r = r'"
    and "\<And>r i. configured st r \<Longrightarrow> i \<in> set (get_mapped_indices (heap st r)) \<Longrightarrow> map_of (index_map st) i = Some r"
  shows "sessions_ok st"
  using assms unfolding sessions_ok_def by blast

text \<open>Removing a configured peer.\<close>

lemma remove_configured:
  assumes wf: "wf_state V4 V6 st" and R: "lawful_router R V4 V6" and k: "map_of (pubkey_map st) k = Some r"
  defines "st' \<equiv> clear_peer_refs R (heap st r) (st\<lparr>pubkey_map := AList.delete k (pubkey_map st)\<rparr>)"
  shows "wf_state V4 V6 st'" and "\<not> configured st' r" and "router_view V4 V6 (router st') n \<noteq> Some r"
    and "i \<in> set (get_mapped_indices (heap st r)) \<Longrightarrow> map_of (index_map st') i = None"
proof -
  have m: "maps_ok st" and s: "sessions_ok st" and ro: "routes_ok V4 V6 st" using wf by (auto simp: wf_state_def)
  have conf: "configured st' r' \<longleftrightarrow> configured st r' \<and> r' \<noteq> r" for r'
    using configured_delete [OF m k, of r'] by (simp add: st'_def clear_peer_refs_def configured_def)
  have r: "configured st r" using k by (auto simp: configured_def)
  have valid: "list_all valid_net (allowed_ips (info (heap st r)))" by (rule routes_okD(1) [OF ro r])
  have view: "router_view V4 V6 (router st') =
      (\<lambda>n. if n \<in> net_of ` set (allowed_ips (info (heap st r))) then None else router_view V4 V6 (router st) n)"
    by (simp add: st'_def clear_peer_refs_def router_view_remove [OF R valid])
  have simps: "heap st' = heap st" "next_ref st' = next_ref st" "interface_info st' = interface_info st"
    "pubkey_map st' = AList.delete k (pubkey_map st)" by (simp_all add: st'_def clear_peer_refs_def)
  have sub: "map_of (pubkey_map st) k' = Some r'" if "map_of (pubkey_map st') k' = Some r'" for k' r'
    using that by (simp add: simps split: if_splits)
  have isub: "map_of (index_map st) i = Some r'" if "map_of (index_map st') i = Some r'" for i r'
    using that by (simp add: st'_def clear_peer_refs_def split: if_splits)
  have "maps_ok st'"
  proof (rule maps_okI)
    show "wf_map (pubkey_map st')" "wf_map (index_map st')"
      using maps_okD(1,2) [OF m] by (simp_all add: st'_def clear_peer_refs_def)
    show "length (pubkey_map st') \<le> MAX_PEERS_PER_DEVICE"
      using maps_okD(7) [OF m] length_delete_le [of k "pubkey_map st"] by (simp add: simps)
    show "map_of (pubkey_map st') k' = None" if "if_pub_key (interface_info st') = Some k'" for k'
      using that maps_okD(6) [OF m, of k'] by (simp add: simps)
  qed (unfold simps(1,2), (blast intro: maps_okD(3,4,5) [OF m] dest: sub isub)+)
  moreover have "routes_ok V4 V6 st'"
  proof (rule routes_okI)
    show "list_all valid_net (allowed_ips (info (heap st' r')))" if "configured st' r'" for r'
      using that routes_okD(1) [OF ro] by (simp add: simps conf)
  next
    fix n r'
    assume "router_view V4 V6 (router st') n = Some r'"
    then have n: "n \<notin> net_of ` set (allowed_ips (info (heap st r)))" "router_view V4 V6 (router st) n = Some r'"
      by (simp_all add: view split: if_splits)
    then show "configured st' r'" "n \<in> net_of ` set (allowed_ips (info (heap st' r')))"
      using routes_okD(2,3) [OF ro n(2)] by (auto simp: conf simps)
  qed
  moreover have "sessions_ok st'"
  proof (rule sessions_okI)
    fix r' i
    assume "configured st' r'" and i: "i \<in> set (get_mapped_indices (heap st' r'))"
    then have r': "configured st r'" "r' \<noteq> r" by (simp_all add: conf)
    have i': "i \<in> set (get_mapped_indices (heap st r'))" using i by (simp add: st'_def clear_peer_refs_def)
    then have "i \<notin> set (get_mapped_indices (heap st r))"
      using sessions_okD(2) [OF s configured_bound [OF m r'(1)] configured_bound [OF m r]] r'(2) by blast
    then show "map_of (index_map st') i = Some r'"
      using sessions_okD(3) [OF s r'(1) i'] by (simp add: st'_def clear_peer_refs_def)
  qed (unfold simps(1,2), (blast intro: sessions_okD(1,2) [OF s])+)
  ultimately show "wf_state V4 V6 st'" by (simp add: wf_state_def)
  show "\<not> configured st' r" by (simp add: conf)
  show "router_view V4 V6 (router st') n \<noteq> Some r"
  proof
    assume n: "router_view V4 V6 (router st') n = Some r"
    then have "n \<notin> net_of ` set (allowed_ips (info (heap st r)))" "router_view V4 V6 (router st) n = Some r"
      by (simp_all add: view split: if_splits)
    then show False using routes_okD(3) [OF ro] by blast
  qed
  show "map_of (index_map st') i = None" if "i \<in> set (get_mapped_indices (heap st r))"
    using that by (simp add: st'_def clear_peer_refs_def)
qed

lemma wf_stateD:
  assumes "wf_state V4 V6 st"
  shows "maps_ok st" "routes_ok V4 V6 st" "sessions_ok st"
  using assms by (simp_all add: wf_state_def)

lemma wf_interface:
  assumes wf: "wf_state V4 V6 st" and "\<And>k. if_pub_key i = Some k \<Longrightarrow> map_of (pubkey_map st) k = None"
  shows "wf_state V4 V6 (st\<lparr>interface_info := i\<rparr>)"
  using assms unfolding wf_state_def maps_ok_def routes_ok_def sessions_ok_def configured_def by simp

lemma wf_update_private_key:
  assumes wf: "wf_state V4 V6 st" and R: "lawful_router R V4 V6"
  shows "wf_state V4 V6 (snd (update_private_key R G key st))"
proof (cases "key = replicate 32 0")
  case True
  then show ?thesis by (auto simp: update_private_key_def intro!: wf_interface [OF wf])
next
  case False
  let ?i = "(interface_info st)\<lparr>if_private_key := Some key, if_pub_key := Some (G key)\<rparr>"
  show ?thesis
  proof (cases "map_of (pubkey_map st) (G key)")
    case None
    then show ?thesis using False by (auto simp: update_private_key_def Let_def intro!: wf_interface [OF wf])
  next
    case (Some r)
    let ?st = "clear_peer_refs R (heap st r) (st\<lparr>pubkey_map := AList.delete (G key) (pubkey_map st)\<rparr>)"
    have "wf_state V4 V6 (?st\<lparr>interface_info := ?i\<rparr>)"
      by (rule wf_interface [OF remove_configured(1) [OF wf R Some]]) (simp add: clear_peer_refs_def)
    moreover have "snd (update_private_key R G key st) = ?st\<lparr>interface_info := ?i\<rparr>"
      using False Some by (simp add: update_private_key_def Let_def clear_peer_refs_def)
    ultimately show ?thesis by simp
  qed
qed

lemma wf_remove_all:
  assumes wf: "wf_state V4 V6 st" and R: "lawful_router R V4 V6"
  shows "wf_state V4 V6 (st\<lparr>pubkey_map := [], index_map := [], router := router_clear R (router st)\<rparr>)"
  using wf unfolding wf_state_def maps_ok_def routes_ok_def sessions_ok_def configured_def
  by (simp add: router_view_clear [OF R])

text \<open>Giving the networks \<open>ips\<close> to \<open>r\<close>, whose other routes are gone.\<close>

lemma routes_ok_assign:
  assumes ro: "routes_ok V4 V6 st" and ips: "allowed_ips (info (heap st' r)) = ips" and valid: "list_all valid_net ips"
    and view: "\<And>n. router_view V4 V6 (router st') n = (if n \<in> net_of ` set ips then Some r else view n)"
    and sub: "\<And>n q. view n = Some q \<Longrightarrow> n \<notin> net_of ` set ips \<Longrightarrow> router_view V4 V6 (router st) n = Some q \<and> q \<noteq> r"
    and conf: "\<And>q. configured st' q \<longleftrightarrow> configured st q \<or> q = r"
    and others: "\<And>q. q \<noteq> r \<Longrightarrow> configured st q \<Longrightarrow> heap st' q = heap st q"
  shows "routes_ok V4 V6 st'"
proof (rule routes_okI)
  fix q
  assume "configured st' q"
  then show "list_all valid_net (allowed_ips (info (heap st' q)))"
    using routes_okD(1) [OF ro, of q] valid others [of q] ips by (cases "q = r") (simp_all add: conf)
next
  fix n q
  assume n: "router_view V4 V6 (router st') n = Some q"
  have "q = r \<and> n \<in> net_of ` set ips \<or>
      q \<noteq> r \<and> configured st q \<and> n \<in> net_of ` set (allowed_ips (info (heap st q)))"
    using n sub [of n q] routes_okD(2,3) [OF ro, of n q] by (simp add: view split: if_splits)
  then show "configured st' q" "n \<in> net_of ` set (allowed_ips (info (heap st' q)))"
    using others [of q] by (auto simp: conf ips)
qed

text \<open>Sessions untouched, new peers without any.\<close>

lemma sessions_ok_keep:
  assumes s: "sessions_ok st" and "index_map st' = index_map st" and "next_ref st \<le> next_ref st'"
    and idx: "\<And>r. r < next_ref st' \<Longrightarrow>
      get_mapped_indices (heap st' r) = (if r < next_ref st then get_mapped_indices (heap st r) else [])"
    and conf: "\<And>r. configured st' r \<Longrightarrow> r < next_ref st' \<and> (r < next_ref st \<longrightarrow> configured st r)"
  shows "sessions_ok st'"
proof (rule sessions_okI)
  fix r
  assume "r < next_ref st'"
  then show "distinct (get_mapped_indices (heap st' r))" using sessions_okD(1) [OF s, of r] by (simp add: idx)
next
  fix r r' i
  assume "r < next_ref st'" "r' < next_ref st'" "i \<in> set (get_mapped_indices (heap st' r))" "i \<in> set (get_mapped_indices (heap st' r'))"
  then show "r = r'" using sessions_okD(2) [OF s, of r r' i] by (simp add: idx split: if_splits)
next
  fix r i
  assume "configured st' r" "i \<in> set (get_mapped_indices (heap st' r))"
  then show "map_of (index_map st') i = Some r"
    using sessions_okD(3) [OF s, of r i] conf [of r] by (simp add: idx assms(2) split: if_splits)
qed

lemma wf_add_new_peer:
  assumes wf: "wf_state V4 V6 st" and R: "lawful_router R V4 V6" and valid: "list_all valid_net (allowed_ips new)"
    and fresh: "map_of (pubkey_map st) (pub_key new) = None"
  shows "wf_state V4 V6 (snd (add_new_peer C R new st))"
proof (cases "if_pub_key (interface_info st) = Some (pub_key new) \<or> length (pubkey_map st) \<ge> MAX_PEERS_PER_DEVICE")
  case True
  then show ?thesis using wf by (auto simp: add_new_peer_def)
next
  case False
  let ?r = "next_ref st" and ?p = "peer_new C new"
  define st' where "st' = snd (add_new_peer C R new st)"
  have st': "heap st' = (heap st)(?r := ?p)" "next_ref st' = ?r + 1" "pubkey_map st' = pubkey_map st @ [(pub_key new, ?r)]"
    "index_map st' = index_map st" "interface_info st' = interface_info st"
    "router st' = add_allowed_ips R (router st) (allowed_ips new) ?r"
    using False fresh by (auto simp: st'_def add_new_peer_def alloc_peer_def Let_def update_append)
  have p: "info ?p = new" "get_mapped_indices ?p = []"
    by (simp_all add: peer_new_def get_mapped_indices_def sessions_default_def index_of_def)
  note m = wf_stateD(1) [OF wf] and ro = wf_stateD(2) [OF wf] and s = wf_stateD(3) [OF wf]
  have look: "map_of (pubkey_map st') k = (if k = pub_key new then Some ?r else map_of (pubkey_map st) k)" for k
    using fresh by (auto simp: st' map_add_def split: option.splits)
  have conf: "configured st' r \<longleftrightarrow> configured st r \<or> r = ?r" for r
    unfolding configured_def look using fresh by (metis option.distinct(1) option.inject)
  have old: "r \<noteq> ?r" "r < ?r" if "configured st r" for r
    using configured_bound [OF m that] by auto
  have "wf_map (pubkey_map st')"
    using wf_map_update [OF maps_okD(1) [OF m]] fresh by (metis st'(3) update_append)
  moreover have "r < next_ref st' \<and> pub_key (info (heap st' r)) = k" if "map_of (pubkey_map st') k = Some r" for k r
    using that maps_okD(3,4) [OF m, of k r] by (auto simp: look st' p split: if_splits)
  moreover have "r < next_ref st'" if "map_of (index_map st') i = Some r" for i r
    using that maps_okD(5) [OF m, of i r] by (simp add: st')
  moreover have "map_of (pubkey_map st') k = None" if "if_pub_key (interface_info st') = Some k" for k
    using that maps_okD(6) [OF m, of k] False by (auto simp: look st'(5))
  ultimately have "maps_ok st'" using False maps_okD(2) [OF m] by (intro maps_okI) (auto simp: st'(3,4))
  moreover have "routes_ok V4 V6 st'"
  proof (rule routes_ok_assign [OF ro _ valid])
    fix n q
    assume "router_view V4 V6 (router st) n = Some q"
    then show "router_view V4 V6 (router st) n = Some q \<and> q \<noteq> ?r"
      using routes_okD(2) [OF ro, of n q] old(1) [of q] by simp
  qed (auto simp: st'(1,6) p conf router_view_add [OF R valid] dest: old(1))
  moreover have "sessions_ok st'"
    by (rule sessions_ok_keep [OF s]) (auto simp: st'(1,2,4) p conf less_Suc_eq dest: old(2))
  ultimately show ?thesis by (simp add: wf_state_def st'_def)
qed

lemma wf_update_existing:
  assumes wf: "wf_state V4 V6 st" and R: "lawful_router R V4 V6" and valid: "list_all valid_net (allowed_ips new)"
    and k: "map_of (pubkey_map st) (pub_key new) = Some r"
  shows "wf_state V4 V6 (snd (update_existing_peer R new replace r st))"
proof -
  let ?old = "allowed_ips (info (heap st r))"
  let ?ips = "allowed_ips new @ (if replace then [] else ?old)"
  define st' where "st' = snd (update_existing_peer R new replace r st)"
  define p where "p = heap st' r"
  have st': "heap st' = (heap st)(r := p)" "next_ref st' = next_ref st" "pubkey_map st' = pubkey_map st"
    "index_map st' = index_map st" "interface_info st' = interface_info st"
    and p: "sessions p = sessions (heap st r)" "pub_key (info p) = pub_key new" "allowed_ips (info p) = ?ips"
    by (simp_all add: p_def st'_def update_existing_peer_def put_peer_def Let_def)
  note m = wf_stateD(1) [OF wf] and ro = wf_stateD(2) [OF wf] and s = wf_stateD(3) [OF wf]
  have conf: "configured st' = configured st" by (simp add: configured_def st' fun_eq_iff)
  have r: "configured st r" using k by (auto simp: configured_def)
  have valid_old: "list_all valid_net ?old" by (rule routes_okD(1) [OF ro r])
  then have valid': "list_all valid_net ?ips" using valid by simp
  have view: "router_view V4 V6 (router st') n =
      (if n \<in> net_of ` set ?ips then Some r
       else if replace \<and> n \<in> net_of ` set ?old then None else router_view V4 V6 (router st) n)" for n
    using valid valid_old by (simp add: st'_def update_existing_peer_def put_peer_def Let_def
        router_view_add [OF R] router_view_remove [OF R])
  have "maps_ok st'"
    using m maps_okD(4) [OF m k] unfolding maps_ok_def by (auto simp: st' p)
  moreover have "routes_ok V4 V6 st'"
  proof (rule routes_ok_assign [OF ro _ valid' view])
    fix n q
    assume "(if replace \<and> n \<in> net_of ` set ?old then None else router_view V4 V6 (router st) n) = Some q"
      and "n \<notin> net_of ` set ?ips"
    then show "router_view V4 V6 (router st) n = Some q \<and> q \<noteq> r"
      using routes_okD(3) [OF ro, of n q] by (auto split: if_splits)
  qed (auto simp: st'(1) p conf r)
  moreover have "sessions_ok st'"
    by (rule sessions_ok_keep [OF s]) (auto simp: st'(1,2,4) p conf get_mapped_indices_def dest: configured_bound [OF m])
  ultimately show ?thesis by (simp add: wf_state_def st'_def)
qed

lemma wf_handle_update:
  assumes wf: "wf_state V4 V6 st" and R: "lawful_router R V4 V6" and valid: "valid_update event"
  shows "wf_state V4 V6 (snd (handle_update C R G event st))"
proof (cases event)
  case (UpdatePeer new replace)
  then have "list_all valid_net (allowed_ips new)" using valid by (simp add: valid_update_def)
  note wf_update_existing [OF wf R this] wf_add_new_peer [OF wf R this]
  then show ?thesis by (auto simp: UpdatePeer handle_update_def split: option.splits prod.splits dest!: sndI)
next
  case (RemovePeer k)
  then show ?thesis
    using remove_configured(1) [OF wf R] wf by (auto simp: handle_update_def split: option.splits)
qed (use wf_update_private_key [OF wf R] wf_remove_all [OF wf R] maps_okD(6) [OF wf_stateD(1) [OF wf]] in
    \<open>auto simp: handle_update_def intro!: wf_interface [OF wf]\<close>)

lemma wf_apply_updates:
  assumes "wf_state V4 V6 st" and "lawful_router R V4 V6" and "list_all valid_update events"
  shows "wf_state V4 V6 (snd (snd (apply_updates C R G events st)))"
  using assms(1,3)
proof (induction events arbitrary: st)
  case (Cons event events)
  have "wf_state V4 V6 (snd (handle_update C R G event st))"
    using wf_handle_update [OF Cons.prems(1) assms(2)] Cons.prems(2) by simp
  then show ?case using Cons.IH Cons.prems(2)
    by (cases "handle_update C R G event st") (auto split: sum.splits prod.splits dest!: sndI)
qed simp

lemma wf_state_default:
  assumes "lawful_router R V4 V6"
  shows "wf_state V4 V6 (state_default C R)"
  using assms by (simp add: wf_state_def maps_ok_def routes_ok_def sessions_ok_def configured_def state_default_def
      router_view_default interface_info_default_def)

section \<open>Properties\<close>

text \<open>A state with two peers that list the same network, for the witnesses.\<close>

definition listed :: "u8 \<Rightarrow> (ip_addr \<times> u32) list \<Rightarrow> peer_info" where
  "listed k ips = peer_info_default\<lparr>pub_key := [k], allowed_ips := ips\<rparr>"

definition two_peers :: "(clear_session, ((32 word \<times> nat) \<times> peer_ref) list, ((128 word \<times> nat) \<times> peer_ref) list) state" where
  "two_peers =
     snd (snd (apply_updates test_crypto alist_router id
       [UpdatePeer (listed 1 [(IpV4 0x0A000000, 8)]) False, UpdatePeer (listed 2 [(IpV4 0x0A000000, 8)]) True]
       (state_default test_crypto alist_router)))"

lemma wf_two_peers: "wf_state map_of map_of two_peers"
  unfolding two_peers_def
  by (rule wf_apply_updates [OF wf_state_default [OF lawful_alist_router] lawful_alist_router])
    (simp add: valid_update_def listed_def valid_net_def)

lemma two_peers_simps [simp]:
  "pubkey_map two_peers = [([1], 0), ([2], 1)]" "next_ref two_peers = 2"
  "info (heap two_peers 0) = listed 1 [(IpV4 0x0A000000, 8)]" "info (heap two_peers 1) = listed 2 [(IpV4 0x0A000000, 8)]"
  by (simp_all add: two_peers_def handle_update_def add_new_peer_def alloc_peer_def state_default_def listed_def
      interface_info_default_def MAX_PEERS_PER_DEVICE_def peer_new_def Let_def)

text \<open>C11: an update fails exactly when it removes a peer that is not there or adds a peer to a full device
  that does not have its key and is not that peer itself; a failed update leaves the state as it was.\<close>

theorem handle_update_errors:
  "case handle_update C R G event st of
     (Inl e, st') \<Rightarrow> st' = st \<and>
       ((\<exists>k. event = RemovePeer k \<and> map_of (pubkey_map st) k = None \<and> e = Err ''trying to remove nonexistent peer'') \<or>
        (\<exists>new replace. event = UpdatePeer new replace \<and> map_of (pubkey_map st) (pub_key new) = None \<and>
           if_pub_key (interface_info st) \<noteq> Some (pub_key new) \<and> MAX_PEERS_PER_DEVICE \<le> length (pubkey_map st) \<and>
           e = Err ''already at max peers per device''))
   | (Inr _, _) \<Rightarrow>
       (\<forall>k. event = RemovePeer k \<longrightarrow> map_of (pubkey_map st) k \<noteq> None) \<and>
       (\<forall>new replace. event = UpdatePeer new replace \<longrightarrow> map_of (pubkey_map st) (pub_key new) \<noteq> None \<or>
          if_pub_key (interface_info st) = Some (pub_key new) \<or> length (pubkey_map st) < MAX_PEERS_PER_DEVICE)"
  by (cases event)
    (auto simp: handle_update_def update_private_key_def update_existing_peer_def add_new_peer_def alloc_peer_def Let_def
      split: option.splits)

theorem handle_update_errors_witness:
  "case handle_update test_crypto alist_router id (RemovePeer [3]) two_peers of
     (Inl e, st') \<Rightarrow> st' = two_peers \<and> e = Err ''trying to remove nonexistent peer''
   | (Inr _, _) \<Rightarrow> False"
  using handle_update_errors [where C = test_crypto and R = alist_router and G = id and event = "RemovePeer [3]" and st = two_peers] by (auto split: prod.splits sum.splits)

text \<open>C8: removing a configured peer succeeds, and afterwards the peer is not configured, no address is
  routed to it, none of its sessions' indices is in the index map, and the other peers are kept.\<close>

theorem removed_peer_unreachable:
  assumes wf: "wf_state V4 V6 st" and R: "lawful_router R V4 V6" and k: "map_of (pubkey_map st) k = Some r"
  shows "\<exists>st'. handle_update C R G (RemovePeer k) st = (Inr None, st') \<and> wf_state V4 V6 st' \<and>
    (\<forall>q. configured st' q \<longleftrightarrow> configured st q \<and> q \<noteq> r) \<and>
    (\<forall>ip. get_peer_from_ip R (router st') ip \<noteq> Some r) \<and>
    (\<forall>i. i \<in> set (get_mapped_indices (heap st r)) \<longrightarrow> map_of (index_map st') i = None)"
proof -
  let ?st = "clear_peer_refs R (heap st r) (st\<lparr>pubkey_map := AList.delete k (pubkey_map st)\<rparr>)"
  note removed = remove_configured [OF wf R k]
  have "get_peer_from_ip R (router ?st) ip \<noteq> Some r" for ip
    using get_peer_covered [OF R, of "router ?st" ip r] removed(3) by metis
  moreover have "configured ?st q \<longleftrightarrow> configured st q \<and> q \<noteq> r" for q
    using configured_delete [OF wf_stateD(1) [OF wf] k, of q] by (simp add: configured_def clear_peer_refs_def)
  moreover have "handle_update C R G (RemovePeer k) st = (Inr None, ?st)" by (simp add: handle_update_def k)
  ultimately show ?thesis using removed(1,4) by blast
qed

theorem removed_peer_unreachable_witness:
  "\<exists>st'. handle_update test_crypto alist_router id (RemovePeer [1]) two_peers = (Inr None, st') \<and>
     \<not> configured st' 0 \<and> configured st' 1 \<and> get_peer_from_ip alist_router (router st') (IpV4 0x0A000001) \<noteq> Some 0"
proof -
  have "map_of (pubkey_map two_peers) [1] = Some 0" by simp
  from removed_peer_unreachable [OF wf_two_peers lawful_alist_router this, of test_crypto id] obtain st' where
    "handle_update test_crypto alist_router id (RemovePeer [1]) two_peers = (Inr None, st')"
    "configured st' 0 \<longleftrightarrow> configured two_peers 0 \<and> (0 :: nat) \<noteq> 0" "configured st' 1 \<longleftrightarrow> configured two_peers 1 \<and> (1 :: nat) \<noteq> 0"
    "get_peer_from_ip alist_router (router st') (IpV4 0x0A000001) \<noteq> Some 0" by blast
  moreover have "configured two_peers 1" by (auto simp: configured_def intro!: exI [of _ "[2]"])
  ultimately show ?thesis by (intro exI [of _ st']) simp
qed

text \<open>C12: routes are removed by network, not by owner: removing a peer deletes the route of every network it
  lists, also where another configured peer lists the network and owns the route.\<close>

theorem remove_unroutes_shared_network:
  assumes wf: "wf_state V4 V6 st" and R: "lawful_router R V4 V6" and k: "map_of (pubkey_map st) k = Some r"
    and n: "n \<in> set (allowed_ips (info (heap st r)))" "n \<in> set (allowed_ips (info (heap st q)))"
    and q: "configured st q" "q \<noteq> r"
  shows "let st' = snd (handle_update C R G (RemovePeer k) st)
    in configured st' q \<and> n \<in> set (allowed_ips (info (heap st' q))) \<and> router_view V4 V6 (router st') (net_of n) = None"
proof -
  let ?st = "clear_peer_refs R (heap st r) (st\<lparr>pubkey_map := AList.delete k (pubkey_map st)\<rparr>)"
  have "configured st r" using k by (auto simp: configured_def)
  note valid = routes_okD(1) [OF wf_stateD(2) [OF wf] this]
  have "configured ?st q"
    using configured_delete [OF wf_stateD(1) [OF wf] k, of q] q by (simp add: configured_def clear_peer_refs_def)
  then show ?thesis using n
    by (simp add: handle_update_def k Let_def clear_peer_refs_def router_view_remove [OF R valid])
qed

theorem remove_unroutes_shared_network_witness:
  "let st' = snd (handle_update test_crypto alist_router id (RemovePeer [1]) two_peers)
   in configured st' 1 \<and> (IpV4 0x0A000000, 8) \<in> set (allowed_ips (info (heap st' 1))) \<and>
      router_view map_of map_of (router st') (net_of (IpV4 0x0A000000, 8)) = None"
  by (rule remove_unroutes_shared_network [OF wf_two_peers lawful_alist_router, of "[1]" 0])
    (auto simp: listed_def configured_def simp del: One_nat_def intro!: exI [of _ "[2]"])

end
