(* ===== verification/NetText.thy ===== *)
theory NetText
  imports Text
begin

text \<open>
  The text form of addresses in the standard library (\<open>std::net\<close>), which the configuration protocol reads
  with \<open>parse\<close> and writes with \<open>to_string\<close> and \<open>{}\<close>. The parsers work by recursive descent on the text
  that is left: a parser that fails leaves it unread. Printing an address and parsing the text gives the
  address back.
\<close>

section \<open>Parsing\<close>

type_synonym 'a parser = "string \<Rightarrow> ('a \<times> string) option"

fun read_given_char :: "char \<Rightarrow> string \<Rightarrow> string option" where
  "read_given_char c [] = None"
| "read_given_char c (x # s) = (if x = c then Some s else None)"

text \<open>Digits up to the first other character: at least one, at most \<open>max_digits\<close>, with a value below
  \<open>bound\<close>.\<close>

fun read_number_from :: "nat \<Rightarrow> nat \<Rightarrow> nat \<Rightarrow> nat \<Rightarrow> nat \<Rightarrow> nat parser" where
  "read_number_from radix max_digits bound r digit_count [] = (if digit_count = 0 then None else Some (r, []))"
| "read_number_from radix max_digits bound r digit_count (c # s) =
     (case char_digit radix c of
        Some d \<Rightarrow>
          if digit_count + 1 > max_digits \<or> r * radix + d \<ge> bound then None
          else read_number_from radix max_digits bound (r * radix + d) (digit_count + 1) s
      | None \<Rightarrow> if digit_count = 0 then None else Some (r, c # s))"

definition read_number :: "nat \<Rightarrow> nat \<Rightarrow> nat \<Rightarrow> nat parser" where
  "read_number radix max_digits bound s = read_number_from radix max_digits bound 0 0 s"

definition read_octet :: "nat \<Rightarrow> nat parser" where
  "read_octet i s = Option.bind (if i = 0 then Some s else read_given_char CHR ''.'' s) (read_number 10 3 256)"

definition read_ipv4_addr :: "(nat \<times> nat) parser" where
  "read_ipv4_addr s =
     Option.bind (read_octet 0 s) (\<lambda>(a, s).
     Option.bind (read_octet 1 s) (\<lambda>(b, s).
     Option.bind (read_octet 2 s) (\<lambda>(c, s).
     Option.bind (read_octet 3 s) (\<lambda>(d, s). Some ((a * 256 + b, c * 256 + d), s)))))"

text \<open>The groups of an IPv6 address from group \<open>i\<close> on, with \<open>n\<close> groups to go; the flag tells that the
  last two were written as an IPv4 address.\<close>

definition read_separator :: "nat \<Rightarrow> string \<Rightarrow> string option" where
  "read_separator i s = (if i = 0 then Some s else read_given_char CHR '':'' s)"

fun read_groups :: "nat \<Rightarrow> nat \<Rightarrow> string \<Rightarrow> nat list \<times> bool \<times> string" where
  "read_groups i 0 s = ([], False, s)"
| "read_groups i (Suc n) s =
     (case (if 0 < n then Option.bind (read_separator i s) read_ipv4_addr else None) of
        Some ((hi, lo), s') \<Rightarrow> ([hi, lo], True, s')
      | None \<Rightarrow>
          (case Option.bind (read_separator i s) (read_number 16 4 65536) of
             Some (g, s') \<Rightarrow> (let (gs, ipv4, s'') = read_groups (i + 1) n s' in (g # gs, ipv4, s''))
           | None \<Rightarrow> ([], False, s)))"

definition read_ipv6_addr :: "nat list parser" where
  "read_ipv6_addr s =
     (let (head, head_ipv4, s) = read_groups 0 8 s in
      if length head = 8 then Some (head, s)
      else if head_ipv4 then None
      else
        Option.bind (read_given_char CHR '':'' s) (\<lambda>s.
        Option.bind (read_given_char CHR '':'' s) (\<lambda>s.
          let (tail, _, s) = read_groups 0 (8 - length head) s
          in Some (head @ replicate (8 - length head - length tail) 0 @ tail, s))))"

definition group_value :: "nat list \<Rightarrow> nat" where
  "group_value gs = foldl (\<lambda>v g. v * 65536 + g) 0 gs"

definition read_ipv4 :: "32 word parser" where
  "read_ipv4 s = map_option (\<lambda>((hi, lo), s). (of_nat (group_value [hi, lo]), s)) (read_ipv4_addr s)"

definition read_ipv6 :: "128 word parser" where
  "read_ipv6 s = map_option (\<lambda>(gs, s). (of_nat (group_value gs), s)) (read_ipv6_addr s)"

definition read_ip_addr :: "ip_addr parser" where
  "read_ip_addr s =
     (case read_ipv4 s of
        Some (a, s) \<Rightarrow> Some (IpV4 a, s)
      | None \<Rightarrow> map_option (\<lambda>(a, s). (IpV6 a, s)) (read_ipv6 s))"

definition read_port :: "u16 parser" where
  "read_port s =
     Option.bind (read_given_char CHR '':'' s) (\<lambda>s. map_option (\<lambda>(n, s). (of_nat n, s)) (read_number 10 5 65536 s))"

definition read_socket_addr :: "socket_addr parser" where
  "read_socket_addr s =
     (case Option.bind (read_ipv4 s) (\<lambda>(a, s). map_option (\<lambda>(p, s). (SocketAddrV4 a p, s)) (read_port s)) of
        Some x \<Rightarrow> Some x
      | None \<Rightarrow>
          Option.bind (read_given_char CHR ''['' s) (\<lambda>s.
          Option.bind (read_ipv6 s) (\<lambda>(a, s).
          Option.bind (read_given_char CHR '']'' s) (\<lambda>s.
            map_option (\<lambda>(p, s). (SocketAddrV6 a p 0 0, s)) (read_port s)))))"

definition read_till_eof :: "string \<Rightarrow> 'a parser \<Rightarrow> string \<Rightarrow> 'a result" where
  "read_till_eof message p s = (case p s of Some (x, []) \<Rightarrow> Inr x | _ \<Rightarrow> Inl (Err message))"

definition parse_ip_addr :: "string \<Rightarrow> ip_addr result" where
  "parse_ip_addr = read_till_eof ''invalid IP address syntax'' read_ip_addr"

definition parse_socket_addr :: "string \<Rightarrow> socket_addr result" where
  "parse_socket_addr = read_till_eof ''invalid IP address syntax'' read_socket_addr"

section \<open>Printing\<close>

definition ipv4_string :: "nat \<Rightarrow> nat \<Rightarrow> string" where
  "ipv4_string hi lo =
     dec (hi div 256) @ ''.'' @ dec (hi mod 256) @ ''.'' @ dec (lo div 256) @ ''.'' @ dec (lo mod 256)"

text \<open>The 16 bit groups of an address, the most significant first.\<close>

fun groups :: "nat \<Rightarrow> nat \<Rightarrow> nat list" where
  "groups 0 v = []"
| "groups (Suc n) v = groups n (v div 65536) @ [v mod 65536]"

text \<open>The first of the longest runs of zero groups, as its start and length.\<close>

fun find_zero_slice :: "nat \<Rightarrow> nat list \<Rightarrow> nat \<times> nat \<Rightarrow> nat \<times> nat \<Rightarrow> nat \<times> nat" where
  "find_zero_slice i [] longest cur = longest"
| "find_zero_slice i (g # gs) (longest_at, longest_len) (cur_at, cur_len) =
     (if g = 0 then
        let cur_at = (if cur_len = 0 then i else cur_at);
            cur_len = cur_len + 1
        in find_zero_slice (i + 1) gs (if cur_len > longest_len then (cur_at, cur_len) else (longest_at, longest_len))
             (cur_at, cur_len)
      else find_zero_slice (i + 1) gs (longest_at, longest_len) (0, 0))"

fun groups_string :: "nat list \<Rightarrow> string" where
  "groups_string [] = []"
| "groups_string [g] = lower_hex g"
| "groups_string (g # gs) = lower_hex g @ '':'' @ groups_string gs"

definition ipv6_string :: "nat list \<Rightarrow> string" where
  "ipv6_string gs =
     (let (zeros_at, zeros_len) = find_zero_slice 0 gs (0, 0) (0, 0) in
      if gs = replicate 8 0 then ''::''
      else if gs = replicate 7 0 @ [1] then ''::1''
      else if take 6 gs = replicate 6 0 then ''::'' @ ipv4_string (gs ! 6) (gs ! 7)
      else if take 6 gs = replicate 5 0 @ [0xFFFF] then ''::ffff:'' @ ipv4_string (gs ! 6) (gs ! 7)
      else if zeros_len > 1 then
        groups_string (take zeros_at gs) @ ''::'' @ groups_string (drop (zeros_at + zeros_len) gs)
      else groups_string gs)"

definition ip_string :: "ip_addr \<Rightarrow> string" where
  "ip_string ip =
     (case ip of
        IpV4 a \<Rightarrow> ipv4_string (unat a div 65536) (unat a mod 65536)
      | IpV6 a \<Rightarrow> ipv6_string (groups 8 (unat a)))"

section \<open>Reading printed numbers\<close>

definition stops :: "nat \<Rightarrow> string \<Rightarrow> bool" where
  "stops b s \<longleftrightarrow> (case s of [] \<Rightarrow> True | c # _ \<Rightarrow> char_digit b c = None)"

lemma stops_simps [simp]: "stops b []" "stops b (c # s) \<longleftrightarrow> char_digit b c = None"
  by (simp_all add: stops_def)

lemma read_number_from_printed:
  assumes "2 \<le> b" "b \<le> 16"
  shows "n < bound \<Longrightarrow> length (radix_string b n) \<le> m \<Longrightarrow>
    read_number_from b m bound 0 0 (radix_string b n @ s) = read_number_from b m bound n (length (radix_string b n)) s"
proof (induction n arbitrary: s rule: less_induct)
  case (less n)
  from assms(1) show ?case
  proof (rule radix_string_cases [of b n])
    assume "n < b" "radix_string b n = [digit_char n]"
    then show ?thesis using less.prems assms(2) by simp
  next
    assume n: "radix_string b n = radix_string b (n div b) @ [digit_char (n mod b)]" "n div b < n" "n mod b < b"
      "n div b * b + n mod b = n"
    have "read_number_from b m bound 0 0 (radix_string b (n div b) @ digit_char (n mod b) # s) =
        read_number_from b m bound (n div b) (length (radix_string b (n div b))) (digit_char (n mod b) # s)"
      using less.IH [OF n(2)] less.prems n(1,2) by simp
    then show ?thesis using less.prems assms(2) n(1,3,4) by simp
  qed
qed

lemma read_number_printed:
  assumes "2 \<le> b" "b \<le> 16" "n < bound" "bound \<le> b ^ m" "0 < m" "stops b s"
  shows "read_number b m bound (radix_string b n @ s) = Some (n, s)"
proof -
  have "length (radix_string b n) \<le> m" using length_radix_string [of b n m] assms by linarith
  then show ?thesis using assms read_number_from_printed [of b n bound m s] by (cases s) (simp_all add: read_number_def)
qed

lemma read_octet_printed:
  assumes "n < 256" "stops 10 s"
  shows "read_octet 0 (dec n @ s) = Some (n, s)" "0 < i \<Longrightarrow> read_octet i (CHR ''.'' # dec n @ s) = Some (n, s)"
  using assms read_number_printed [of 10 n 256 3 s] by (simp_all add: read_octet_def)

lemma char_digit_separators [simp]:
  "char_digit b CHR ''.'' = None" "char_digit b CHR '':'' = None" "char_digit b CHR '']'' = None" "char_digit b CHR ''/'' = None"
  by (simp_all add: char_digit_def)

lemma read_ipv4_addr_printed:
  assumes "hi < 65536" "lo < 65536" "stops 10 s"
  shows "read_ipv4_addr (ipv4_string hi lo @ s) = Some ((hi, lo), s)"
proof -
  have "hi div 256 < 256" "lo div 256 < 256" using assms by simp_all
  then show ?thesis using assms(3) by (simp add: read_ipv4_addr_def ipv4_string_def read_octet_printed)
qed

lemma read_number_from_suffix: "read_number_from b m bound r k s = Some (x, s') \<Longrightarrow> \<exists>p. s = p @ s'"
  by (induction s arbitrary: r k) (auto split: if_splits option.splits, (metis append_Cons)+)

lemma read_ipv4_addr_no_dot:
  assumes "CHR ''.'' \<notin> set s"
  shows "read_ipv4_addr s = None"
proof (cases "read_octet 0 s")
  case None
  then show ?thesis by (simp add: read_ipv4_addr_def)
next
  case (Some x)
  then obtain p where "s = p @ snd x"
    using read_number_from_suffix by (cases x) (fastforce simp: read_octet_def read_number_def)
  then have "read_octet 1 (snd x) = None" using assms by (cases "snd x") (auto simp: read_octet_def)
  then show ?thesis using Some by (simp add: read_ipv4_addr_def case_prod_beta)
qed

lemma read_nothing [simp]:
  "read_number b m bound [] = None" "read_number b m bound (CHR '':'' # s) = None"
  "read_ipv4_addr [] = None" "read_ipv4_addr (CHR '':'' # s) = None"
  by (simp_all add: read_number_def read_ipv4_addr_def read_octet_def)

section \<open>Reading printed groups\<close>

definition sep_groups :: "nat list \<Rightarrow> string" where
  "sep_groups gs = concat (map (\<lambda>g. CHR '':'' # lower_hex g) gs)"

lemma sep_groups_simps [simp]: "sep_groups [] = []" "sep_groups (g # gs) = CHR '':'' # lower_hex g @ sep_groups gs"
  by (simp_all add: sep_groups_def)

lemma groups_string_Cons: "groups_string (g # gs) = lower_hex g @ sep_groups gs"
proof (induction gs arbitrary: g)
  case (Cons h gs)
  show ?case using Cons [of h] by simp
qed simp

lemma hex_no_separator: "c \<in> {CHR ''.'', CHR '':'', CHR ''['', newline, CHR ''='', CHR ''/''} \<Longrightarrow> c \<notin> set (radix_string 16 n)"
  by (rule radix_string_no_separator) auto

lemma dec_no_separator: "c \<in> {CHR ''.'', CHR '':'', CHR ''['', newline, CHR ''='', CHR ''/''} \<Longrightarrow> c \<notin> set (radix_string 10 n)"
  by (rule radix_string_no_separator) auto

lemma groups_no_separator:
  assumes "c \<in> {CHR ''.'', CHR ''['', newline, CHR ''='', CHR ''/''}"
  shows "c \<notin> set (groups_string gs)" "c \<notin> set (sep_groups gs)"
proof -
  show "c \<notin> set (sep_groups gs)" using assms hex_no_separator [of c] by (induction gs) auto
  then show "c \<notin> set (groups_string gs)"
    using assms hex_no_separator [of c] by (cases gs) (auto simp: groups_string_Cons sep_groups_def)
qed

text \<open>What follows the groups of an address: the end of the text or \<open>::\<close>.\<close>

definition group_end :: "string \<Rightarrow> bool" where
  "group_end s \<longleftrightarrow> s = [] \<or> (\<exists>r. s = CHR '':'' # CHR '':'' # r)"

lemma group_end_stops: "group_end s \<Longrightarrow> stops 16 s"
  by (auto simp: group_end_def)

lemma read_sep_groups:
  assumes "group_end s" and "CHR ''.'' \<notin> set s"
  shows "0 < i \<Longrightarrow> list_all (\<lambda>g. g < 65536) gs \<Longrightarrow> length gs \<le> n \<Longrightarrow> read_groups i n (sep_groups gs @ s) = (gs, False, s)"
proof (induction gs arbitrary: i n)
  case Nil
  then show ?case using assms(1)
    by (cases n) (auto simp: group_end_def read_separator_def)
next
  case (Cons g gs)
  from Cons.prems(3) obtain k where n: "n = Suc k" by (cases n) auto
  have dot: "CHR ''.'' \<notin> set (lower_hex g @ sep_groups gs @ s)"
    using assms(2) hex_no_separator [of "CHR ''.''"] groups_no_separator(2) [of "CHR ''.''"] by auto
  have "stops 16 (sep_groups gs @ s)" using group_end_stops [OF assms(1)] by (cases gs) simp_all
  then have "read_number 16 4 65536 (lower_hex g @ sep_groups gs @ s) = Some (g, sep_groups gs @ s)"
    using Cons.prems(2) by (intro read_number_printed) simp_all
  then show ?case
    using Cons n read_ipv4_addr_no_dot [OF dot] by (auto simp: read_separator_def)
qed

lemma read_groups_printed:
  assumes "group_end s" and "CHR ''.'' \<notin> set s" and "list_all (\<lambda>g. g < 65536) gs" and "length gs \<le> n"
  shows "read_groups 0 n (groups_string gs @ s) = (gs, False, s)"
proof (cases gs)
  case Nil
  then show ?thesis using assms(1) by (cases n) (auto simp: group_end_def read_separator_def)
next
  case (Cons g hs)
  from assms(4) Cons obtain k where n: "n = Suc k" by (cases n) auto
  have dot: "CHR ''.'' \<notin> set (lower_hex g @ sep_groups hs @ s)"
    using assms(2) hex_no_separator [of "CHR ''.''"] groups_no_separator(2) [of "CHR ''.''"] by auto
  have "stops 16 (sep_groups hs @ s)" using group_end_stops [OF assms(1)] by (cases hs) simp_all
  then have "read_number 16 4 65536 (lower_hex g @ sep_groups hs @ s) = Some (g, sep_groups hs @ s)"
    using assms(3) Cons by (intro read_number_printed) simp_all
  then show ?thesis
    using Cons n read_ipv4_addr_no_dot [OF dot] assms read_sep_groups [OF assms(1,2), of 1 hs k]
    by (auto simp: read_separator_def groups_string_Cons)
qed

section \<open>The groups of an address\<close>

lemma length_groups [simp]: "length (groups n v) = n"
  by (induction n arbitrary: v) simp_all

lemma groups_bound: "list_all (\<lambda>g. g < 65536) (groups n v)"
  by (induction n arbitrary: v) simp_all

lemma group_value_groups: "group_value (groups n v) = v mod 65536 ^ n"
proof (induction n arbitrary: v)
  case (Suc n)
  then show ?case by (simp add: group_value_def mod_mult2_eq)
qed (simp add: group_value_def)

definition zero_run :: "nat list \<Rightarrow> nat \<times> nat \<Rightarrow> bool" where
  "zero_run gs = (\<lambda>(a, l). l = 0 \<or> a + l \<le> length gs \<and> (\<forall>k < l. gs ! (a + k) = 0))"

lemma find_zero_slice_run:
  "find_zero_slice i gs longest cur = res \<Longrightarrow> drop i all_groups = gs \<Longrightarrow> zero_run all_groups longest \<Longrightarrow>
     zero_run all_groups cur \<Longrightarrow> (snd cur = 0 \<or> fst cur + snd cur = i) \<Longrightarrow> zero_run all_groups res"
proof (induction i gs longest cur rule: find_zero_slice.induct)
  case (2 i g gs la ll ca cl)
  have i: "i < length all_groups" "all_groups ! i = g" "drop (i + 1) all_groups = gs"
    using "2.prems"(2) by (metis drop_all linorder_not_le list.discI, simp add: nth_via_drop, simp add: drop_Suc tl_drop [symmetric])
  show ?case
  proof (cases "g = 0")
    case True
    let ?c = "(if cl = 0 then i else ca, cl + 1)"
    have run: "zero_run all_groups ?c"
      using "2.prems"(4,5) i True by (auto simp: zero_run_def less_Suc_eq)
    show ?thesis using 2(1) [OF True refl refl _ i(3)] "2.prems" True run by (auto simp: Let_def)
  next
    case False
    then show ?thesis using 2(2) [OF False _ i(3)] "2.prems" by (auto simp: zero_run_def)
  qed
qed auto

lemma zero_run_split: "zero_run gs (a, l) \<Longrightarrow> take a gs @ replicate l 0 @ drop (a + l) gs = gs"
  by (rule nth_equalityI) (auto simp: zero_run_def nth_append nth_drop min_def add.commute dest: spec [of _ "_ - a"])

section \<open>Printing and parsing\<close>

lemma read_groups_nothing [simp]: "read_groups 0 n [] = ([], False, [])" "read_groups 0 n (CHR '':'' # s) = ([], False, CHR '':'' # s)"
  by (cases n; simp add: read_separator_def)+

lemma read_groups_ipv4:
  assumes "1 < n" "hi < 65536" "lo < 65536"
  shows "read_groups 0 n (ipv4_string hi lo) = ([hi, lo], True, [])"
  using assms read_ipv4_addr_printed [of hi lo "[]"] by (cases n) (auto simp: read_separator_def)

lemma read_groups_mapped:
  assumes "2 < n" "hi < 65536" "lo < 65536"
  shows "read_groups 0 n (''ffff:'' @ ipv4_string hi lo) = ([0xFFFF, hi, lo], True, [])"
proof -
  from assms(1) obtain k where n: "n = Suc (Suc (Suc k))" by (metis Suc_less_eq2 numeral_2_eq_2 gr0_implies_Suc zero_less_Suc)
  have "read_ipv4_addr (''ffff:'' @ t) = None" for t
    by (simp add: read_ipv4_addr_def read_octet_def read_number_def char_digit_def)
  moreover have "read_number 16 4 65536 (''ffff:'' @ t) = Some (65535, CHR '':'' # t)" for t
    by (simp add: read_number_def char_digit_def)
  ultimately show ?thesis
    using assms read_ipv4_addr_printed [of hi lo "[]"] by (simp add: n read_separator_def)
qed

lemma digit_char_1: "digit_char (Suc 0) = CHR ''1''"
  by (rule of_char_eqI [where ?'a = nat]) (simp add: digit_char_def)

lemma read_compressed:
  assumes "read_groups 0 (8 - length head) t = (tail, v4, [])" and "length head + length tail < 8"
    and "read_groups 0 8 (h @ CHR '':'' # CHR '':'' # t) = (head, False, CHR '':'' # CHR '':'' # t)"
  shows "read_ipv6_addr (h @ CHR '':'' # CHR '':'' # t) =
    Some (head @ replicate (8 - length head - length tail) 0 @ tail, [])"
  using assms by (simp add: read_ipv6_addr_def)

lemma list8: "length gs = 8 \<Longrightarrow> gs = take 6 gs @ [gs ! 6, gs ! 7]"
  by (rule nth_equalityI) (auto simp: nth_append nth_Cons' less_Suc_eq numeral_eq_Suc)

lemma read_ipv6_printed:
  assumes "length gs = 8" and bound: "list_all (\<lambda>g. g < 65536) gs"
  shows "read_ipv6_addr (ipv6_string gs) = Some (gs, [])"
proof -
  obtain a l where z: "find_zero_slice 0 gs (0, 0) (0, 0) = (a, l)" by fastforce
  have run: "zero_run gs (a, l)" by (rule find_zero_slice_run [OF z]) (simp_all add: zero_run_def)
  have last: "gs ! 6 < 65536" "gs ! 7 < 65536" using assms by (simp_all add: list_all_length)
  have one: "read_groups 0 8 [CHR ''1''] = ([1], False, [])"
    using read_groups_printed [of "[]" "[1]" 8] digit_char_1 by (simp add: group_end_def radix_string.simps)
  consider "gs = replicate 8 0" | "gs = replicate 7 0 @ [1]"
    | "gs \<noteq> replicate 8 0" "gs \<noteq> replicate 7 0 @ [1]" "take 6 gs = replicate 6 0"
    | "gs \<noteq> replicate 8 0" "gs \<noteq> replicate 7 0 @ [1]" "take 6 gs \<noteq> replicate 6 0" "take 6 gs = replicate 5 0 @ [0xFFFF]"
    | "gs \<noteq> replicate 8 0" "gs \<noteq> replicate 7 0 @ [1]" "take 6 gs \<noteq> replicate 6 0" "take 6 gs \<noteq> replicate 5 0 @ [0xFFFF]"
    by blast
  then show ?thesis
  proof cases
    case 1
    then show ?thesis using read_compressed [of "[]" "[]" "[]" False "[]"] by (simp add: ipv6_string_def)
  next
    case 2
    then have "gs \<noteq> replicate 8 0" by (simp add: numeral_eq_Suc)
    then have "ipv6_string gs = ''::1''" by (simp del: One_nat_def add: ipv6_string_def z 2 [symmetric])
    then show ?thesis using read_compressed [of "[]" "''1''" "[1]" False "[]"] one 2 by simp
  next
    case 3
    then have "ipv6_string gs = ''::'' @ ipv4_string (gs ! 6) (gs ! 7)" by (simp add: ipv6_string_def z)
    moreover have "gs = replicate 6 0 @ [gs ! 6, gs ! 7]" using list8 [OF assms(1)] 3(3) by simp
    ultimately show ?thesis
      using read_compressed [of "[]" "ipv4_string (gs ! 6) (gs ! 7)" "[gs ! 6, gs ! 7]" True "[]"] read_groups_ipv4 [of 8, OF _ last]
      by simp
  next
    case 4
    then have "ipv6_string gs = ''::ffff:'' @ ipv4_string (gs ! 6) (gs ! 7)" by (simp add: ipv6_string_def z)
    moreover have "gs = replicate 5 0 @ [0xFFFF, gs ! 6, gs ! 7]" using list8 [OF assms(1)] 4(4) by simp
    ultimately show ?thesis
      using read_compressed [of "[]" "''ffff:'' @ ipv4_string (gs ! 6) (gs ! 7)" "[0xFFFF, gs ! 6, gs ! 7]" True "[]"]
        read_groups_mapped [of 8, OF _ last]
      by simp
  next
    case 5
    then have eq: "ipv6_string gs = (if l > 1 then groups_string (take a gs) @ ''::'' @ groups_string (drop (a + l) gs)
        else groups_string gs)" by (simp add: ipv6_string_def z)
    show ?thesis
    proof (cases "l > 1")
      case True
      let ?h = "take a gs" and ?t = "drop (a + l) gs"
      have len: "length ?h = a" "length ?t = 8 - (a + l)" "a + l \<le> 8" using run True assms(1) by (auto simp: zero_run_def)
      have b: "list_all (\<lambda>g. g < 65536) ?h" "list_all (\<lambda>g. g < 65536) ?t"
        using bound by (auto simp: list_all_iff dest: in_set_takeD in_set_dropD)
      have dot: "CHR ''.'' \<notin> set (groups_string ?t)" by (rule groups_no_separator) simp
      have "read_groups 0 8 (groups_string ?h @ CHR '':'' # CHR '':'' # groups_string ?t) =
          (?h, False, CHR '':'' # CHR '':'' # groups_string ?t)"
        by (rule read_groups_printed) (use dot b len in \<open>simp_all add: group_end_def\<close>)
      moreover have "read_groups 0 (8 - length ?h) (groups_string ?t) = (?t, False, [])"
        using read_groups_printed [of "[]" ?t "8 - length ?h"] b len True by (simp add: group_end_def)
      ultimately show ?thesis
        using read_compressed [of ?h "groups_string ?t" ?t False "groups_string ?h"] len True zero_run_split [OF run] eq
        by simp
    next
      case False
      then show ?thesis
        using eq read_groups_printed [of "[]" gs 8] assms by (simp add: group_end_def read_ipv6_addr_def)
    qed
  qed
qed

text \<open>An IPv6 address starts with a colon or has no dot, so it is never taken for an IPv4 address.\<close>

lemma ipv6_string_shape:
  "(\<exists>r. ipv6_string gs = CHR '':'' # r) \<or> CHR ''.'' \<notin> set (ipv6_string gs) \<and> CHR ''['' \<notin> set (ipv6_string gs)"
  using groups_no_separator(1) [of "CHR ''.''"] groups_no_separator(1) [of "CHR ''[''"]
  by (auto simp: ipv6_string_def Let_def split: prod.split)

lemma read_ipv4_ipv6_string:
  assumes "CHR ''.'' \<notin> set s"
  shows "read_ipv4 (ipv6_string gs @ s) = None"
  using ipv6_string_shape [of gs] assms by (auto simp: read_ipv4_def read_ipv4_addr_no_dot)

lemma read_ipv4_printed:
  assumes "stops 10 s"
  shows "read_ipv4 (ip_string (IpV4 a) @ s) = Some (a, s)"
proof -
  have "unat a < 2 ^ 32" using unsigned_less [of a] by simp
  then have "read_ipv4_addr (ip_string (IpV4 a) @ s) = Some ((unat a div 65536, unat a mod 65536), s)"
    using read_ipv4_addr_printed [of "unat a div 65536" "unat a mod 65536" s] assms by (simp add: ip_string_def)
  moreover have "group_value [unat a div 65536, unat a mod 65536] = unat a" by (simp add: group_value_def)
  ultimately show ?thesis by (simp add: read_ipv4_def)
qed

lemma read_ipv6_ip_string: "read_ipv6 (ip_string (IpV6 a)) = Some (a, [])"
proof -
  have "unat a < 2 ^ 128" using unsigned_less [of a] by simp
  then show ?thesis
    using read_ipv6_printed [of "groups 8 (unat a)"] groups_bound [of 8 "unat a"]
    by (simp add: read_ipv6_def ip_string_def group_value_groups)
qed

lemma parse_ip_string [simp]: "parse_ip_addr (ip_string ip) = Inr ip"
proof (cases ip)
  case (IpV4 a)
  then show ?thesis using read_ipv4_printed [of "[]" a]
    by (simp add: parse_ip_addr_def read_till_eof_def read_ip_addr_def)
next
  case (IpV6 a)
  have "read_ipv4 (ip_string (IpV6 a)) = None" using read_ipv4_ipv6_string [of "[]"] by (simp add: ip_string_def)
  then show ?thesis using read_ipv6_ip_string [of a]
    by (simp add: IpV6 parse_ip_addr_def read_till_eof_def read_ip_addr_def)
qed

text \<open>The text \<open>ip:port\<close> is read as a socket address if \<open>ip\<close> is an IPv4 address, and never if it is an
  IPv6 address, which needs brackets.\<close>

lemma read_port_printed: "read_port (CHR '':'' # dec (unat p)) = Some (p, [])"
proof -
  have "unat p < 65536" using unsigned_less [of p] by simp
  then show ?thesis using read_number_printed [of 10 "unat p" 65536 5 "[]"] by (simp add: read_port_def)
qed

lemma parse_socket_ipv4: "parse_socket_addr (ip_string (IpV4 a) @ CHR '':'' # dec (unat p)) = Inr (SocketAddrV4 a p)"
  using read_ipv4_printed [of "CHR '':'' # dec (unat p)" a]
  by (simp add: parse_socket_addr_def read_till_eof_def read_socket_addr_def read_port_printed)

lemma parse_socket_ipv6:
  "parse_socket_addr (ip_string (IpV6 a) @ CHR '':'' # dec (unat p)) = Inl (Err ''invalid IP address syntax'')"
proof -
  let ?s = "ipv6_string (groups 8 (unat a))" and ?t = "CHR '':'' # dec (unat p)"
  have "CHR ''.'' \<notin> set ?t" using dec_no_separator [of "CHR ''.''"] by simp
  from read_ipv4_ipv6_string [OF this] have "read_ipv4 (?s @ ?t) = None" .
  moreover have "read_given_char CHR ''['' (?s @ ?t) = None"
    using ipv6_string_shape [of "groups 8 (unat a)"] by (cases ?s) auto
  ultimately show ?thesis by (simp add: parse_socket_addr_def read_till_eof_def read_socket_addr_def ip_string_def)
qed

text \<open>Addresses contain no separator of the configuration protocol.\<close>

lemma ip_string_no_separator:
  assumes "c \<in> {newline, CHR ''='', CHR ''/''}"
  shows "c \<notin> set (ip_string ip)"
proof -
  have "c \<notin> set (ipv4_string hi lo)" for hi lo using assms dec_no_separator [of c] by (auto simp: ipv4_string_def)
  moreover have "c \<notin> set (groups_string gs)" for gs using assms groups_no_separator(1) [of c] by auto
  ultimately show ?thesis
    using assms by (cases ip) (auto simp: ip_string_def ipv6_string_def Let_def split: prod.split)
qed

lemma ascii_ip_string: "ascii (ip_string ip)"
proof -
  have num: "ascii (dec n)" "ascii (lower_hex n)" for n by (simp_all add: ascii_radix_string)
  have "ascii (sep_groups gs)" for gs by (induction gs) (simp_all add: num)
  then have "ascii (groups_string gs)" for gs by (cases gs) (simp_all add: num groups_string_Cons)
  then show ?thesis
    by (cases ip) (auto simp: num ip_string_def ipv4_string_def ipv6_string_def Let_def split: prod.split)
qed

end
