(* ===== verification/Config.thy ===== *)
theory Config
  imports Device NetText
begin

text \<open>
  The configuration protocol of \<open>src/interface/config.rs\<close>: the pairs of a \<open>set\<close> command
  (\<open>UpdateEvent::from\<close>), the codec of the socket (\<open>ConfigurationCodec\<close>), the commands of
  \<open>ConfigurationService\<close> and the text of a peer (\<open>to_config_string\<close> of \<open>src/peer.rs\<close>). The crate \<open>hex\<close> is
  the parameter \<open>H\<close>.
\<close>

section \<open>Hexadecimal keys\<close>

record hex_ops =
  hex_encode :: "bytes \<Rightarrow> string"
  from_hex32 :: "string \<Rightarrow> bytes result"

text \<open>Decoding gives 32 bytes or an error and inverts encoding, and encoding writes lower case hexadecimal
  digits.\<close>

definition lawful_hex :: "hex_ops \<Rightarrow> bool" where
  "lawful_hex H \<longleftrightarrow>
     (\<forall>s bs. from_hex32 H s = Inr bs \<longrightarrow> length bs = 32) \<and>
     (\<forall>s e. from_hex32 H s = Inl e \<longrightarrow> (\<exists>m. e = Err m)) \<and>
     (\<forall>bs. length bs = 32 \<longrightarrow> from_hex32 H (hex_encode H bs) = Inr bs) \<and>
     (\<forall>bs. set (hex_encode H bs) \<subseteq> digit_char ` {..<16})"

section \<open>The pairs of a command\<close>

text \<open>The local variables of \<open>UpdateEvent::from\<close>.\<close>

record update_vars =
  events :: "update_event list"
  pending_peer :: bool
  remove_pending_peer :: bool
  replace_allowed_ips :: bool
  u_info :: peer_info

definition update_vars_new :: update_vars where
  "update_vars_new =
     \<lparr>events = [], pending_peer = False, remove_pending_peer = False, replace_allowed_ips = False,
      u_info = peer_info_default\<rparr>"

definition map_result :: "('a \<Rightarrow> 'b) \<Rightarrow> 'a result \<Rightarrow> 'b result" where
  "map_result f r = (case r of Inl e \<Rightarrow> Inl e | Inr x \<Rightarrow> Inr (f x))"

definition bind_result :: "'a result \<Rightarrow> ('a \<Rightarrow> 'b result) \<Rightarrow> 'b result" where
  "bind_result r f = (case r of Inl e \<Rightarrow> Inl e | Inr x \<Rightarrow> f x)"

definition push_event :: "update_event \<Rightarrow> update_vars \<Rightarrow> update_vars" where
  "push_event e v = v\<lparr>events := events v @ [e]\<rparr>"

definition set_info :: "(peer_info \<Rightarrow> peer_info) \<Rightarrow> update_vars \<Rightarrow> update_vars" where
  "set_info f v = v\<lparr>u_info := f (u_info v)\<rparr>"

definition flush_peer :: "update_vars \<Rightarrow> update_vars" where
  "flush_peer v =
     (if pending_peer v \<and> remove_pending_peer v then push_event (RemovePeer (pub_key (u_info v))) v
      else if pending_peer v then push_event (UpdatePeer (u_info v) (replace_allowed_ips v)) v
      else v)"

definition parse_allowed_ip :: "string \<Rightarrow> (ip_addr \<times> u32) result" where
  "parse_allowed_ip s =
     (if CHR ''/'' \<notin> set s then Inl (Err ''ip/cidr format error'')
      else
        let ip = takeWhile (\<lambda>c. c \<noteq> CHR ''/'') s; cidr = dropWhile (\<lambda>c. c \<noteq> CHR ''/'') s in
        bind_result (parse_ip_addr ip) (\<lambda>ip.
        bind_result (parse_uint (2 ^ 32) (drop 1 cidr)) (\<lambda>cidr. Inr (ip, of_nat cidr))))"

definition update_item :: "hex_ops \<Rightarrow> string \<times> string \<Rightarrow> update_vars \<Rightarrow> update_vars result" where
  "update_item H = (\<lambda>(key, s) v.
     if key = ''private_key'' then map_result (\<lambda>k. push_event (PrivateKey k) v) (from_hex32 H s)
     else if key = ''listen_port'' then map_result (\<lambda>n. push_event (ListenPort (of_nat n)) v) (parse_uint (2 ^ 16) s)
     else if key = ''fwmark'' then map_result (\<lambda>n. push_event (Fwmark (of_nat n)) v) (parse_uint (2 ^ 32) s)
     else if key = ''replace_peers'' then Inr (push_event RemoveAllPeers v)
     else if key = ''preshared_key'' then map_result (\<lambda>k. set_info (psk_update (\<lambda>_. Some k)) v) (from_hex32 H s)
     else if key = ''persistent_keepalive_interval'' then
       map_result (\<lambda>n. set_info (keepalive_update (\<lambda>_. Some (of_nat n))) v) (parse_uint (2 ^ 16) s)
     else if key = ''endpoint'' then
       map_result (\<lambda>a. set_info (endpoint_update (\<lambda>_. Some (endpoint_from a))) v) (parse_socket_addr s)
     else if key = ''replace_allowed_ips'' then Inr (v\<lparr>replace_allowed_ips := True\<rparr>)
     else if key = ''remove'' then Inr (v\<lparr>remove_pending_peer := True\<rparr>)
     else if key = ''public_key'' then
       (let v = (flush_peer v)\<lparr>u_info := peer_info_default\<rparr> in
        map_result (\<lambda>k. (set_info (pub_key_update (\<lambda>_. k)) v)
            \<lparr>pending_peer := True, remove_pending_peer := False, replace_allowed_ips := False\<rparr>)
          (from_hex32 H s))
     else if key = ''allowed_ip'' then
       map_result (\<lambda>n. set_info (allowed_ips_update (\<lambda>ns. ns @ [n])) v) (parse_allowed_ip s)
     else Inr v)"

fun update_items :: "hex_ops \<Rightarrow> (string \<times> string) list \<Rightarrow> update_vars \<Rightarrow> update_vars result" where
  "update_items H [] v = Inr v"
| "update_items H (item # items) v = bind_result (update_item H item v) (update_items H items)"

definition update_from :: "hex_ops \<Rightarrow> (string \<times> string) list \<Rightarrow> update_event list result" where
  "update_from H items = map_result (\<lambda>v. events (flush_peer v)) (update_items H items update_vars_new)"

section \<open>The codec\<close>

datatype command = Set nat "update_event list" | Get nat

text \<open>A line without \<open>=\<close> has no second entry to unwrap; what follows a second \<open>=\<close> is dropped.\<close>

definition line_entry :: "string \<Rightarrow> (string \<times> string) result" where
  "line_entry line =
     (case split_char CHR ''='' line of
        key # val # _ \<Rightarrow> Inr (key, val)
      | _ \<Rightarrow> Inl (Panicked UnwrapFailed))"

fun line_entries :: "string list \<Rightarrow> (string \<times> string) list result" where
  "line_entries [] = Inr []"
| "line_entries (line # ls) =
     bind_result (line_entry line) (\<lambda>e. map_result (\<lambda>es. e # es) (line_entries ls))"

definition parse_command :: "hex_ops \<Rightarrow> (string \<times> string) list \<Rightarrow> command result" where
  "parse_command H items =
     (case items of
        [] \<Rightarrow> Inl (Panicked IndexOutOfBounds)
      | (cmd, version) # items \<Rightarrow>
          if cmd = ''get'' then map_result Get (parse_uint (2 ^ 64) version)
          else if cmd = ''set'' then
            bind_result (parse_uint (2 ^ 64) version) (\<lambda>version. map_result (Set version) (update_from H items))
          else Inl (Err ''invalid command''))"

definition config_decode :: "hex_ops \<Rightarrow> bytes \<Rightarrow> command option result \<times> bytes" where
  "config_decode H buf =
     (case from_utf8 buf of
        None \<Rightarrow> (Inl (Panicked UnwrapFailed), buf)
      | Some utf8 \<Rightarrow>
          (case split_blank_line utf8 of
             None \<Rightarrow> (Inr None, buf)
           | Some (blob, _) \<Rightarrow>
               (case line_entries (split_char newline blob) of
                  Inl e \<Rightarrow> (Inl e, buf)
                | Inr items \<Rightarrow> (map_result Some (parse_command H items), drop (length blob + 1) buf))))"

definition config_encode :: "string \<Rightarrow> bytes \<Rightarrow> bytes" where
  "config_encode msg buf = buf @ as_bytes msg @ as_bytes [newline, newline]"

section \<open>Commands\<close>

text \<open>\<open>format!("{}={}\n", key, value)\<close>\<close>

definition config_line :: "string \<Rightarrow> string \<Rightarrow> string" where
  "config_line key val = key @ ''='' @ val @ [newline]"

definition opt_line :: "string \<Rightarrow> ('a \<Rightarrow> string) \<Rightarrow> 'a option \<Rightarrow> string" where
  "opt_line key f x = (case x of Some a \<Rightarrow> config_line key (f a) | None \<Rightarrow> [])"

definition to_config_string :: "hex_ops \<Rightarrow> 'n peer \<Rightarrow> instant \<Rightarrow> duration \<Rightarrow> string" where
  "to_config_string H p now wall =
     config_line ''public_key'' (hex_encode H (pub_key (info p))) @
     opt_line ''preshared_key'' (hex_encode H) (psk (info p)) @
     opt_line ''endpoint''
       (\<lambda>e. ip_string (endpoint_ip e) @ '':'' @ dec (unat (sock_port (endpoint_addr e)))) (endpoint (info p)) @
     opt_line ''persistent_keepalive_interval'' (\<lambda>k. dec (unat k)) (keepalive (info p)) @
     concat (map (\<lambda>(ip, cidr). config_line ''allowed_ip'' (ip_string ip @ ''/'' @ dec (unat cidr))) (allowed_ips (info p))) @
     config_line ''tx_bytes'' (dec (unat (tx_bytes p))) @ config_line ''rx_bytes'' (dec (unat (rx_bytes p))) @
     (let since = elapsed (handshake_completed (timers p)) now in
      if is_set (handshake_completed (timers p)) \<and> since \<le> wall then
        config_line ''last_handshake_time_sec'' (dec (as_secs (wall - since))) @
        config_line ''last_handshake_time_nsec'' (dec (subsec_nanos (wall - since)))
      else [])"

definition get_reply :: "hex_ops \<Rightarrow> instant \<Rightarrow> duration \<Rightarrow> ('n, 't4, 't6) state \<Rightarrow> string" where
  "get_reply H now wall st =
     opt_line ''private_key'' (hex_encode H) (if_private_key (interface_info st)) @
     opt_line ''listen_port'' (\<lambda>p. dec (unat p)) (if_listen_port (interface_info st)) @
     concat (map (\<lambda>(_, r). to_config_string H (heap st r) now wall) (pubkey_map st)) @
     ''errno=0'' @ [newline, newline]"

definition handle_command ::
  "hex_ops \<Rightarrow> crypto \<Rightarrow> ('t4, 't6, peer_ref) router_ops \<Rightarrow> (bytes \<Rightarrow> bytes) \<Rightarrow> instant \<Rightarrow> duration \<Rightarrow> command \<Rightarrow>
     ('n, 't4, 't6) state \<Rightarrow> string \<times> channel_message list \<times> ('n, 't4, 't6) state" where
  "handle_command H C R G now wall command st =
     (case command of
        Set _ items \<Rightarrow> apply_updates C R G items st
      | Get _ \<Rightarrow> (get_reply H now wall st, [], st))"

section \<open>Lines and pairs\<close>

lemma result_simps [simp]:
  "map_result f (Inr x) = Inr (f x)" "map_result f (Inl e) = Inl e"
  "bind_result (Inr x) g = g x" "bind_result (Inl e) g = Inl e"
  by (simp_all add: map_result_def bind_result_def)

definition lines_text :: "(string \<times> string) list \<Rightarrow> string" where
  "lines_text items = concat (map (\<lambda>(key, val). config_line key val) items)"

definition plain :: "string \<Rightarrow> bool" where
  "plain s \<longleftrightarrow> newline \<notin> set s \<and> CHR ''='' \<notin> set s \<and> ascii s"

definition plain_item :: "string \<times> string \<Rightarrow> bool" where
  "plain_item = (\<lambda>(key, val). key \<noteq> [] \<and> plain key \<and> plain val)"

lemma lines_text_simps [simp]:
  "lines_text [] = []" "lines_text ((key, val) # items) = config_line key val @ lines_text items"
  "lines_text (xs @ ys) = lines_text xs @ lines_text ys"
  by (simp_all add: lines_text_def)

lemma plain_simps [simp]:
  "plain []" "plain (c # s) \<longleftrightarrow> c \<noteq> newline \<and> c \<noteq> CHR ''='' \<and> (of_char c :: nat) < 128 \<and> plain s"
  "plain (s @ t) \<longleftrightarrow> plain s \<and> plain t"
  by (auto simp: plain_def)

lemma plain_item_pair [simp]: "plain_item (key, val) \<longleftrightarrow> key \<noteq> [] \<and> plain key \<and> plain val"
  by (simp add: plain_item_def)

lemma split_blank_line_end: "newline \<notin> set s \<Longrightarrow> split_blank_line (s @ newline # newline # t) = Some (s, t)"
proof (induction s)
  case (Cons c s)
  then show ?case by (cases s) auto
qed simp

lemma split_blank_line_line:
  "newline \<notin> set s \<Longrightarrow> c \<noteq> newline \<Longrightarrow>
     split_blank_line (s @ newline # c # u) = map_option (\<lambda>(b, a). (s @ newline # b, a)) (split_blank_line (c # u))"
proof (induction s)
  case Nil
  then show ?case by (simp add: case_prod_beta')
next
  case (Cons d s)
  then show ?case by (cases s) (auto simp: option.map_comp comp_def case_prod_beta')
qed

lemma lines_text_split:
  assumes "items \<noteq> []" and "list_all plain_item items"
  obtains blob where "split_blank_line (lines_text items @ newline # t) = Some (blob, t)"
    "split_char newline blob = map (\<lambda>(key, val). key @ CHR ''='' # val) items"
    "length (lines_text items) = length blob + 1"
  using assms
proof (induction items arbitrary: thesis rule: list_nonempty_induct)
  case (single item)
  obtain key val where item: "item = (key, val)" by fastforce
  then have "newline \<notin> set (key @ CHR ''='' # val)" using single.prems(2) by (auto simp: plain_item_def plain_def)
  from split_blank_line_end [OF this, of t] split_char_none [OF this] show ?case
    by (intro single.prems(1) [of "key @ CHR ''='' # val"]) (simp_all add: item config_line_def)
next
  case (cons item items)
  obtain key val where item: "item = (key, val)" by fastforce
  obtain blob where blob: "split_blank_line (lines_text items @ newline # t) = Some (blob, t)"
    "split_char newline blob = map (\<lambda>(key, val). key @ CHR ''='' # val) items" "length (lines_text items) = length blob + 1"
    using cons.IH cons.prems(2) by auto
  obtain c u where c: "lines_text items @ newline # t = c # u" "c \<noteq> newline"
  proof -
    obtain k v rest where "items = (k, v) # rest" using cons.hyps by (cases items) auto
    moreover then obtain d k' where "k = d # k'" "d \<noteq> newline" using cons.prems(2) by (cases k) (auto simp: plain_item_def)
    ultimately show thesis by (intro that [of d]) (simp_all add: config_line_def)
  qed
  have line: "newline \<notin> set (key @ CHR ''='' # val)" using cons.prems(2) by (auto simp: item plain_item_def plain_def)
  show ?case
    using split_blank_line_line [OF line c(2), of u] split_char_append [OF line, of blob] blob c(1)
    by (intro cons.prems(1) [of "(key @ CHR ''='' # val) @ newline # blob"]) (simp_all add: item config_line_def)
qed

lemma line_entries_lines:
  "list_all plain_item items \<Longrightarrow> line_entries (map (\<lambda>(key, val). key @ CHR ''='' # val) items) = Inr items"
proof (induction items)
  case (Cons item items)
  obtain key val where item: "item = (key, val)" by fastforce
  then have "split_char CHR ''='' (key @ CHR ''='' # val) = [key, val]"
    using Cons.prems by (simp add: plain_item_def plain_def split_char_append split_char_none)
  then show ?case using Cons by (simp add: item line_entry_def)
qed simp

lemma ascii_lines_text: "list_all plain_item items \<Longrightarrow> ascii (lines_text items)"
  by (induction items) (auto simp: plain_item_def plain_def config_line_def)

text \<open>A text made of pairs and ended by an empty line decodes to those pairs.\<close>

lemma decode_lines:
  assumes "items \<noteq> []" and "list_all plain_item items"
  shows "config_decode H (as_bytes (lines_text items @ [newline])) = (map_result Some (parse_command H items), as_bytes [newline])"
proof -
  obtain blob where "split_blank_line (lines_text items @ newline # []) = Some (blob, [])"
    "split_char newline blob = map (\<lambda>(key, val). key @ CHR ''='' # val) items"
    "length (lines_text items) = length blob + 1" using lines_text_split [OF assms, of "[]"] by metis
  moreover have "drop (length (lines_text items)) (as_bytes (lines_text items @ [newline])) = as_bytes [newline]"
    by (simp add: as_bytes_def)
  ultimately show ?thesis
    using ascii_lines_text [OF assms(2)] line_entries_lines [OF assms(2)] by (simp add: config_decode_def)
qed

section \<open>What a reply says\<close>

definition opt_item :: "string \<Rightarrow> ('a \<Rightarrow> string) \<Rightarrow> 'a option \<Rightarrow> (string \<times> string) list" where
  "opt_item key f x = (case x of Some a \<Rightarrow> [(key, f a)] | None \<Rightarrow> [])"

definition endpoint_text :: "endpoint \<Rightarrow> string" where
  "endpoint_text e = ip_string (endpoint_ip e) @ '':'' @ dec (unat (sock_port (endpoint_addr e)))"

definition allowed_items :: "(ip_addr \<times> u32) list \<Rightarrow> (string \<times> string) list" where
  "allowed_items ns = map (\<lambda>(ip, cidr). (''allowed_ip'', ip_string ip @ ''/'' @ dec (unat cidr))) ns"

definition counter_items :: "'n peer \<Rightarrow> instant \<Rightarrow> duration \<Rightarrow> (string \<times> string) list" where
  "counter_items p now wall =
     [(''tx_bytes'', dec (unat (tx_bytes p))), (''rx_bytes'', dec (unat (rx_bytes p)))] @
     (let since = elapsed (handshake_completed (timers p)) now in
      if is_set (handshake_completed (timers p)) \<and> since \<le> wall then
        [(''last_handshake_time_sec'', dec (as_secs (wall - since))),
         (''last_handshake_time_nsec'', dec (subsec_nanos (wall - since)))]
      else [])"

definition peer_items :: "hex_ops \<Rightarrow> 'n peer \<Rightarrow> instant \<Rightarrow> duration \<Rightarrow> (string \<times> string) list" where
  "peer_items H p now wall =
     [(''public_key'', hex_encode H (pub_key (info p)))] @ opt_item ''preshared_key'' (hex_encode H) (psk (info p)) @
     opt_item ''endpoint'' endpoint_text (endpoint (info p)) @
     opt_item ''persistent_keepalive_interval'' (\<lambda>k. dec (unat k)) (keepalive (info p)) @
     allowed_items (allowed_ips (info p)) @ counter_items p now wall"

definition get_items :: "hex_ops \<Rightarrow> instant \<Rightarrow> duration \<Rightarrow> ('n, 't4, 't6) state \<Rightarrow> (string \<times> string) list" where
  "get_items H now wall st =
     opt_item ''private_key'' (hex_encode H) (if_private_key (interface_info st)) @
     opt_item ''listen_port'' (\<lambda>p. dec (unat p)) (if_listen_port (interface_info st)) @
     concat (map (\<lambda>(_, r). peer_items H (heap st r) now wall) (pubkey_map st)) @ [(''errno'', ''0'')]"

lemma opt_line_text: "opt_line key f x = lines_text (opt_item key f x)"
  by (simp add: opt_line_def opt_item_def split: option.split)

lemma to_config_string_lines: "to_config_string H p now wall = lines_text (peer_items H p now wall)"
proof -
  have "lines_text (allowed_items ns) =
      concat (map (\<lambda>(ip, cidr). config_line ''allowed_ip'' (ip_string ip @ ''/'' @ dec (unat cidr))) ns)" for ns
    by (induction ns) (auto simp: allowed_items_def)
  then show ?thesis
    by (simp add: to_config_string_def peer_items_def counter_items_def opt_line_text endpoint_text_def [abs_def] Let_def)
qed

lemma get_reply_lines: "get_reply H now wall st = lines_text (get_items H now wall st) @ [newline]"
proof -
  have "lines_text (concat (map f xs)) = concat (map (\<lambda>x. lines_text (f x)) xs)" for f and xs :: "(bytes \<times> peer_ref) list"
    by (induction xs) simp_all
  then show ?thesis
    by (simp add: get_reply_def get_items_def opt_line_text to_config_string_lines config_line_def case_prod_beta')
qed

lemma plain_numbers [simp]: "plain (dec n)" "plain (ip_string ip)"
  using dec_no_separator [of newline n] dec_no_separator [of "CHR ''=''" n] ascii_radix_string [of 10 n]
    ip_string_no_separator [of newline ip] ip_string_no_separator [of "CHR ''=''" ip] ascii_ip_string [of ip]
  by (auto simp: plain_def)

lemma plain_hex:
  assumes "lawful_hex H"
  shows "plain (hex_encode H bs)"
proof -
  have "c \<noteq> newline \<and> c \<noteq> CHR ''='' \<and> (of_char c :: nat) < 128" if "c \<in> set (hex_encode H bs)" for c
  proof -
    have "set (hex_encode H bs) \<subseteq> digit_char ` {..<16}" using assms by (simp add: lawful_hex_def)
    then obtain d where "d < 16" "c = digit_char d" using \<open>c \<in> set _\<close> by auto
    then have "48 \<le> (of_char c :: nat) \<and> (of_char c :: nat) \<le> 57 \<or> 97 \<le> (of_char c :: nat) \<and> (of_char c :: nat) \<le> 102"
      using digit_char_range [of d] by (cases "d < 10") auto
    then show ?thesis by auto
  qed
  then show ?thesis by (auto simp: plain_def ascii_def list_all_iff)
qed

lemma plain_opt_item: "key \<noteq> [] \<Longrightarrow> plain key \<Longrightarrow> (\<And>a. plain (f a)) \<Longrightarrow> list_all plain_item (opt_item key f x)"
  by (simp add: opt_item_def split: option.split)

lemma plain_peer_items:
  assumes "lawful_hex H"
  shows "list_all plain_item (peer_items H p now wall)"
proof -
  have "list_all plain_item (allowed_items ns)" for ns by (induction ns) (auto simp: allowed_items_def)
  moreover have "list_all plain_item (counter_items p now wall)" by (simp add: counter_items_def Let_def)
  ultimately show ?thesis
    using plain_hex [OF assms] by (simp add: peer_items_def plain_opt_item endpoint_text_def)
qed

lemma plain_get_items:
  assumes "lawful_hex H"
  shows "list_all plain_item (get_items H now wall st)"
proof -
  have "list_all plain_item (concat (map (\<lambda>(_, r). peer_items H (heap st r) now wall) xs))" for xs :: "(bytes \<times> peer_ref) list"
    using plain_peer_items [OF assms] by (induction xs) auto
  then show ?thesis using plain_hex [OF assms] by (simp add: get_items_def plain_opt_item)
qed

section \<open>Reading a reply back\<close>

text \<open>What the configuration protocol can carry of a peer: everything but the packet information of the
  endpoint.\<close>

definition reported :: "peer_info \<Rightarrow> peer_info" where
  "reported i = i\<lparr>endpoint := map_option (\<lambda>e. endpoint_from (endpoint_addr e)) (endpoint i)\<rparr>"

definition is_ipv4 :: "endpoint \<Rightarrow> bool" where
  "is_ipv4 e = (case endpoint_addr e of SocketAddrV4 _ _ \<Rightarrow> True | _ \<Rightarrow> False)"

definition printable :: "peer_info \<Rightarrow> bool" where
  "printable i \<longleftrightarrow> length (pub_key i) = 32 \<and> (\<forall>k. psk i = Some k \<longrightarrow> length k = 32) \<and> (\<forall>e. endpoint i = Some e \<longrightarrow> is_ipv4 e)"

lemma update_items_append: "update_items H (xs @ ys) v = bind_result (update_items H xs v) (update_items H ys)"
  by (induction xs arbitrary: v) (auto simp: bind_result_def split: sum.split)

lemma parse_allowed_ip_printed: "parse_allowed_ip (ip_string ip @ CHR ''/'' # dec (unat cidr)) = Inr (ip, cidr)"
proof -
  have "unat cidr < 2 ^ 32" using unsigned_less [of cidr] by simp
  moreover have "\<forall>c \<in> set (ip_string ip). c \<noteq> CHR ''/''" using ip_string_no_separator [of "CHR ''/''" ip] by auto
  ultimately show ?thesis by (simp add: parse_allowed_ip_def takeWhile_append2 dropWhile_append2)
qed

lemma update_allowed_items:
  "update_items H (allowed_items ns) v = Inr (set_info (allowed_ips_update (\<lambda>a. a @ ns)) v)"
proof (induction ns arbitrary: v)
  case (Cons n ns)
  then show ?case
    by (cases n) (simp add: allowed_items_def update_item_def parse_allowed_ip_printed set_info_def comp_def)
qed (simp add: allowed_items_def set_info_def)

lemma update_counter_items: "update_items H (counter_items p now wall) v = Inr v"
  by (simp add: counter_items_def update_item_def Let_def)

lemma update_opt_items:
  assumes "lawful_hex H"
  shows "(\<And>k. ps = Some k \<Longrightarrow> length k = 32) \<Longrightarrow>
      update_items H (opt_item ''preshared_key'' (hex_encode H) ps) v =
        Inr (case ps of None \<Rightarrow> v | Some k \<Rightarrow> set_info (psk_update (\<lambda>_. Some k)) v)"
    and "update_items H (opt_item ''persistent_keepalive_interval'' (\<lambda>k. dec (unat k)) ka) v =
        Inr (case ka of None \<Rightarrow> v | Some k \<Rightarrow> set_info (keepalive_update (\<lambda>_. Some k)) v)"
    and "(\<And>e. ep = Some e \<Longrightarrow> is_ipv4 e) \<Longrightarrow>
      update_items H (opt_item ''endpoint'' endpoint_text ep) v =
        Inr (case ep of None \<Rightarrow> v | Some e \<Rightarrow> set_info (endpoint_update (\<lambda>_. Some (endpoint_from (endpoint_addr e)))) v)"
proof -
  show "update_items H (opt_item ''preshared_key'' (hex_encode H) ps) v =
      Inr (case ps of None \<Rightarrow> v | Some k \<Rightarrow> set_info (psk_update (\<lambda>_. Some k)) v)"
    if "\<And>k. ps = Some k \<Longrightarrow> length k = 32"
    using assms that by (cases ps) (simp_all add: opt_item_def update_item_def lawful_hex_def)
  have "unat (k :: u16) < 2 ^ 16" for k using unsigned_less [of k] by simp
  then show "update_items H (opt_item ''persistent_keepalive_interval'' (\<lambda>k. dec (unat k)) ka) v =
        Inr (case ka of None \<Rightarrow> v | Some k \<Rightarrow> set_info (keepalive_update (\<lambda>_. Some k)) v)"
    by (cases ka) (simp_all add: opt_item_def update_item_def)
  show "update_items H (opt_item ''endpoint'' endpoint_text ep) v =
        Inr (case ep of None \<Rightarrow> v | Some e \<Rightarrow> set_info (endpoint_update (\<lambda>_. Some (endpoint_from (endpoint_addr e)))) v)"
    if "\<And>e. ep = Some e \<Longrightarrow> is_ipv4 e"
    using that parse_socket_ipv4
    by (cases ep) (auto simp: opt_item_def update_item_def is_ipv4_def endpoint_text_def endpoint_ip_def split: socket_addr.splits)
qed

lemma update_peer_items:
  assumes "lawful_hex H" and "printable (info p)"
  shows "update_items H (peer_items H p now wall) v =
    Inr ((flush_peer v)\<lparr>u_info := reported (info p), pending_peer := True, remove_pending_peer := False,
      replace_allowed_ips := False\<rparr>)"
proof -
  let ?v = "\<lambda>i. (flush_peer v)\<lparr>u_info := i, pending_peer := True, remove_pending_peer := False, replace_allowed_ips := False\<rparr>"
  have "from_hex32 H (hex_encode H (pub_key (info p))) = Inr (pub_key (info p))"
    using assms by (simp add: lawful_hex_def printable_def)
  then have "update_item H (''public_key'', hex_encode H (pub_key (info p))) v =
      Inr (?v (peer_info_default\<lparr>pub_key := pub_key (info p)\<rparr>))"
    by (simp add: update_item_def set_info_def)
  then show ?thesis using assms(2)
    by (simp add: peer_items_def update_items_append update_opt_items [OF assms(1)] printable_def
        update_allowed_items update_counter_items)
      (auto simp: set_info_def reported_def peer_info_default_def split: option.split)
qed

definition restored_updates :: "('n, 't4, 't6) state \<Rightarrow> update_event list" where
  "restored_updates st =
     (case if_private_key (interface_info st) of Some k \<Rightarrow> [PrivateKey k] | None \<Rightarrow> []) @
     (case if_listen_port (interface_info st) of Some port \<Rightarrow> [ListenPort port] | None \<Rightarrow> []) @
     map (\<lambda>(_, r). UpdatePeer (reported (info (heap st r))) False) (pubkey_map st)"

definition printable_state :: "('n, 't4, 't6) state \<Rightarrow> bool" where
  "printable_state st \<longleftrightarrow>
     (\<forall>k. if_private_key (interface_info st) = Some k \<longrightarrow> length k = 32) \<and>
     list_all (\<lambda>(_, r). printable (info (heap st r))) (pubkey_map st)"

lemma update_peers_items:
  assumes "lawful_hex H"
  shows "list_all (\<lambda>(_, r). printable (info (h r))) ps \<Longrightarrow>
    \<exists>v'. update_items H (concat (map (\<lambda>(_, r). peer_items H (h r) now wall) ps)) v = Inr v' \<and>
      events (flush_peer v') = events (flush_peer v) @ map (\<lambda>(_, r). UpdatePeer (reported (info (h r))) False) ps"
proof (induction ps arbitrary: v)
  case (Cons x ps)
  obtain k r where x: "x = (k, r)" by fastforce
  let ?v = "(flush_peer v)\<lparr>u_info := reported (info (h r)), pending_peer := True, remove_pending_peer := False,
      replace_allowed_ips := False\<rparr>"
  have step: "update_items H (peer_items H (h r) now wall) v = Inr ?v"
    using update_peer_items [OF assms, of "h r" now wall v] Cons.prems by (simp add: x)
  have ev: "events (flush_peer ?v) = events (flush_peer v) @ [UpdatePeer (reported (info (h r))) False]"
    by (simp add: flush_peer_def [of ?v] push_event_def)
  from Cons.prems have "list_all (\<lambda>(_, r). printable (info (h r))) ps" by simp
  from Cons.IH [OF this, of ?v] show ?case using step ev by (auto simp: x update_items_append)
qed simp

lemma update_from_get_items:
  assumes "lawful_hex H" and "printable_state st"
  shows "update_from H (get_items H now wall st) = Inr (restored_updates st)"
proof -
  let ?pk = "if_private_key (interface_info st)" and ?lp = "if_listen_port (interface_info st)"
  let ?v = "update_vars_new\<lparr>events := (case ?pk of Some k \<Rightarrow> [PrivateKey k] | None \<Rightarrow> []) @
      (case ?lp of Some port \<Rightarrow> [ListenPort port] | None \<Rightarrow> [])\<rparr>"
  have port: "unat (port :: u16) < 2 ^ 16" for port using unsigned_less [of port] by simp
  let ?pi = "opt_item ''private_key'' (hex_encode H) ?pk @ opt_item ''listen_port'' (\<lambda>p. dec (unat p)) ?lp"
  let ?ps = "concat (map (\<lambda>(_, r). peer_items H (heap st r) now wall) (pubkey_map st))"
  have 1: "update_items H ?pi update_vars_new = Inr ?v"
    using assms port
    by (auto simp: opt_item_def update_item_def lawful_hex_def printable_state_def push_event_def update_vars_new_def split: option.split)
  obtain v' where 2: "update_items H ?ps ?v = Inr v'"
    and ev: "events (flush_peer v') = events (flush_peer ?v) @ map (\<lambda>(_, r). UpdatePeer (reported (info (heap st r))) False) (pubkey_map st)"
    using update_peers_items [OF assms(1), of "heap st" "pubkey_map st" now wall ?v] assms(2) by (auto simp: printable_state_def)
  have "update_items H (?pi @ ?ps @ [(''errno'', ''0'')]) update_vars_new = Inr v'"
    by (simp only: update_items_append [of H ?pi] update_items_append [of H ?ps] 1 2 result_simps) (simp add: update_item_def)
  then have "update_items H (get_items H now wall st) update_vars_new = Inr v'" by (simp add: get_items_def)
  moreover have "flush_peer ?v = ?v" by (simp add: flush_peer_def update_vars_new_def)
  ultimately show ?thesis using ev by (simp add: update_from_def restored_updates_def)
qed

lemma decode_saved:
  assumes "lawful_hex H" and "printable_state st"
  shows "config_decode H (as_bytes (''set=1'' @ [newline] @ get_reply H now wall st)) =
    (Inr (Some (Set 1 (restored_updates st))), as_bytes [newline])"
proof -
  have eq: "''set=1'' @ [newline] @ get_reply H now wall st =
      lines_text ((''set'', ''1'') # get_items H now wall st) @ [newline]"
    by (simp add: get_reply_lines config_line_def)
  have version: "parse_uint 18446744073709551616 ''1'' = Inr (Suc 0)" by (simp add: parse_uint_def char_digit_def)
  show ?thesis unfolding eq
    by (subst decode_lines)
      (simp_all add: plain_get_items [OF assms(1)] parse_command_def version update_from_get_items [OF assms])
qed

text \<open>Applying the updates to a fresh device.\<close>

definition peers_of :: "('n, 't4, 't6) state \<Rightarrow> (bytes \<times> peer_info) list" where
  "peers_of st = map (\<lambda>(k, r). (k, info (heap st r))) (pubkey_map st)"

definition refs_bounded :: "('n, 't4, 't6) state \<Rightarrow> bool" where
  "refs_bounded st \<longleftrightarrow> list_all (\<lambda>(_, r). r < next_ref st) (pubkey_map st)"

lemma add_peer_restores:
  assumes "refs_bounded st" and "pub_key i \<notin> fst ` set (pubkey_map st)"
    and "if_pub_key (interface_info st) \<noteq> Some (pub_key i)" and "length (pubkey_map st) < MAX_PEERS_PER_DEVICE"
  obtains msg st' where "handle_update C R G (UpdatePeer i b) st = (Inr msg, st')" "refs_bounded st'"
    "peers_of st' = peers_of st @ [(pub_key i, i)]" "interface_info st' = interface_info st"
    "map fst (pubkey_map st') = map fst (pubkey_map st) @ [pub_key i]"
proof -
  have none: "map_of (pubkey_map st) (pub_key i) = None" using assms(2) by (simp add: map_of_eq_None_iff)
  obtain msg st' where u: "handle_update C R G (UpdatePeer i b) st = (Inr msg, st')"
    and st': "heap st' = (heap st)(next_ref st := peer_new C i)" "next_ref st' = next_ref st + 1"
      "pubkey_map st' = pubkey_map st @ [(pub_key i, next_ref st)]" "interface_info st' = interface_info st"
    using assms(3,4) none by (simp add: handle_update_def add_new_peer_def alloc_peer_def update_append)
  show thesis
  proof (rule that [OF u])
    show "refs_bounded st'" "peers_of st' = peers_of st @ [(pub_key i, i)]"
      using assms(1) st' by (auto simp: refs_bounded_def peers_of_def peer_new_def list_all_iff)
  qed (use st' in simp_all)
qed

lemma apply_peers_restores:
  "refs_bounded st \<Longrightarrow> distinct (map fst (pubkey_map st) @ map pub_key infos) \<Longrightarrow>
    (\<forall>i \<in> set infos. if_pub_key (interface_info st) \<noteq> Some (pub_key i)) \<Longrightarrow>
    length (pubkey_map st) + length infos \<le> MAX_PEERS_PER_DEVICE \<Longrightarrow>
    \<exists>reply msgs st'. apply_updates C R G (map (\<lambda>i. UpdatePeer i False) infos) st = (reply, msgs, st') \<and>
      peers_of st' = peers_of st @ map (\<lambda>i. (pub_key i, i)) infos \<and> interface_info st' = interface_info st"
proof (induction infos arbitrary: st)
  case (Cons i infos)
  have "pub_key i \<notin> fst ` set (pubkey_map st)" using Cons.prems(2) by auto
  then obtain msg st1 where u: "handle_update C R G (UpdatePeer i False) st = (Inr msg, st1)" and ok: "refs_bounded st1"
    and st1: "peers_of st1 = peers_of st @ [(pub_key i, i)]" "interface_info st1 = interface_info st"
      "map fst (pubkey_map st1) = map fst (pubkey_map st) @ [pub_key i]"
    using add_peer_restores [OF Cons.prems(1), of i C R G False] Cons.prems(3,4) by auto
  have "length (pubkey_map st1) = length (pubkey_map st) + 1" using arg_cong [OF st1(3), of length] by simp
  then have "\<exists>reply msgs st'. apply_updates C R G (map (\<lambda>i. UpdatePeer i False) infos) st1 = (reply, msgs, st') \<and>
      peers_of st' = peers_of st1 @ map (\<lambda>i. (pub_key i, i)) infos \<and> interface_info st' = interface_info st1"
    using Cons.prems st1 by (intro Cons.IH [OF ok]) auto
  then show ?case using u st1 by auto
qed simp

text \<open>The keys, the port and the peers of a device, as far as the protocol carries them.\<close>

definition saved :: "('n, 't4, 't6) state \<Rightarrow> bytes option \<times> bytes option \<times> u16 option \<times> (bytes \<times> peer_info) list" where
  "saved st =
     (if_private_key (interface_info st), if_pub_key (interface_info st), if_listen_port (interface_info st),
      map (\<lambda>(k, i). (k, reported i)) (peers_of st))"

lemma reported_simps [simp]: "reported (reported i) = reported i" "pub_key (reported i) = pub_key i"
  by (simp_all add: reported_def option.map_comp comp_def)

lemma restore_interface:
  assumes "k \<noteq> Some (replicate 32 0)"
  obtains msgs0 s1 where "refs_bounded s1" "pubkey_map s1 = []"
    "interface_info s1 = \<lparr>if_private_key = k, if_pub_key = map_option G k, if_listen_port = port, if_fwmark = None\<rparr>"
    "\<And>rest. apply_updates C R G ((case k of Some k \<Rightarrow> [PrivateKey k] | None \<Rightarrow> []) @
        (case port of Some port \<Rightarrow> [ListenPort port] | None \<Rightarrow> []) @ rest) (state_default C R) =
      (let (reply, msgs, st) = apply_updates C R G rest s1 in (reply, msgs0 @ msgs, st))"
proof -
  let ?s1 = "(state_default C R)\<lparr>interface_info :=
      \<lparr>if_private_key = k, if_pub_key = map_option G k, if_listen_port = port, if_fwmark = None\<rparr>\<rparr>"
  let ?msgs = "(case k of Some _ \<Rightarrow> [NewPrivateKey] | None \<Rightarrow> []) @ (case port of Some p \<Rightarrow> [NewListenPort p] | None \<Rightarrow> [])"
  show thesis
    using assms
    by (intro that [of ?s1 ?msgs])
      (auto simp: refs_bounded_def state_default_def handle_update_def update_private_key_def interface_info_default_def
        split: option.split prod.split)
qed

lemma restored_state:
  fixes st :: "('n, 't4, 't6) state" and R :: "('t4, 't6, peer_ref) router_ops"
  assumes "maps_ok st"
    and key: "if_pub_key (interface_info st) = map_option G (if_private_key (interface_info st))"
      "if_private_key (interface_info st) \<noteq> Some (replicate 32 0)"
  shows "\<exists>reply msgs (st' :: ('n, 't4, 't6) state).
    apply_updates C R G (restored_updates st) (state_default C R) = (reply, msgs, st') \<and> saved st' = saved st"
proof -
  let ?i = "\<lambda>r. reported (info (heap st r))" and ?infos = "map (\<lambda>(_, r). reported (info (heap st r))) (pubkey_map st)"
  have stored: "pub_key (info (heap st r)) = k \<and> if_pub_key (interface_info st) \<noteq> Some k" if "(k, r) \<in> set (pubkey_map st)" for k r
  proof -
    have "map_of (pubkey_map st) k = Some r" using maps_okD(1) [OF assms(1)] that by (simp add: wf_map_def)
    then show ?thesis using maps_okD(4,6) [OF assms(1), of k] by (metis option.distinct(1))
  qed
  then have keys: "map pub_key ?infos = map fst (pubkey_map st)" by (auto simp: comp_def)
  obtain msgs0 and s1 :: "('n, 't4, 't6) state" where s1: "refs_bounded s1" "pubkey_map s1 = []"
    "interface_info s1 = \<lparr>if_private_key = if_private_key (interface_info st), if_pub_key = if_pub_key (interface_info st),
       if_listen_port = if_listen_port (interface_info st), if_fwmark = None\<rparr>"
    and run: "\<And>rest. apply_updates C R G ((case if_private_key (interface_info st) of Some k \<Rightarrow> [PrivateKey k] | None \<Rightarrow> []) @
        (case if_listen_port (interface_info st) of Some port \<Rightarrow> [ListenPort port] | None \<Rightarrow> []) @ rest) (state_default C R) =
      (let (reply, msgs, st) = apply_updates C R G rest s1 in (reply, msgs0 @ msgs, st))"
    using restore_interface [OF key(2), of G "if_listen_port (interface_info st)" C R] key(1) by metis
  have "\<exists>reply msgs st'. apply_updates C R G (map (\<lambda>i. UpdatePeer i False) ?infos) s1 = (reply, msgs, st') \<and>
      peers_of st' = peers_of s1 @ map (\<lambda>i. (pub_key i, i)) ?infos \<and> interface_info st' = interface_info s1"
  proof (rule apply_peers_restores [OF s1(1)])
    show "distinct (map fst (pubkey_map s1) @ map pub_key ?infos)"
      unfolding keys using maps_okD(1) [OF assms(1)] by (simp add: s1(2) wf_map_def)
    show "\<forall>i \<in> set ?infos. if_pub_key (interface_info s1) \<noteq> Some (pub_key i)" using stored by (fastforce simp: s1(3))
    show "length (pubkey_map s1) + length ?infos \<le> MAX_PEERS_PER_DEVICE" using maps_okD(7) [OF assms(1)] by (simp add: s1(2))
  qed
  moreover have "map (\<lambda>i. (pub_key i, i)) ?infos = map (\<lambda>(k, r). (k, ?i r)) (pubkey_map st)" using stored by auto
  ultimately obtain reply msgs st' where
    "apply_updates C R G (map (\<lambda>i. UpdatePeer i False) ?infos) s1 = (reply, msgs, st')"
    and st': "peers_of st' = map (\<lambda>(k, r). (k, ?i r)) (pubkey_map st)" "interface_info st' = interface_info s1"
    by (auto simp: peers_of_def [of s1] s1(2))
  moreover have "saved st' = saved st" by (simp add: saved_def st' s1(3) peers_of_def [of st] comp_def case_prod_beta')
  ultimately show ?thesis
    using run [of "map (\<lambda>i. UpdatePeer i False) ?infos"] by (simp add: restored_updates_def comp_def case_prod_beta')
qed

section \<open>Typed updates\<close>

definition typed_info :: "peer_info \<Rightarrow> bool" where
  "typed_info i \<longleftrightarrow> length (pub_key i) = 32 \<and> (\<forall>k. psk i = Some k \<longrightarrow> length k = 32)"

definition typed_update :: "update_event \<Rightarrow> bool" where
  "typed_update e =
     (case e of
        PrivateKey k \<Rightarrow> length k = 32
      | UpdatePeer i _ \<Rightarrow> typed_info i
      | RemovePeer k \<Rightarrow> length k = 32
      | _ \<Rightarrow> True)"

definition typed_vars :: "update_vars \<Rightarrow> bool" where
  "typed_vars v \<longleftrightarrow> list_all typed_update (events v) \<and> typed_info (u_info v)"

lemma typed_simps [simp]:
  "typed_info peer_info_default" "typed_info (i\<lparr>psk := Some k\<rparr>) \<longleftrightarrow> length (pub_key i) = 32 \<and> length k = 32"
  "typed_info (i\<lparr>keepalive := ka\<rparr>) = typed_info i" "typed_info (i\<lparr>endpoint := ep\<rparr>) = typed_info i"
  "typed_info (i\<lparr>allowed_ips := ns\<rparr>) = typed_info i"
  "typed_vars (push_event e v) \<longleftrightarrow> typed_vars v \<and> typed_update e"
  "typed_vars (v\<lparr>replace_allowed_ips := b\<rparr>) = typed_vars v" "typed_vars (v\<lparr>remove_pending_peer := b\<rparr>) = typed_vars v"
  "typed_vars (v\<lparr>pending_peer := b\<rparr>) = typed_vars v"
  by (auto simp: typed_info_def peer_info_default_def typed_vars_def push_event_def)

lemma typed_flush: "typed_vars v \<Longrightarrow> typed_vars (flush_peer v)"
  by (auto simp: flush_peer_def typed_vars_def push_event_def typed_update_def typed_info_def)

lemma typed_set_info:
  "typed_vars v \<Longrightarrow> typed_info (f (u_info v)) \<Longrightarrow> typed_vars (set_info f v)"
  by (simp add: typed_vars_def set_info_def)

lemma map_result_Inr: "map_result f r = Inr y \<longleftrightarrow> (\<exists>x. r = Inr x \<and> y = f x)"
  by (auto simp: map_result_def split: sum.split)

lemma bind_result_Inr: "bind_result r f = Inr y \<longleftrightarrow> (\<exists>x. r = Inr x \<and> f x = Inr y)"
  by (auto simp: bind_result_def split: sum.split)

lemma typed_update_item:
  assumes "lawful_hex H" and "typed_vars v" and "update_item H item v = Inr v'"
  shows "typed_vars v'"
proof -
  obtain key s where item: "item = (key, s)" by fastforce
  have hex: "length k = 32" if "from_hex32 H s = Inr k" for k using assms(1) that by (auto simp: lawful_hex_def)
  have i: "typed_info (u_info v)" using assms(2) by (simp add: typed_vars_def)
  have new: "typed_vars (set_info (pub_key_update (\<lambda>_. k)) ((flush_peer v)\<lparr>u_info := peer_info_default\<rparr>))" if "length k = 32" for k
    using typed_flush [OF assms(2)] that by (simp add: typed_vars_def set_info_def typed_info_def peer_info_default_def)
  show ?thesis
    using assms(2,3) i new unfolding item update_item_def
    by (auto simp: map_result_Inr Let_def typed_update_def typed_info_def split: if_splits intro!: typed_set_info dest!: hex)
qed

lemma typed_update_items: "lawful_hex H \<Longrightarrow> typed_vars v \<Longrightarrow> update_items H items v = Inr v' \<Longrightarrow> typed_vars v'"
  by (induction items arbitrary: v) (auto simp: bind_result_Inr dest: typed_update_item)

text \<open>The updates of a decoded \<open>set\<close> command: every key in them has 32 bytes.\<close>

lemma decoded_keys_typed:
  assumes "lawful_hex H" and "config_decode H buf = (Inr (Some (Set version items)), rest)"
  shows "list_all typed_update items"
proof -
  from assms(2) obtain its where "update_from H its = Inr items"
    by (auto simp: config_decode_def parse_command_def map_result_Inr bind_result_Inr split: option.splits sum.splits list.splits if_splits)
  then obtain v where v: "update_items H its update_vars_new = Inr v" "items = events (flush_peer v)"
    by (auto simp: update_from_def map_result_Inr)
  have "typed_vars update_vars_new" by (simp add: typed_vars_def update_vars_new_def)
  from typed_flush [OF typed_update_items [OF assms(1) this v(1)]] show ?thesis by (simp add: typed_vars_def v(2))
qed

section \<open>Errors and panics of the decoder\<close>

definition recoverable :: "'a result \<Rightarrow> bool" where
  "recoverable r \<longleftrightarrow> (\<forall>e. r = Inl e \<longrightarrow> (\<exists>m. e = Err m))"

lemma recoverable_simps [simp]:
  "recoverable (Inr x)" "recoverable (Inl (Err m))" "recoverable (map_result f r) = recoverable r"
  by (auto simp: recoverable_def map_result_def split: sum.splits)

lemma recoverable_bind: "recoverable r \<Longrightarrow> (\<And>x. r = Inr x \<Longrightarrow> recoverable (f x)) \<Longrightarrow> recoverable (bind_result r f)"
  by (auto simp: recoverable_def bind_result_def split: sum.splits)

lemma recoverable_numbers: "recoverable (parse_uint bound s)"
proof -
  have "recoverable (parse_digits bound acc ds)" for acc ds
    by (induction ds arbitrary: acc) (auto simp: Let_def split: option.split)
  then show ?thesis by (auto simp: parse_uint_def Let_def)
qed

lemma recoverable_addresses: "recoverable (parse_ip_addr s)" "recoverable (parse_socket_addr s)"
  by (auto simp: parse_ip_addr_def parse_socket_addr_def read_till_eof_def split: option.split list.split)

lemma recoverable_update:
  assumes "lawful_hex H"
  shows "recoverable (update_item H item v)" "recoverable (update_items H items v)"
proof -
  have hex: "recoverable (from_hex32 H s)" for s using assms unfolding lawful_hex_def recoverable_def by blast
  have ip: "recoverable (parse_allowed_ip s)" for s
    by (auto simp: parse_allowed_ip_def Let_def recoverable_numbers recoverable_addresses intro!: recoverable_bind)
  show "recoverable (update_item H item v)" for item v
    by (auto simp: update_item_def Let_def hex ip recoverable_numbers recoverable_addresses split: prod.split)
  then show "recoverable (update_items H items v)" by (induction items arbitrary: v) (auto intro: recoverable_bind)
qed

lemma recoverable_command: "lawful_hex H \<Longrightarrow> items \<noteq> [] \<Longrightarrow> recoverable (parse_command H items)"
  by (cases items)
    (auto simp: parse_command_def update_from_def recoverable_numbers recoverable_update intro!: recoverable_bind)

text \<open>The decoder panics before it takes the command out of the buffer: the bytes are not UTF-8, or a line
  has no \<open>=\<close>.\<close>

lemma decode_panics:
  assumes "lawful_hex H" and "config_decode H buf = (Inl e, rest)"
  shows "(\<exists>m. e = Err m) \<or> e = Panicked UnwrapFailed \<and> rest = buf"
proof -
  have lines: "line_entries ls = Inl e \<Longrightarrow> e = Panicked UnwrapFailed" for ls e
    by (induction ls arbitrary: e) (auto simp: line_entry_def map_result_def bind_result_def split: sum.splits list.splits)
  have some: "items \<noteq> []" if "line_entries (split_char newline blob) = Inr items" for blob items
  proof -
    have "split_char newline blob \<noteq> []" by (cases blob) (auto split: list.split)
    then show ?thesis using that by (cases "split_char newline blob") (auto simp: bind_result_Inr map_result_Inr)
  qed
  have command: "\<exists>m. e = Err m" if "line_entries (split_char newline blob) = Inr items" "parse_command H items = Inl e" for blob items e
    using recoverable_command [OF assms(1) some [OF that(1)]] that(2) unfolding recoverable_def by blast
  show ?thesis
    using assms(2) unfolding config_decode_def map_result_def
    by (auto split: option.splits sum.splits dest!: lines) (metis command)+
qed

section \<open>Instances of the crate\<close>

definition test_from_hex :: "string \<Rightarrow> bytes option" where
  "test_from_hex s =
     (let ds = map (char_digit 16) s in
      if length s = 64 \<and> None \<notin> set ds then Some (map (\<lambda>i. of_nat (16 * the (ds ! (2 * i)) + the (ds ! (2 * i + 1)))) [0..<32])
      else None)"

definition test_hex :: hex_ops where
  "test_hex =
     \<lparr>hex_encode = \<lambda>bs. concat (map (\<lambda>b. [digit_char (unat b div 16), digit_char (unat b mod 16)]) bs),
      from_hex32 = \<lambda>s. case test_from_hex s of Some bs \<Rightarrow> Inr bs | None \<Rightarrow> Inl (Err ''invalid hex'')\<rparr>"

lemma concat_pairs_nth:
  "i < length xs \<Longrightarrow> concat (map (\<lambda>x. [f x, g x]) xs) ! (2 * i) = f (xs ! i) \<and>
     concat (map (\<lambda>x. [f x, g x]) xs) ! Suc (2 * i) = g (xs ! i)"
proof (induction xs arbitrary: i)
  case (Cons x xs)
  then show ?case by (cases i) simp_all
qed simp

lemma length_concat_pairs: "length (concat (map (\<lambda>x. [f x, g x]) xs)) = 2 * length xs"
  by (induction xs) simp_all

lemma lawful_test_hex: "lawful_hex test_hex"
proof -
  let ?e = "\<lambda>bs. concat (map (\<lambda>b. [digit_char (unat b div 16), digit_char (unat b mod 16)]) bs)"
  have d: "unat (b :: u8) div 16 < 16" for b using unat_u8_less [of b] by simp
  have "test_from_hex (?e bs) = Some bs" if "length bs = 32" for bs :: bytes
  proof -
    have some: "None \<notin> set (map (char_digit 16) (?e bs))" using d by auto
    have "of_nat (16 * the (map (char_digit 16) (?e bs) ! (2 * i)) + the (map (char_digit 16) (?e bs) ! (2 * i + 1))) = bs ! i"
      if i: "i < 32" for i
    proof -
      have "map (char_digit 16) (?e bs) ! (2 * i) = Some (unat (bs ! i) div 16)"
        "map (char_digit 16) (?e bs) ! (2 * i + 1) = Some (unat (bs ! i) mod 16)"
        using i \<open>length bs = 32\<close> d concat_pairs_nth [of i bs "\<lambda>b. digit_char (unat b div 16)" "\<lambda>b. digit_char (unat b mod 16)"]
        by (simp_all add: length_concat_pairs)
      moreover have "16 * (unat (bs ! i) div 16) + unat (bs ! i) mod 16 = unat (bs ! i)" by simp
      moreover have "of_nat (unat (bs ! i)) = bs ! i" by simp
      ultimately show ?thesis by (metis option.sel)
    qed
    then show ?thesis using some that
      by (simp add: test_from_hex_def Let_def length_concat_pairs) (intro nth_equalityI; simp add: length_concat_pairs)
  qed
  moreover have "set (?e bs) \<subseteq> digit_char ` {..<16}" for bs :: bytes using d by auto
  moreover have "test_from_hex s = Some bs \<Longrightarrow> length bs = 32" for s bs by (auto simp: test_from_hex_def Let_def split: if_splits)
  ultimately show ?thesis unfolding lawful_hex_def test_hex_def by (auto split: option.splits)
qed

section \<open>Properties\<close>

lemma char_of_newline: "char_of (10 :: nat) = newline"
  by (rule of_char_eqI [where ?'a = nat]) simp

lemma decode_after_newline:
  "config_decode H (10 # buf) = (Inr None, 10 # buf) \<or> config_decode H (10 # buf) = (Inl (Panicked UnwrapFailed), 10 # buf)"
proof (cases "from_utf8 (10 # buf)")
  case (Some s)
  then obtain t where s: "s = newline # t" by (auto simp: from_utf8_def str_of_bytes_def char_of_newline split: if_splits)
  have "line_entries (split_char newline blob) = Inl (Panicked UnwrapFailed)" if "split_blank_line s = Some (blob, rest)" for blob rest
  proof -
    have "\<exists>ls. split_char newline blob = [] # ls" using that s by (cases t) (auto split: if_splits)
    then show ?thesis by (auto simp: line_entry_def)
  qed
  then show ?thesis using Some by (auto simp: config_decode_def split: option.split)
qed (simp add: config_decode_def)

lemma decode_leaves_newline:
  assumes "config_decode H buf = (Inr (Some c), rest)"
  shows "\<exists>tail. rest = 10 # tail"
proof -
  from assms obtain utf8 blob after where u: "from_utf8 buf = Some utf8" "split_blank_line utf8 = Some (blob, after)"
    and rest: "rest = drop (length blob + 1) buf"
    by (auto simp: config_decode_def split: option.splits sum.splits)
  have "str_of_bytes buf = blob @ newline # newline # after"
    using split_blank_line_Some [OF u(2)] u(1) by (simp add: from_utf8_def split: if_splits)
  then have str: "str_of_bytes rest = newline # after" unfolding rest str_of_bytes_def by (simp flip: drop_map)
  then obtain b tail where b: "rest = b # tail" "char_of (unat b) = newline" by (cases rest) (auto simp: str_of_bytes_def)
  have "unat b = 10" using b(2) unat_u8_less [of b] by (simp add: char_of_eq_iff take_bit_nat_eq_self)
  then have "b = 10" by (simp add: word_unat_eq_iff)
  then show ?thesis using b(1) by blast
qed


definition saved_device :: "(clear_session, ((32 word \<times> nat) \<times> peer_ref) list, ((128 word \<times> nat) \<times> peer_ref) list) state" where
  "saved_device =
     (state_default test_crypto alist_router)
       \<lparr>heap := \<lambda>_. peer_new test_crypto
          \<lparr>pub_key = replicate 32 2, psk = Some (replicate 32 3), endpoint = Some (endpoint_from (SocketAddrV4 0x01020304 51820)),
           allowed_ips = [(IpV4 0x0A000000, 8), (IpV6 0xFD000000000000000000000000000001, 128)], keepalive = Some 25\<rparr>,
        next_ref := 1, pubkey_map := [(replicate 32 2, 0)],
        interface_info := \<lparr>if_private_key = Some (replicate 32 1), if_pub_key = Some (replicate 32 1), if_listen_port = Some 51820,
          if_fwmark = None\<rparr>\<rparr>"


text \<open>C38: the text of a peer with an IPv6 endpoint cannot be read back: \<open>to_config_string\<close> writes the address
  without brackets, which is no socket address.\<close>

theorem ipv6_endpoint_unreadable:
  assumes "lawful_hex H" and "typed_info (info p)" and "endpoint (info p) = Some e" and "endpoint_addr e = SocketAddrV6 a port flow scope"
  shows "config_decode H (as_bytes (''set=1'' @ [newline] @ to_config_string H p now wall @ [newline])) =
    (Inl (Err ''invalid IP address syntax''), as_bytes [newline])"
proof -
  have eq: "''set=1'' @ [newline] @ to_config_string H p now wall @ [newline] =
      lines_text ((''set'', ''1'') # peer_items H p now wall) @ [newline]"
    by (simp add: to_config_string_lines config_line_def)
  have version: "parse_uint 18446744073709551616 ''1'' = Inr (Suc 0)" by (simp add: parse_uint_def char_digit_def)
  have key: "from_hex32 H (hex_encode H (pub_key (info p))) = Inr (pub_key (info p))"
    using assms by (simp add: lawful_hex_def typed_info_def)
  have psk: "update_items H (opt_item ''preshared_key'' (hex_encode H) (psk (info p))) v =
      Inr (case psk (info p) of None \<Rightarrow> v | Some k \<Rightarrow> set_info (psk_update (\<lambda>_. Some k)) v)" for v
    using assms(2) by (intro update_opt_items(1) [OF assms(1)]) (simp add: typed_info_def)
  have "update_items H (opt_item ''endpoint'' endpoint_text (endpoint (info p))) v = Inl (Err ''invalid IP address syntax'')" for v
    using assms(3,4) by (simp add: opt_item_def update_item_def endpoint_text_def endpoint_ip_def parse_socket_ipv6)
  moreover obtain w where "update_item H (''public_key'', hex_encode H (pub_key (info p))) update_vars_new = Inr w"
    by (simp add: update_item_def key Let_def)
  ultimately have "update_from H (peer_items H p now wall) = Inl (Err ''invalid IP address syntax'')"
    by (simp add: update_from_def peer_items_def update_items_append psk)
  then show ?thesis unfolding eq
    by (subst decode_lines) (simp_all add: plain_peer_items [OF assms(1)] parse_command_def version)
qed

theorem ipv6_endpoint_unreadable_witness:
  "config_decode test_hex (as_bytes (''set=1'' @ [newline] @
     to_config_string test_hex (peer_new test_crypto (peer_info_default\<lparr>endpoint := Some (endpoint_from (SocketAddrV6 1 51820 0 0))\<rparr>)) 5 6 @
     [newline])) = (Inl (Err ''invalid IP address syntax''), as_bytes [newline])"
  by (rule ipv6_endpoint_unreadable [OF lawful_test_hex, where e = "endpoint_from (SocketAddrV6 1 51820 0 0)"
      and a = 1 and port = 51820 and flow = 0 and scope = 0])
    (simp_all add: peer_new_def)

end
