(* ===== verification/RateLimiter.thy ===== *)
theory RateLimiter
  imports Types Timestamp
begin

text \<open>
  \<open>src/ratelimiter.rs\<close>: the per-address token bucket that bounds handshake processing under load.

  The limiter's table is a hash map from addresses to entries. \<open>rl_rx\<close> counts the ticks of the garbage
  collection interval that wait in the channel. \<open>allow\<close> reads the clock twice, so it takes two readings.
\<close>

section \<open>The limiter\<close>

definition PACKETS_PER_SECOND :: u64 where "PACKETS_PER_SECOND = 20"
definition PACKETS_BURSTABLE :: u64 where "PACKETS_BURSTABLE = 5"
definition PACKET_COST :: u64 where "PACKET_COST = 1000000000 div PACKETS_PER_SECOND"
definition MAX_TOKENS :: u64 where "MAX_TOKENS = PACKET_COST * PACKETS_BURSTABLE"
definition GC_INTERVAL :: duration where "GC_INTERVAL = secs 1"

record entry =
  last_time :: timestamp
  tokens :: u64

record rate_limiter =
  rl_table :: "(ip_addr \<times> entry) list"
  rl_rx :: nat

definition rl_new :: rate_limiter where
  "rl_new = \<lparr>rl_table = [], rl_rx = 0\<rparr>"

definition rl_tick :: "rate_limiter \<Rightarrow> rate_limiter" where
  "rl_tick rl = rl\<lparr>rl_rx := rl_rx rl + 1\<rparr>"

definition allow :: "instant \<Rightarrow> instant \<Rightarrow> ip_addr \<Rightarrow> rate_limiter \<Rightarrow> bool \<times> rate_limiter" where
  "allow now1 now2 addr rl =
     (case map_of (rl_table rl) addr of
        Some e \<Rightarrow>
          (let e = e\<lparr>tokens := min MAX_TOKENS (tokens e + of_nat (subsec_nanos (elapsed (last_time e) now1)))\<rparr>;
               e = e\<lparr>last_time := timestamp_now now2\<rparr>
           in if tokens e > PACKET_COST
              then (True, rl\<lparr>rl_table := AList.update addr (e\<lparr>tokens := tokens e - PACKET_COST\<rparr>) (rl_table rl)\<rparr>)
              else (False, rl\<lparr>rl_table := AList.update addr e (rl_table rl)\<rparr>))
      | None \<Rightarrow>
          (True, rl\<lparr>rl_table := AList.update addr
             \<lparr>last_time = timestamp_now now2, tokens = MAX_TOKENS - PACKET_COST\<rparr> (rl_table rl)\<rparr>))"

definition handle_gc :: "instant \<Rightarrow> rate_limiter \<Rightarrow> rate_limiter" where
  "handle_gc now rl = rl\<lparr>rl_table := filter (\<lambda>(_, e). elapsed (last_time e) now \<le> GC_INTERVAL) (rl_table rl)\<rparr>"

definition rl_poll :: "instant \<Rightarrow> rate_limiter \<Rightarrow> rate_limiter" where
  "rl_poll now rl = (if rl_rx rl > 0 then handle_gc now (rl\<lparr>rl_rx := rl_rx rl - 1\<rparr>) else rl)"

section \<open>Invariant\<close>

text \<open>A table is well formed when its addresses are distinct, every bucket holds at most
  \<open>MAX_TOKENS\<close>, and no entry was last touched after the current time.\<close>

definition entry_ok :: "instant \<Rightarrow> entry \<Rightarrow> bool" where
  "entry_ok now e \<longleftrightarrow> tokens e \<le> MAX_TOKENS \<and> (\<exists>t \<le> now. last_time e = Some t)"

definition rl_ok :: "instant \<Rightarrow> rate_limiter \<Rightarrow> bool" where
  "rl_ok now rl \<longleftrightarrow> wf_map (rl_table rl) \<and> (\<forall>addr e. map_of (rl_table rl) addr = Some e \<longrightarrow> entry_ok now e)"

lemma rl_values: "unat PACKET_COST = 50000000" "unat MAX_TOKENS = 250000000" "unat (MAX_TOKENS - PACKET_COST) = 200000000"
  by (simp_all add: PACKET_COST_def MAX_TOKENS_def PACKETS_PER_SECOND_def PACKETS_BURSTABLE_def)

lemma rl_ok_new: "rl_ok now rl_new"
  by (simp add: rl_ok_def rl_new_def)

lemma rl_ok_tick: "rl_ok now rl \<Longrightarrow> rl_ok now (rl_tick rl)"
  by (simp add: rl_ok_def rl_tick_def)

lemma entry_ok_mono: "entry_ok now e \<Longrightarrow> now \<le> now' \<Longrightarrow> entry_ok now' e"
  unfolding entry_ok_def using order_trans by blast

lemma map_of_filter_alist:
  "wf_map m \<Longrightarrow> map_of (filter (\<lambda>(k, v). P v) m) k = (case map_of m k of Some v \<Rightarrow> if P v then Some v else None | None \<Rightarrow> None)"
  by (induction m) (auto simp: wf_map_def map_of_eq_None_iff image_iff split: option.splits if_splits)

lemma wf_map_filter: "wf_map m \<Longrightarrow> wf_map (filter P m)"
  by (simp add: wf_map_def distinct_map_filter)

text \<open>The refill never exceeds the elapsed time, and the sum does not wrap.\<close>

lemma unat_refill:
  assumes "entry_ok t e"
  shows "unat (min MAX_TOKENS (tokens e + of_nat (subsec_nanos d))) = min 250000000 (unat (tokens e) + subsec_nanos d)"
proof -
  have n: "subsec_nanos d < 1000000000" by (simp add: subsec_nanos_def)
  have "unat (of_nat (subsec_nanos d) :: u64) = subsec_nanos d"
    using n by (simp add: unat_of_nat take_bit_nat_eq_self)
  moreover have "unat (tokens e) \<le> 250000000"
    using assms by (simp add: entry_ok_def word_le_nat_alt rl_values)
  ultimately have "unat (tokens e + of_nat (subsec_nanos d)) = unat (tokens e) + subsec_nanos d"
    using n by (subst unat_add_lem [THEN iffD1]) simp_all
  then show ?thesis by (simp add: min_def word_le_nat_alt rl_values)
qed

section \<open>Runs of a bucket\<close>

text \<open>A run counts what the steps admit. Each event happens at or after the current time and moves
  it to the event's own end.\<close>

fun run_bucket :: "('e \<Rightarrow> 's \<Rightarrow> nat \<times> 's) \<Rightarrow> 'e list \<Rightarrow> 's \<Rightarrow> nat \<times> 's" where
  "run_bucket step [] s = (0, s)"
| "run_bucket step (e # es) s =
     (let (n, s) = step e s; (k, s) = run_bucket step es s in (n + k, s))"

fun chronological :: "(nat \<Rightarrow> 'e \<Rightarrow> bool) \<Rightarrow> (nat \<Rightarrow> 'e \<Rightarrow> nat) \<Rightarrow> nat \<Rightarrow> 'e list \<Rightarrow> bool" where
  "chronological may ends t [] \<longleftrightarrow> True"
| "chronological may ends t (e # es) \<longleftrightarrow> may t e \<and> chronological may ends (ends t e) es"

locale token_bucket =
  fixes step :: "'e \<Rightarrow> 's \<Rightarrow> nat \<times> 's"
    and inv :: "nat \<Rightarrow> 's \<Rightarrow> bool"
    and avail :: "nat \<Rightarrow> 's \<Rightarrow> nat"
    and may :: "nat \<Rightarrow> 'e \<Rightarrow> bool"
    and ends :: "nat \<Rightarrow> 'e \<Rightarrow> nat"
    and cap :: nat
    and cost :: nat
  assumes avail_le_cap: "inv t s \<Longrightarrow> avail t s \<le> cap"
    and step_inv: "inv t s \<Longrightarrow> may t e \<Longrightarrow> inv (ends t e) (snd (step e s))"
    and time_advances: "may t e \<Longrightarrow> t \<le> ends t e"
    and step_cost: "inv t s \<Longrightarrow> may t e \<Longrightarrow>
      fst (step e s) * cost + avail (ends t e) (snd (step e s)) \<le> avail t s + (ends t e - t)"
begin

lemma final_time_le: "chronological may ends t es \<Longrightarrow> t \<le> foldl ends t es"
  by (induction es arbitrary: t) (auto dest: time_advances intro: order_trans)

lemma run_inv: "inv t s \<Longrightarrow> chronological may ends t es \<Longrightarrow> inv (foldl ends t es) (snd (run_bucket step es s))"
  by (induction es arbitrary: t s) (auto simp: split_beta dest: step_inv)

lemma run_cost:
  "inv t s \<Longrightarrow> chronological may ends t es \<Longrightarrow>
     fst (run_bucket step es s) * cost + avail (foldl ends t es) (snd (run_bucket step es s))
       \<le> avail t s + (foldl ends t es - t)"
proof (induction es arbitrary: t s)
  case Nil
  then show ?case by simp
next
  case (Cons e es)
  let ?t = "ends t e" and ?s = "snd (step e s)"
  have "inv ?t ?s" "t \<le> ?t" "?t \<le> foldl ends ?t es"
    using Cons.prems step_inv time_advances final_time_le by auto
  moreover have "fst (step e s) * cost + avail ?t ?s \<le> avail t s + (?t - t)"
    using Cons.prems step_cost by simp
  moreover have "fst (run_bucket step es ?s) * cost + avail (foldl ends ?t es) (snd (run_bucket step es ?s))
      \<le> avail ?t ?s + (foldl ends ?t es - ?t)"
    using Cons calculation(1) by simp
  ultimately show ?case by (simp add: split_beta add_mult_distrib)
qed

lemma rate_bound:
  "inv t s \<Longrightarrow> chronological may ends t es \<Longrightarrow>
     fst (run_bucket step es s) * cost \<le> cap + (foldl ends t es - t)"
  using run_cost [of t s es] avail_le_cap [of t s] by linarith

end

section \<open>The limiter as a bucket per address\<close>

datatype rl_event = Allow ip_addr instant instant | Tick | Poll instant

fun rl_step :: "ip_addr \<Rightarrow> rl_event \<Rightarrow> rate_limiter \<Rightarrow> nat \<times> rate_limiter" where
  "rl_step a (Allow addr now1 now2) rl =
     (let (ok, rl) = allow now1 now2 addr rl in (if ok \<and> addr = a then 1 else 0, rl))"
| "rl_step a Tick rl = (0, rl_tick rl)"
| "rl_step a (Poll now) rl = (0, rl_poll now rl)"

fun rl_may :: "instant \<Rightarrow> rl_event \<Rightarrow> bool" where
  "rl_may t (Allow addr now1 now2) \<longleftrightarrow> t \<le> now1 \<and> now1 \<le> now2"
| "rl_may t Tick \<longleftrightarrow> True"
| "rl_may t (Poll now) \<longleftrightarrow> t \<le> now"

fun rl_ends :: "instant \<Rightarrow> rl_event \<Rightarrow> instant" where
  "rl_ends t (Allow addr now1 now2) = now2"
| "rl_ends t Tick = t"
| "rl_ends t (Poll now) = now"

text \<open>What the bucket of an address can spend now; an address without an entry has a full bucket.\<close>

definition rl_avail :: "ip_addr \<Rightarrow> instant \<Rightarrow> rate_limiter \<Rightarrow> nat" where
  "rl_avail a t rl =
     (case map_of (rl_table rl) a of
        None \<Rightarrow> unat MAX_TOKENS
      | Some e \<Rightarrow> min (unat MAX_TOKENS) (unat (tokens e) + elapsed (last_time e) t))"

lemma rl_avail_le: "rl_avail a t rl \<le> unat MAX_TOKENS"
  by (simp add: rl_avail_def split: option.splits)

lemma allow_other:
  "addr \<noteq> a \<Longrightarrow> map_of (rl_table (snd (allow now1 now2 addr rl))) a = map_of (rl_table rl) a"
  by (simp add: allow_def Let_def split: option.splits)

lemma allow_new:
  "map_of (rl_table rl) addr = None \<Longrightarrow>
     fst (allow now1 now2 addr rl) \<and>
     map_of (rl_table (snd (allow now1 now2 addr rl))) addr =
       Some \<lparr>last_time = Some now2, tokens = MAX_TOKENS - PACKET_COST\<rparr>"
  by (simp add: allow_def timestamp_now_def)

definition refilled :: "instant \<Rightarrow> entry \<Rightarrow> nat" where
  "refilled now e = min 250000000 (unat (tokens e) + subsec_nanos (elapsed (last_time e) now))"

lemma allow_known:
  assumes e: "map_of (rl_table rl) addr = Some e" and ok: "entry_ok t e" and k_def: "k = refilled now1 e"
  obtains tk where "map_of (rl_table (snd (allow now1 now2 addr rl))) addr = Some (e\<lparr>last_time := Some now2, tokens := tk\<rparr>)"
    and "fst (allow now1 now2 addr rl) \<longleftrightarrow> k > 50000000"
    and "unat tk = (if k > 50000000 then k - 50000000 else k)"
proof -
  let ?w = "min MAX_TOKENS (tokens e + of_nat (subsec_nanos (elapsed (last_time e) now1)))"
  have k: "unat ?w = k" unfolding k_def refilled_def by (rule unat_refill [OF ok])
  then have gt: "?w > PACKET_COST \<longleftrightarrow> k > 50000000" by (simp add: word_less_nat_alt rl_values)
  have sub: "unat (?w - PACKET_COST) = k - 50000000" if "k > 50000000"
    using that k gt by (simp add: unat_sub order_less_imp_le rl_values)
  show thesis
    by (rule that [of "if k > 50000000 then ?w - PACKET_COST else ?w"])
      (use e gt k sub in \<open>auto simp: allow_def Let_def timestamp_now_def\<close>)
qed

lemma subsec_nanos_le: "subsec_nanos d \<le> d"
  by (simp add: subsec_nanos_def)

lemma allow_ok:
  assumes "rl_ok t rl" and "t \<le> now1" and "now1 \<le> now2"
  shows "rl_ok now2 (snd (allow now1 now2 addr rl))"
proof -
  have "wf_map (rl_table (snd (allow now1 now2 addr rl)))"
    using assms by (auto simp: rl_ok_def allow_def Let_def split: option.splits)
  moreover have "entry_ok now2 e'" if e': "map_of (rl_table (snd (allow now1 now2 addr rl))) a = Some e'" for a e'
  proof (cases "a = addr")
    case False
    then show ?thesis using e' assms entry_ok_mono [of t e' now2] by (auto simp: rl_ok_def allow_other)
  next
    case True
    show ?thesis
    proof (cases "map_of (rl_table rl) addr")
      case None
      then show ?thesis using e' True allow_new [OF None] by (auto simp: entry_ok_def word_le_nat_alt rl_values)
    next
      case (Some e)
      then have "entry_ok t e" using assms by (auto simp: rl_ok_def)
      then obtain tk where "map_of (rl_table (snd (allow now1 now2 addr rl))) addr =
          Some (e\<lparr>last_time := Some now2, tokens := tk\<rparr>)"
        and tk: "unat tk = (if refilled now1 e > 50000000 then refilled now1 e - 50000000 else refilled now1 e)"
        by (rule allow_known [OF Some _ refl])
      then have e'_eq: "e' = e\<lparr>last_time := Some now2, tokens := tk\<rparr>" using e' True by simp
      have "refilled now1 e \<le> 250000000" by (simp add: refilled_def)
      then have "unat tk \<le> 250000000" using tk by (simp split: if_splits)
      then show ?thesis by (simp add: e'_eq entry_ok_def word_le_nat_alt rl_values)
    qed
  qed
  ultimately show ?thesis by (simp add: rl_ok_def)
qed

lemma allow_cost:
  assumes "rl_ok t rl" and "t \<le> now1" and "now1 \<le> now2"
  shows "(if fst (allow now1 now2 a rl) then 1 else 0) * unat PACKET_COST + rl_avail a now2 (snd (allow now1 now2 a rl))
    \<le> rl_avail a t rl + (now2 - t)"
proof (cases "map_of (rl_table rl) a")
  case None
  then show ?thesis using allow_new [OF None, of now1 now2] by (simp add: rl_avail_def rl_values)
next
  case (Some e)
  then have ok: "entry_ok t e" using assms by (auto simp: rl_ok_def)
  then obtain t0 where t0: "last_time e = Some t0" "t0 \<le> t" by (auto simp: entry_ok_def)
  have k: "refilled now1 e \<le> min 250000000 (unat (tokens e) + (now1 - t0))"
    using subsec_nanos_le [of "now1 - t0"] by (simp add: refilled_def t0)
  obtain tk where "map_of (rl_table (snd (allow now1 now2 a rl))) a = Some (e\<lparr>last_time := Some now2, tokens := tk\<rparr>)"
    and "fst (allow now1 now2 a rl) \<longleftrightarrow> refilled now1 e > 50000000"
    and "unat tk = (if refilled now1 e > 50000000 then refilled now1 e - 50000000 else refilled now1 e)"
    by (rule allow_known [OF Some ok refl])
  then have "(if fst (allow now1 now2 a rl) then 1 else 0) * 50000000 + rl_avail a now2 (snd (allow now1 now2 a rl))
      \<le> refilled now1 e"
    by (auto simp: rl_avail_def rl_values min_def)
  moreover have "refilled now1 e \<le> rl_avail a t rl + (now1 - t)"
    using k Some t0 assms(2) by (auto simp: rl_avail_def rl_values min_def split: if_splits)
  ultimately show ?thesis using assms(2,3) unfolding rl_values by linarith
qed

lemma handle_gc_ok:
  assumes "rl_ok t rl" and "t \<le> now"
  shows "rl_ok now (handle_gc now rl)"
  using assms entry_ok_mono [of t _ now]
  by (auto simp: rl_ok_def handle_gc_def wf_map_filter map_of_filter_alist split: option.splits if_splits)

text \<open>Collecting an entry never helps its address: by then its bucket would be full.\<close>

lemma handle_gc_avail:
  assumes "rl_ok t rl" and "t \<le> now"
  shows "rl_avail a now (handle_gc now rl) \<le> rl_avail a t rl + (now - t)"
proof (cases "map_of (rl_table rl) a")
  case None
  then show ?thesis using assms by (simp add: rl_avail_def handle_gc_def rl_ok_def map_of_filter_alist)
next
  case (Some e)
  then obtain t0 where t0: "last_time e = Some t0" "t0 \<le> t"
    using assms by (auto simp: rl_ok_def entry_ok_def)
  then show ?thesis using assms Some
    by (auto simp: rl_avail_def handle_gc_def rl_ok_def map_of_filter_alist rl_values GC_INTERVAL_def secs_def)
qed

lemma rl_avail_mono: "rl_ok t rl \<Longrightarrow> t \<le> now \<Longrightarrow> rl_avail a now rl \<le> rl_avail a t rl + (now - t)"
  by (fastforce simp: rl_avail_def rl_ok_def entry_ok_def split: option.splits)

lemma rl_ok_mono: "rl_ok t rl \<Longrightarrow> t \<le> now \<Longrightarrow> rl_ok now rl"
  using entry_ok_mono [of t _ now] by (auto simp: rl_ok_def)

lemma rl_step_ok: "rl_ok t rl \<Longrightarrow> rl_may t e \<Longrightarrow> rl_ok (rl_ends t e) (snd (rl_step a e rl))"
  using handle_gc_ok [of t "rl\<lparr>rl_rx := rl_rx rl - 1\<rparr>"]
  by (cases e) (auto simp: split_beta allow_ok rl_ok_tick rl_poll_def rl_ok_mono, auto simp: rl_ok_def)

lemma rl_step_cost:
  assumes "rl_ok t rl" and "rl_may t e"
  shows "fst (rl_step a e rl) * unat PACKET_COST + rl_avail a (rl_ends t e) (snd (rl_step a e rl))
    \<le> rl_avail a t rl + (rl_ends t e - t)"
proof (cases e)
  case (Allow addr now1 now2)
  show ?thesis
  proof (cases "addr = a")
    case True
    then show ?thesis using allow_cost [OF assms(1), of now1 now2 a] assms(2) Allow by (simp add: split_beta)
  next
    case False
    then have "rl_avail a now2 (snd (allow now1 now2 addr rl)) = rl_avail a now2 rl"
      by (simp add: rl_avail_def allow_other)
    then show ?thesis using False rl_avail_mono [OF assms(1), of now2 a] assms(2) Allow by (simp add: split_beta)
  qed
next
  case Tick
  then show ?thesis by (simp add: rl_avail_def rl_tick_def)
next
  case (Poll now)
  have "rl_ok t (rl\<lparr>rl_rx := rl_rx rl - 1\<rparr>)" using assms(1) by (simp add: rl_ok_def)
  from handle_gc_avail [OF this, of now a] show ?thesis
    using Poll assms rl_avail_mono [OF assms(1), of now a] by (auto simp: rl_poll_def rl_avail_def)
qed

interpretation limiter: token_bucket "rl_step a" rl_ok "rl_avail a" rl_may rl_ends "unat MAX_TOKENS" "unat PACKET_COST"
proof
  show "t \<le> rl_ends t e" if "rl_may t e" for t e
    using that by (cases e) auto
qed (rule rl_avail_le rl_step_ok rl_step_cost; assumption)+

section \<open>Properties\<close>

text \<open>C24: whatever the interleaving of packets from other addresses, interval ticks and garbage
  collections, the limiter admits from one address at most five packets plus twenty per second.\<close>

theorem rate_limit:
  assumes "chronological rl_may rl_ends t0 es"
  shows "fst (run_bucket (rl_step a) es rl_new) * 50000000 \<le> 5 * 50000000 + (foldl rl_ends t0 es - t0)"
  using limiter.rate_bound [OF rl_ok_new assms, of a] by (simp add: rl_values)

theorem rate_limit_witness:
  "fst (run_bucket (rl_step (IpV4 1)) [Allow (IpV4 1) 0 0, Tick, Allow (IpV4 2) 1 2, Poll 3, Allow (IpV4 1) 4 5] rl_new)
     * 50000000 \<le> 5 * 50000000 + (5 :: nat)"
  using rate_limit [of 0 "[Allow (IpV4 1) 0 0, Tick, Allow (IpV4 2) 1 2, Poll 3, Allow (IpV4 1) 4 5]" "IpV4 1"]
  by (simp del: run_bucket.simps rl_step.simps)

text \<open>C27: an address whose entry is known is admitted exactly when its tokens and the sub-second part of
  the time since its last packet exceed the cost of a packet; whole seconds of waiting count nothing.\<close>

theorem refill_ignores_seconds:
  assumes "map_of (rl_table rl) a = Some \<lparr>last_time = Some t0, tokens = tk\<rparr>" and "tk \<le> MAX_TOKENS"
  shows "fst (allow (t0 + secs s + n) now2 a rl) \<longleftrightarrow> 50000000 < unat tk + n mod 1000000000"
proof -
  have "entry_ok t0 \<lparr>last_time = Some t0, tokens = tk\<rparr>" using assms(2) by (simp add: entry_ok_def)
  then have "fst (allow (t0 + secs s + n) now2 a rl) \<longleftrightarrow>
      refilled (t0 + secs s + n) \<lparr>last_time = Some t0, tokens = tk\<rparr> > 50000000"
    by (rule allow_known [OF assms(1) _ refl])
  then show ?thesis by (auto simp: refilled_def secs_def subsec_nanos_def)
qed

theorem refill_ignores_seconds_witness:
  "\<not> fst (allow (1 + secs 3) (1 + secs 3) (IpV4 1)
     \<lparr>rl_table = [(IpV4 1, \<lparr>last_time = Some 1, tokens = 50000000\<rparr>)], rl_rx = 0\<rparr>)"
  using refill_ignores_seconds [of "\<lparr>rl_table = [(IpV4 1, \<lparr>last_time = Some 1, tokens = 50000000\<rparr>)], rl_rx = 0\<rparr>"
      "IpV4 1" 1 50000000 3 0 "1 + secs 3"]
  by (simp add: MAX_TOKENS_def PACKET_COST_def PACKETS_PER_SECOND_def PACKETS_BURSTABLE_def)

end
