(* ===== verification/Udp.thy ===== *)
theory Udp
  imports Types
begin

text \<open>
  \<open>src/udp/mod.rs\<close> and \<open>src/udp/frame.rs\<close>: the pair of UDP sockets, the stream and sink of datagrams
  over them, and the channel through which the peer server sends.

  The system calls are the parameter \<open>os\<close>: what each call answers. A method that may call the system
  twice takes one \<open>os\<close> per attempt. Registering interest in readiness with the reactor changes no state
  of the program and is left out.
\<close>

section \<open>The operating system\<close>

datatype fd = Fd4 | Fd6

datatype errno = EAGAIN | EINVAL | Errno nat

datatype nix_error = Sys errno | NixError string

datatype io_error = WouldBlock | OsError errno | OtherError string

datatype control_message =
    Ipv4PacketInfo in_pktinfo
  | Ipv6PacketInfo in6_pktinfo
  | UnknownMessage

record recv_msg =
  rm_data :: bytes
  rm_address :: "socket_addr option"
  rm_cmsgs :: "control_message list"

datatype socket_call =
    NewSocket fd
  | SetNonblocking fd
  | SetReuseAddress fd
  | SetOnlyV6 fd
  | SetPacketInfo fd
  | Bind fd u16
  | FromSocket fd
  | Register fd
  | LocalAddr fd
  | SetMark fd u32

record os =
  os_writable :: "fd \<Rightarrow> bool"
  os_readable :: "fd \<Rightarrow> bool"
  os_sendmsg :: "fd \<Rightarrow> bytes \<Rightarrow> control_message list \<Rightarrow> socket_addr \<Rightarrow> nix_error + nat"
  os_recvmsg :: "fd \<Rightarrow> nat \<Rightarrow> nix_error + recv_msg"
  os_socket :: "socket_call \<Rightarrow> io_error + unit"

section \<open>The socket pair\<close>

text \<open>A sequence of calls that stops at the first error.\<close>

fun socket_calls :: "os \<Rightarrow> socket_call list \<Rightarrow> io_error + unit" where
  "socket_calls os [] = Inr ()"
| "socket_calls os (c # cs) = (case os_socket os c of Inl e \<Rightarrow> Inl e | Inr _ \<Rightarrow> socket_calls os cs)"

text \<open>The results of the two \<open>setsockopt\<close> calls for packet information are ignored.\<close>

definition udp_bind :: "os \<Rightarrow> u16 \<Rightarrow> io_error + unit" where
  "udp_bind os port =
     (case socket_calls os [NewSocket Fd4, NewSocket Fd6, SetNonblocking Fd4, SetReuseAddress Fd4,
                            SetNonblocking Fd6, SetReuseAddress Fd6, SetOnlyV6 Fd6] of
        Inl e \<Rightarrow> Inl e
      | Inr _ \<Rightarrow>
          let _ = os_socket os (SetPacketInfo Fd4);
              _ = os_socket os (SetPacketInfo Fd6)
          in socket_calls os [Bind Fd4 port, Bind Fd6 port, FromSocket Fd4, FromSocket Fd6, Register Fd4, Register Fd6])"

definition local_addrs :: "os \<Rightarrow> io_error + unit" where
  "local_addrs os = socket_calls os [LocalAddr Fd4, LocalAddr Fd6]"

fun get_io :: "endpoint \<Rightarrow> fd" where
  "get_io (EndpointV4 sock info) = Fd4"
| "get_io (EndpointV6 sock info) = Fd6"

definition poll_read :: "os \<Rightarrow> bool" where
  "poll_read os = (if \<not> os_readable os Fd4 then os_readable os Fd6 else True)"

definition poll_write :: "os \<Rightarrow> bool" where
  "poll_write os = (if \<not> os_writable os Fd4 then os_writable os Fd6 else True)"

fun control_messages :: "endpoint \<Rightarrow> control_message list" where
  "control_messages (EndpointV4 sock (Some pktinfo)) = [Ipv4PacketInfo pktinfo]"
| "control_messages (EndpointV6 sock (Some pktinfo)) = [Ipv6PacketInfo pktinfo]"
| "control_messages target = []"

text \<open>The recursive call passes \<open>is_retry = true\<close>, so there are at most two system calls. \<open>sys False\<close> answers
  the first and \<open>sys True\<close> the second.\<close>

function udp_sendmsg :: "(bool \<Rightarrow> os) \<Rightarrow> bytes \<Rightarrow> endpoint \<Rightarrow> bool \<Rightarrow> io_error + nat" where
  "udp_sendmsg sys buf target is_retry =
     (let io = get_io target in
      if \<not> os_writable (sys is_retry) io then Inl WouldBlock
      else
        (case os_sendmsg (sys is_retry) io buf (control_messages target) (endpoint_addr target) of
          Inr len \<Rightarrow> Inr len
        | Inl (Sys EAGAIN) \<Rightarrow> Inl WouldBlock
        | Inl (Sys EINVAL) \<Rightarrow>
            if \<not> is_retry then udp_sendmsg sys buf (to_cleared_pktinfo target) True else Inl (OsError EINVAL)
        | Inl (Sys errno) \<Rightarrow> Inl (OsError errno)
        | Inl (NixError e) \<Rightarrow> Inl (OtherError e)))"
  by pat_completeness auto
termination
  by (relation "measure (\<lambda>(sys, buf, target, is_retry). if is_retry then 0 else 1)") auto

declare udp_sendmsg.simps [simp del]

definition send_to :: "(bool \<Rightarrow> os) \<Rightarrow> bytes \<Rightarrow> endpoint \<Rightarrow> io_error + nat" where
  "send_to sys buf target = udp_sendmsg sys buf target False"

text \<open>The datagram is written to the front of the caller's buffer.\<close>

definition recv_from :: "os \<Rightarrow> bytes \<Rightarrow> (io_error + nat \<times> endpoint) \<times> bytes" where
  "recv_from os buf =
     (if \<not> os_readable os Fd4 \<and> \<not> os_readable os Fd6 then (Inl WouldBlock, buf)
      else
        let io = (if os_readable os Fd4 then Fd4 else Fd6) in
        (case os_recvmsg os io (length buf) of
          Inr msg \<Rightarrow>
            (let buf = put_slice 0 (rm_data msg) buf in
             (case rm_address msg of
               Some addr \<Rightarrow>
                 (case rm_cmsgs msg of
                   Ipv4PacketInfo i # _ \<Rightarrow>
                     (Inr (length (rm_data msg),
                           EndpointV4 addr (Some \<lparr>ipi_ifindex = ipi_ifindex i, ipi_spec_dst = ipi_addr i, ipi_addr = 0\<rparr>)), buf)
                 | Ipv6PacketInfo i # _ \<Rightarrow> (Inr (length (rm_data msg), EndpointV6 addr (Some i)), buf)
                 | _ \<Rightarrow> (Inl (OtherError ''missing pktinfo''), buf))
             | None \<Rightarrow> (Inl (OtherError ''invalid source address''), buf)))
        | Inl (Sys EAGAIN) \<Rightarrow> (Inl WouldBlock, buf)
        | Inl (Sys errno) \<Rightarrow> (Inl (OsError errno), buf)
        | Inl (NixError e) \<Rightarrow> (Inl (OtherError e), buf)))"

section \<open>Framing\<close>

datatype 'a poll = Ready 'a | NotReady

text \<open>The macro \<open>try_nb!\<close>: an operation that would block is not ready.\<close>

definition try_nb :: "io_error + 'a \<Rightarrow> ('a \<Rightarrow> io_error + 'b poll) \<Rightarrow> io_error + 'b poll" where
  "try_nb r k = (case r of Inr x \<Rightarrow> k x | Inl WouldBlock \<Rightarrow> Inr NotReady | Inl e \<Rightarrow> Inl e)"

type_synonym peer_server_message = "endpoint \<times> bytes"

definition codec_decode :: "endpoint \<Rightarrow> bytes \<Rightarrow> io_error + peer_server_message" where
  "codec_decode src buf = Inr (src, buf)"

definition codec_encode :: "peer_server_message \<Rightarrow> bytes \<Rightarrow> endpoint \<times> bytes" where
  "codec_encode msg buf = (let (addr, data) = msg in (addr, buf @ data))"

record udp_framed =
  rd :: bytes
  wr :: bytes
  out_addr :: endpoint
  flushed :: bool

definition framed_new :: udp_framed where
  "framed_new =
     \<lparr>rd = replicate (64 * 1024) 0, wr = [], out_addr = endpoint_from (SocketAddrV4 0 0), flushed = True\<rparr>"

definition framed_poll :: "os \<Rightarrow> udp_framed \<Rightarrow> (io_error + peer_server_message option poll) \<times> udp_framed" where
  "framed_poll os f =
     (let (r, buf) = recv_from os (rd f);
          f = f\<lparr>rd := buf\<rparr>
      in (try_nb r (\<lambda>(n, addr).
            (case codec_decode addr (take n (rd f)) of Inl e \<Rightarrow> Inl e | Inr frame \<Rightarrow> Inr (Ready (Some frame)))), f))"

definition poll_complete :: "(bool \<Rightarrow> os) \<Rightarrow> udp_framed \<Rightarrow> (io_error + unit poll) \<times> udp_framed" where
  "poll_complete sys f =
     (if flushed f then (Inr (Ready ()), f)
      else
        (case send_to sys (wr f) (out_addr f) of
          Inl WouldBlock \<Rightarrow> (Inr NotReady, f)
        | Inl e \<Rightarrow> (Inl e, f)
        | Inr n \<Rightarrow>
            let wrote_all = (n = length (wr f));
                f = f\<lparr>wr := [], flushed := True\<rparr>
            in if wrote_all then (Inr (Ready ()), f)
               else (Inl (OtherError ''failed to write entire datagram to socket''), f)))"

datatype 'a async_sink = SinkReady | SinkNotReady 'a

definition start_send ::
  "(bool \<Rightarrow> os) \<Rightarrow> peer_server_message \<Rightarrow> udp_framed \<Rightarrow> (io_error + peer_server_message async_sink) \<times> udp_framed" where
  "start_send sys item f =
     (case (if \<not> flushed f then poll_complete sys f else (Inr (Ready ()), f)) of
        (Inl e, f) \<Rightarrow> (Inl e, f)
      | (Inr NotReady, f) \<Rightarrow> (Inr (SinkNotReady item), f)
      | (Inr (Ready _), f) \<Rightarrow>
          let (addr, buf) = codec_encode item (wr f)
          in (Inr SinkReady, f\<lparr>out_addr := addr, wr := buf, flushed := False\<rparr>))"

definition framed_close :: "(bool \<Rightarrow> os) \<Rightarrow> udp_framed \<Rightarrow> (io_error + unit poll) \<times> udp_framed" where
  "framed_close sys f =
     (case poll_complete sys f of
        (Inl e, f) \<Rightarrow> (Inl e, f)
      | (Inr NotReady, f) \<Rightarrow> (Inr NotReady, f)
      | (Inr (Ready _), f) \<Rightarrow> (Inr (Ready ()), f))"

definition v6_mapped_to_v4 :: "128 word \<Rightarrow> 32 word option" where
  "v6_mapped_to_v4 addr =
     (let seg = (\<lambda>i. drop_bit (112 - 16 * i) addr AND 0xffff) in
      if (\<forall>i \<in> {0, 1, 2, 3, 4}. seg i = 0) \<and> seg 5 = 0xffff
      then let g = seg 6; h = seg 7
           in Some (push_bit 24 (ucast (drop_bit 8 g)) OR push_bit 16 (ucast (g AND 0xff)) OR
                    push_bit 8 (ucast (drop_bit 8 h)) OR ucast (h AND 0xff))
      else None)"

section \<open>The channel of the peer server\<close>

text \<open>\<open>egress\<close> is what waits for the task that writes to the socket, \<open>egress_open\<close> whether that task still
  runs: it ends at its first error, and what is sent afterwards is dropped. \<open>ingress\<close> is what the stream
  of datagrams yields, errors included.\<close>

record udp_channel =
  ingress :: "(io_error + peer_server_message) list"
  egress :: "peer_server_message list"
  egress_open :: bool
  mark4 :: u32
  mark6 :: u32

definition udp_channel_from :: udp_channel where
  "udp_channel_from = \<lparr>ingress = [], egress = [], egress_open = True, mark4 = 0, mark6 = 0\<rparr>"

definition udp_send :: "peer_server_message \<Rightarrow> udp_channel \<Rightarrow> udp_channel" where
  "udp_send message u = (if egress_open u then u\<lparr>egress := egress u @ [message]\<rparr> else u)"

definition set_mark :: "os \<Rightarrow> u32 \<Rightarrow> udp_channel \<Rightarrow> (io_error + unit) \<times> udp_channel" where
  "set_mark os mark u =
     (case os_socket os (SetMark Fd4 mark) of
        Inl e \<Rightarrow> (Inl e, u)
      | Inr _ \<Rightarrow>
          let u = u\<lparr>mark4 := mark\<rparr> in
          (case os_socket os (SetMark Fd6 mark) of
            Inl e \<Rightarrow> (Inl e, u)
          | Inr _ \<Rightarrow> (Inr (), u\<lparr>mark6 := mark\<rparr>)))"

section \<open>What reaches the socket\<close>

datatype sink_call =
    StartSend peer_server_message "bool \<Rightarrow> os"
  | PollComplete "bool \<Rightarrow> os"

text \<open>The datagram a call hands to the operating system successfully.\<close>

definition written :: "(bool \<Rightarrow> os) \<Rightarrow> udp_framed \<Rightarrow> peer_server_message list" where
  "written sys f =
     (if flushed f then [] else (case send_to sys (wr f) (out_addr f) of Inr n \<Rightarrow> [(out_addr f, wr f)] | Inl _ \<Rightarrow> []))"

definition unsent :: "udp_framed \<Rightarrow> peer_server_message list" where
  "unsent f = (if flushed f then [] else [(out_addr f, wr f)])"

text \<open>A call of the sink: the item it accepts, the datagram it writes, the sink it leaves.\<close>

fun sink_step :: "sink_call \<Rightarrow> udp_framed \<Rightarrow> peer_server_message list \<times> peer_server_message list \<times> udp_framed" where
  "sink_step (StartSend item sys) f =
     (let (r, f') = start_send sys item f in ((if r = Inr SinkReady then [item] else []), written sys f, f'))"
| "sink_step (PollComplete sys) f = ([], written sys f, snd (poll_complete sys f))"

fun sink_run :: "sink_call list \<Rightarrow> udp_framed \<Rightarrow> peer_server_message list \<times> peer_server_message list \<times> udp_framed" where
  "sink_run [] f = ([], [], f)"
| "sink_run (c # cs) f =
     (let (acc, out, f) = sink_step c f; (acc', out', f) = sink_run cs f in (acc @ acc', out @ out', f))"

definition framed_ok :: "udp_framed \<Rightarrow> bool" where
  "framed_ok f \<longleftrightarrow> (flushed f \<longrightarrow> wr f = [])"

lemma poll_complete_step:
  assumes "framed_ok f" and "poll_complete sys f = (r, f')"
  shows "framed_ok f'" "unsent f = written sys f @ unsent f'" "r = Inr (Ready ()) \<Longrightarrow> flushed f' \<and> unsent f' = []"
  using assms
  by (auto simp: poll_complete_def framed_ok_def written_def unsent_def Let_def
      split: if_splits sum.splits io_error.splits)

lemma start_send_step:
  assumes ok: "framed_ok f" and step: "start_send sys item f = (r, f')"
  shows "framed_ok f'" "unsent f @ (if r = Inr SinkReady then [item] else []) = written sys f @ unsent f'"
proof -
  obtain q g where q: "poll_complete sys f = (q, g)" by fastforce
  note g = poll_complete_step [OF ok q]
  have "q = Inr (Ready ())" "g = f" if "flushed f" using q that by (auto simp: poll_complete_def)
  then have start: "start_send sys item f =
      (case q of Inl e \<Rightarrow> (Inl e, g) | Inr NotReady \<Rightarrow> (Inr (SinkNotReady item), g)
       | Inr (Ready _) \<Rightarrow> (Inr SinkReady, g\<lparr>out_addr := fst item, wr := wr g @ snd item, flushed := False\<rparr>))"
    by (auto simp: start_send_def q codec_encode_def split_beta split: sum.splits poll.splits)
  consider (fail) "r \<noteq> Inr SinkReady" "f' = g" | (ok) "r = Inr SinkReady" "q = Inr (Ready ())"
      "f' = g\<lparr>out_addr := fst item, wr := wr g @ snd item, flushed := False\<rparr>"
    using step unfolding start by (auto split: sum.splits poll.splits)
  then have "framed_ok f' \<and> unsent f @ (if r = Inr SinkReady then [item] else []) = written sys f @ unsent f'"
  proof cases
    case fail
    then show ?thesis using g(1,2) by simp
  next
    case ok
    have "flushed g" "unsent g = []" using g(3) [OF ok(2)] by simp_all
    then have "wr g = []" using g(1) by (simp add: framed_ok_def)
    then show ?thesis using g(2) \<open>unsent g = []\<close> ok(1,3) by (simp add: framed_ok_def) (simp add: unsent_def)
  qed
  then show "framed_ok f'" "unsent f @ (if r = Inr SinkReady then [item] else []) = written sys f @ unsent f'" by simp_all
qed

lemma sink_step_unsent:
  assumes "framed_ok f" and "sink_step c f = (acc, out, f')"
  shows "framed_ok f'" "unsent f @ acc = out @ unsent f'"
proof -
  have "framed_ok f' \<and> unsent f @ acc = out @ unsent f'"
  proof (cases c)
    case (StartSend item sys)
    obtain r g where "start_send sys item f = (r, g)" by fastforce
    with start_send_step [OF assms(1) this] show ?thesis using assms(2) StartSend by auto
  next
    case (PollComplete sys)
    obtain r g where "poll_complete sys f = (r, g)" by fastforce
    with poll_complete_step(1,2) [OF assms(1) this] show ?thesis using assms(2) PollComplete by auto
  qed
  then show "framed_ok f'" "unsent f @ acc = out @ unsent f'" by simp_all
qed

lemma sink_run_unsent:
  assumes "framed_ok f" and "sink_run cs f = (acc, out, f')"
  shows "unsent f @ acc = out @ unsent f'"
  using assms
proof (induction cs arbitrary: f acc out)
  case (Cons c cs)
  obtain acc1 out1 g where g: "sink_step c f = (acc1, out1, g)" using prod_cases3 by blast
  obtain acc2 out2 where cs: "sink_run cs g = (acc2, out2, f')" and eq: "acc = acc1 @ acc2" "out = out1 @ out2"
    using Cons.prems(2) by (auto simp: g split: prod.splits)
  have "unsent f @ acc1 = out1 @ unsent g" "unsent g @ acc2 = out2 @ unsent f'"
    using sink_step_unsent [OF Cons.prems(1) g] Cons.IH [OF _ cs] by blast+
  then show ?case by (metis append.assoc eq)
qed simp

lemma framed_ok_new: "framed_ok framed_new" "unsent framed_new = []"
  by (simp_all add: framed_ok_def framed_new_def unsent_def)

section \<open>Properties\<close>

text \<open>C32: whatever the operating system answers and however the sink is driven, the datagrams handed to
  the socket are the messages the sink accepted, each once, whole and in order, but for the last one
  accepted, which may still wait to be sent.\<close>

theorem framed_sends_in_order:
  "let (accepted, sent, f) = sink_run calls framed_new in accepted = sent @ unsent f \<and> length (unsent f) \<le> 1"
proof -
  obtain acc out f where "sink_run calls framed_new = (acc, out, f)" using prod_cases3 by blast
  then show ?thesis using sink_run_unsent [OF framed_ok_new(1), of calls acc out f]
    by (simp add: framed_ok_new(2)) (simp add: unsent_def)
qed

text \<open>C33: a datagram is sent exactly when the system accepts it with the endpoint's packet information, or
  rejects that with \<open>EINVAL\<close> and accepts it without; it always goes to the endpoint's own address through
  the socket of its family.\<close>

theorem send_to_succeeds:
  "send_to sys buf target = Inr n \<longleftrightarrow>
     os_writable (sys False) (get_io target) \<and>
     (let call = (\<lambda>retry cmsgs. os_sendmsg (sys retry) (get_io target) buf cmsgs (endpoint_addr target)) in
      call False (control_messages target) = Inr n \<or>
      call False (control_messages target) = Inl (Sys EINVAL) \<and>
        os_writable (sys True) (get_io target) \<and> call True [] = Inr n)"
proof -
  have cleared: "get_io (to_cleared_pktinfo target) = get_io target" "control_messages (to_cleared_pktinfo target) = []"
    by (cases target; simp)+
  show ?thesis
    by (auto simp: send_to_def udp_sendmsg.simps [of sys buf target] udp_sendmsg.simps [of sys buf "to_cleared_pktinfo target"]
        cleared Let_def split: sum.splits nix_error.splits errno.splits)
qed

text \<open>C34: a datagram received over IPv4 gives an endpoint whose replies leave from the address and the
  interface the datagram arrived at, and one without packet information is an error.\<close>

theorem recv_from_sticky:
  assumes "os_readable os Fd4" and "os_recvmsg os Fd4 (length buf) = Inr msg" and "rm_address msg = Some addr"
  shows "case fst (recv_from os buf) of
     Inr (n, ep) \<Rightarrow> n = length (rm_data msg) \<and> endpoint_addr ep = addr \<and>
       (\<forall>i cs. rm_cmsgs msg = Ipv4PacketInfo i # cs \<longrightarrow> get_io ep = Fd4 \<and>
          control_messages ep = [Ipv4PacketInfo \<lparr>ipi_ifindex = ipi_ifindex i, ipi_spec_dst = ipi_addr i, ipi_addr = 0\<rparr>])
   | Inl e \<Rightarrow> e = OtherError ''missing pktinfo'' \<and> (rm_cmsgs msg = [] \<or> hd (rm_cmsgs msg) = UnknownMessage)"
  using assms by (auto simp: recv_from_def Let_def split: list.splits control_message.splits)

definition test_os :: os where
  "test_os =
     \<lparr>os_writable = \<lambda>_. True, os_readable = \<lambda>_. True, os_sendmsg = \<lambda>_ buf _ _. Inr (length buf),
      os_recvmsg = \<lambda>_ _. Inr \<lparr>rm_data = [4], rm_address = Some (SocketAddrV4 1 2),
        rm_cmsgs = [Ipv4PacketInfo \<lparr>ipi_ifindex = 3, ipi_spec_dst = 0, ipi_addr = 9\<rparr>]\<rparr>,
      os_socket = \<lambda>_. Inr ()\<rparr>"

theorem recv_from_sticky_witness:
  "\<exists>ep. fst (recv_from test_os [0, 0]) = Inr (1, ep) \<and>
     control_messages ep = [Ipv4PacketInfo \<lparr>ipi_ifindex = 3, ipi_spec_dst = 9, ipi_addr = 0\<rparr>]"
  using recv_from_sticky [of test_os "[0, 0]"
      "\<lparr>rm_data = [4], rm_address = Some (SocketAddrV4 1 2),
        rm_cmsgs = [Ipv4PacketInfo \<lparr>ipi_ifindex = 3, ipi_spec_dst = 0, ipi_addr = 9\<rparr>]\<rparr>" "SocketAddrV4 1 2"]
  by (cases "fst (recv_from test_os [0, 0])") (auto simp: test_os_def)

end
