(* ===== verification/PeerServer.thy ===== *)
theory PeerServer
  imports Device RateLimiter Udp
begin

text \<open>
  \<open>src/interface/peer_server.rs\<close>: the event handlers of the peer server and the \<open>poll\<close> method that runs
  them.

  A handler is a function of the libraries \<open>L\<close>, of the environment \<open>E\<close> of its call (the clocks, the
  random draws, the answers of the operating system) and of the server it starts from; it returns its
  result and the server it leaves behind, on errors too. All readings of a clock in one call agree.
  Senders and receivers of a channel are the queue between them. Numbers formatted into error messages
  of the timer handlers are left out.
\<close>

section \<open>State and environment\<close>

text \<open>The third-party libraries.\<close>

record ('n, 't4, 't6) libs =
  noise_lib :: "'n noise_ops"
  crypto_lib :: crypto
  ip_lib :: ip_parsers
  router_lib :: "('t4, 't6, peer_ref) router_ops"

record env =
  e_now :: instant
  e_wall :: duration
  e_entropy :: nat
  e_draws :: "u32 list"
  e_secret :: bytes
  e_nonce :: bytes
  e_os :: os
  e_tunnel_open :: bool

record ('n, 't4, 't6) server =
  shared_state :: "('n, 't4, 't6) state"
  udp :: "udp_channel option"
  port :: "u16 option"
  outgoing :: "utun_packet list"
  channel :: "channel_message list"
  handshakes :: "(endpoint \<times> message) list"
  timer :: timer
  tunnel_tx :: "bytes list"
  cookie :: validator
  rate_limiter :: rate_limiter
  under_load_until :: instant

definition peer_server_new :: "crypto \<Rightarrow> ('n, 't4, 't6) state \<Rightarrow> instant \<Rightarrow> ('n, 't4, 't6) server" where
  "peer_server_new C st now =
     \<lparr>shared_state = st, udp = None, port = None, outgoing = [], channel = [], handshakes = [],
      timer = timer_new, tunnel_tx = [], cookie = validator_new C (replicate 32 0), rate_limiter = rl_new,
      under_load_until = now\<rparr>"

text \<open>Access to a peer through a shared reference, and the calls of its methods.\<close>

definition peer_at :: "('n, 't4, 't6) server \<Rightarrow> peer_ref \<Rightarrow> 'n peer" where
  "peer_at sv r = heap (shared_state sv) r"

definition set_peer :: "peer_ref \<Rightarrow> 'n peer \<Rightarrow> ('n, 't4, 't6) server \<Rightarrow> ('n, 't4, 't6) server" where
  "set_peer r p sv = sv\<lparr>shared_state := put_peer r p (shared_state sv)\<rparr>"

definition peer_call ::
  "peer_ref \<Rightarrow> ('n peer \<Rightarrow> 'a result \<times> 'n peer) \<Rightarrow> ('n, 't4, 't6) server \<Rightarrow> 'a result \<times> ('n, 't4, 't6) server" where
  "peer_call r f sv = (let (x, p) = f (peer_at sv r) in (x, set_peer r p sv))"

definition set_timers :: "peer_ref \<Rightarrow> (timers \<Rightarrow> timers) \<Rightarrow> ('n, 't4, 't6) server \<Rightarrow> ('n, 't4, 't6) server" where
  "set_timers r f sv = set_peer r ((peer_at sv r)\<lparr>timers := f (timers (peer_at sv r))\<rparr>) sv"

definition set_queue :: "peer_ref \<Rightarrow> utun_packet list \<Rightarrow> ('n, 't4, 't6) server \<Rightarrow> ('n, 't4, 't6) server" where
  "set_queue r q sv = set_peer r ((peer_at sv r)\<lparr>outgoing_queue := q\<rparr>) sv"

definition insert_index :: "u32 \<Rightarrow> peer_ref \<Rightarrow> ('n, 't4, 't6) server \<Rightarrow> ('n, 't4, 't6) server" where
  "insert_index i r sv =
     sv\<lparr>shared_state := (shared_state sv)\<lparr>index_map := AList.update i r (index_map (shared_state sv))\<rparr>\<rparr>"

definition remove_indices :: "u32 list \<Rightarrow> ('n, 't4, 't6) server \<Rightarrow> ('n, 't4, 't6) server" where
  "remove_indices is sv =
     sv\<lparr>shared_state := (shared_state sv)\<lparr>index_map := delete_all is (index_map (shared_state sv))\<rparr>\<rparr>"

text \<open>\<open>self.timer.send_after\<close>\<close>

definition arm :: "env \<Rightarrow> duration \<Rightarrow> timer_message \<Rightarrow> ('n, 't4, 't6) server \<Rightarrow> timer_handle \<times> ('n, 't4, 't6) server" where
  "arm E wait message sv =
     (let (h, t) = send_after wait message (e_now E) (timer sv) in (h, sv\<lparr>timer := t\<rparr>))"

definition arm_persistent :: "env \<Rightarrow> duration \<Rightarrow> peer_ref \<Rightarrow> ('n, 't4, 't6) server \<Rightarrow> ('n, 't4, 't6) server" where
  "arm_persistent E wait r sv =
     (let (h, sv) = arm E wait (PersistentKeepAlive r) sv in set_timers r (persistent_timer_update (\<lambda>_. Some h)) sv)"

text \<open>\<open>peer_ref.upgrade()\<close> succeeds while a strong reference exists: in the two maps or in a message of the
  channel. Every reference in the routing table is also in the map of public keys.\<close>

definition message_ref :: "channel_message \<Rightarrow> peer_ref option" where
  "message_ref m = (case m of NewPersistentKeepalive r \<Rightarrow> Some r | NewPeer r \<Rightarrow> Some r | _ \<Rightarrow> None)"

definition upgrade :: "peer_ref \<Rightarrow> ('n, 't4, 't6) server \<Rightarrow> bool" where
  "upgrade r sv \<longleftrightarrow>
     r \<in> snd ` set (pubkey_map (shared_state sv)) \<or> r \<in> snd ` set (index_map (shared_state sv)) \<or>
     Some r \<in> message_ref ` set (channel sv)"

section \<open>Sockets and channels\<close>

text \<open>The texts of I/O errors come from the operating system.\<close>

definition io_result :: "io_error + 'a \<Rightarrow> 'a result" where
  "io_result = map_sum (\<lambda>_. Err ''io error'') id"

definition rebind :: "env \<Rightarrow> ('n, 't4, 't6) server \<Rightarrow> unit result \<times> ('n, 't4, 't6) server" where
  "rebind E sv =
     (let interface = interface_info (shared_state sv) in
      if if_private_key interface = None then (Inr (), sv\<lparr>udp := None, port := None\<rparr>)
      else
        let prt = (case if_listen_port interface of Some p \<Rightarrow> p | None \<Rightarrow> 0);
            fwmark = (case if_fwmark interface of Some m \<Rightarrow> m | None \<Rightarrow> 0)
        in if port sv = Some prt then (Inr (), sv)
           else
             and_then (io_result (udp_bind (e_os E) prt), sv) (\<lambda>_ sv.
             and_then (io_result (local_addrs (e_os E)), sv) (\<lambda>_ sv.
               let u = udp_channel_from;
                   (r, u) = (if fwmark \<noteq> 0 then set_mark (e_os E) fwmark u else (Inr (), u))
               in and_then (io_result r, sv) (\<lambda>_ sv. (Inr (), sv\<lparr>udp := Some u, port := Some prt\<rparr>)))))"

definition send_to_peer :: "peer_server_message \<Rightarrow> ('n, 't4, 't6) server \<Rightarrow> unit result \<times> ('n, 't4, 't6) server" where
  "send_to_peer payload sv =
     (case udp sv of
        None \<Rightarrow> (Inl (Err ''no udp socket''), sv)
      | Some u \<Rightarrow> (Inr (), sv\<lparr>udp := Some (udp_send payload u)\<rparr>))"

definition send_to_tunnel :: "env \<Rightarrow> bytes \<Rightarrow> ('n, 't4, 't6) server \<Rightarrow> unit result \<times> ('n, 't4, 't6) server" where
  "send_to_tunnel E packet sv =
     (if e_tunnel_open E then (Inr (), sv\<lparr>tunnel_tx := tunnel_tx sv @ [packet]\<rparr>)
      else (Inl (Err ''send failed because receiver is gone''), sv))"

fun unused_index :: "u32 list \<Rightarrow> ('n, 't4, 't6) state \<Rightarrow> u32 result" where
  "unused_index [] st = Inl Looping"
| "unused_index (tentative # draws) st =
     (if map_of (index_map st) tentative = None then Inr tentative else unused_index draws st)"

definition under_load :: "env \<Rightarrow> ('n, 't4, 't6) server \<Rightarrow> bool \<times> ('n, 't4, 't6) server" where
  "under_load E sv =
     (let sv = (if length (handshakes sv) > UNDER_LOAD_QUEUE_SIZE
                then sv\<lparr>under_load_until := e_now E + UNDER_LOAD_TIME\<rparr> else sv)
      in (under_load_until sv > e_now E, sv))"

section \<open>Sessions\<close>

text \<open>Sending what a peer encrypts.\<close>

definition send_transport ::
  "('n, 't4, 't6) libs \<Rightarrow> env \<Rightarrow> peer_ref \<Rightarrow> bytes \<Rightarrow> ('n, 't4, 't6) server \<Rightarrow> unit result \<times> ('n, 't4, 't6) server" where
  "send_transport L E r packet sv =
     and_then (peer_call r (handle_outgoing_transport (noise_lib L) packet (e_now E)) sv) send_to_peer"

text \<open>The private key, an unused index and the new session, which replaces the \<open>next\<close> session in the
  index map.\<close>

definition open_session ::
  "('n, 't4, 't6) libs \<Rightarrow> env \<Rightarrow> bytes \<Rightarrow> u32 \<Rightarrow> peer_ref \<Rightarrow> ('n, 't4, 't6) server \<Rightarrow>
     peer_server_message result \<times> ('n, 't4, 't6) server" where
  "open_session L E private_key new_index r sv =
     and_then (peer_call r (initiate_new_session (noise_lib L) (crypto_lib L) private_key new_index
                 (e_entropy E) (e_now E) (e_wall E)) sv)
       (\<lambda>(ep, init_packet, dead_index) sv.
          let sv = insert_index new_index r sv;
              sv = remove_indices (opt_list dead_index) sv
          in (Inr (ep, init_packet), sv))"

definition send_handshake_init ::
  "('n, 't4, 't6) libs \<Rightarrow> env \<Rightarrow> peer_ref \<Rightarrow> ('n, 't4, 't6) server \<Rightarrow> u32 result \<times> ('n, 't4, 't6) server" where
  "send_handshake_init L E r sv =
     (if elapsed (handshake_initialized (timers (peer_at sv r))) (e_now E) < REKEY_TIMEOUT
      then (Inl (Err ''skipping handshake init because of REKEY_TIMEOUT''), sv)
      else
        (case if_private_key (interface_info (shared_state sv)) of
          None \<Rightarrow> (Inl (Err ''no private key!''), sv)
        | Some private_key \<Rightarrow>
            and_then (unused_index (e_draws E) (shared_state sv), sv) (\<lambda>new_index sv.
            and_then (open_session L E private_key new_index r sv) (\<lambda>message sv.
            and_then (send_to_peer message sv) (\<lambda>_ sv.
              let sv = set_timers r (handshake_initialized_update (\<lambda>_. timestamp_now (e_now E))) sv;
                  (_, sv) = arm E REKEY_TIMEOUT (Rekey r new_index) sv
              in (Inr new_index, sv))))))"

text \<open>\<open>while let Some(packet) = peer.outgoing_queue.pop_front()\<close>\<close>

lemma outgoing_queue_handle_outgoing:
  "outgoing_queue (snd (handle_outgoing_transport N packet t p)) = outgoing_queue p"
  by (auto simp: handle_outgoing_transport_def Let_def put_session_def split: option.splits sum.splits prod.splits)

lemma peer_at_set_peer [simp]: "peer_at (set_peer r p sv) q = (if q = r then p else peer_at sv q)"
  by (simp add: peer_at_def set_peer_def put_peer_def)

lemma peer_at_udp [simp]: "peer_at (sv\<lparr>udp := u\<rparr>) q = peer_at sv q"
  by (simp add: peer_at_def)

lemma send_transport_queue:
  "outgoing_queue (peer_at (snd (send_transport L E r packet sv)) r) = outgoing_queue (peer_at sv r)"
  using outgoing_queue_handle_outgoing [of "noise_lib L" packet "e_now E" "peer_at sv r"]
  by (auto simp: send_transport_def peer_call_def send_to_peer_def split: and_then_splits prod.splits option.splits)

function flush_queue ::
  "('n, 't4, 't6) libs \<Rightarrow> env \<Rightarrow> peer_ref \<Rightarrow> ('n, 't4, 't6) server \<Rightarrow> unit result \<times> ('n, 't4, 't6) server" where
  "flush_queue L E r sv =
     (case outgoing_queue (peer_at sv r) of
        [] \<Rightarrow> (Inr (), sv)
      | packet # rest \<Rightarrow>
          and_then (send_transport L E r (utun_payload packet) (set_queue r rest sv)) (\<lambda>_ sv. flush_queue L E r sv))"
  by pat_completeness auto
termination
proof (relation "measure (\<lambda>(L, E, r, sv). length (outgoing_queue (peer_at sv r)))")
  fix L :: "('n, 't4, 't6) libs" and E r sv packet rest x sv'
  assume "outgoing_queue (peer_at sv r) = packet # rest"
    and "send_transport L E r (utun_payload packet) (set_queue r rest sv) = (Inr x, sv')"
  then show "((L, E, r, sv'), L, E, r, sv) \<in> measure (\<lambda>(L, E, r, sv). length (outgoing_queue (peer_at sv r)))"
    using send_transport_queue [of L E r "utun_payload packet" "set_queue r rest sv"] by (simp add: set_queue_def)
qed simp

declare flush_queue.simps [simp del]

text \<open>The loop over the drained queue, which goes on after a packet that cannot be encrypted.\<close>

fun send_drained ::
  "('n, 't4, 't6) libs \<Rightarrow> env \<Rightarrow> peer_ref \<Rightarrow> utun_packet list \<Rightarrow> ('n, 't4, 't6) server \<Rightarrow>
     unit result \<times> ('n, 't4, 't6) server" where
  "send_drained L E r [] sv = (Inr (), sv)"
| "send_drained L E r (packet # packets) sv =
     (case peer_call r (handle_outgoing_transport (noise_lib L) (utun_payload packet) (e_now E)) sv of
        (Inr message, sv) \<Rightarrow> and_then (send_to_peer message sv) (\<lambda>_ sv. send_drained L E r packets sv)
      | (Inl _, sv) \<Rightarrow> send_drained L E r packets sv)"

section \<open>Handshake messages\<close>

definition ip_octets :: "ip_addr \<Rightarrow> bytes" where
  "ip_octets ip = (case ip of IpV4 a \<Rightarrow> be_bytes 4 (unat a) | IpV6 a \<Rightarrow> be_bytes 16 (unat a))"

definition send_cookie_reply ::
  "('n, 't4, 't6) libs \<Rightarrow> env \<Rightarrow> endpoint \<Rightarrow> bytes \<Rightarrow> u32 \<Rightarrow> ('n, 't4, 't6) server \<Rightarrow>
     unit result \<times> ('n, 't4, 't6) server" where
  "send_cookie_reply L E addr mac1 index sv =
     (let (reply, ck) = generate_reply (crypto_lib L) (cookie sv) index mac1 (ip_octets (endpoint_ip addr))
                          (e_secret E) (e_nonce E) (e_now E)
      in and_then (reply, sv\<lparr>cookie := ck\<rparr>) (\<lambda>reply sv. send_to_peer (addr, reply) sv))"

text \<open>The block \<open>if self.under_load() { ... }\<close> of the two handshake handlers.\<close>

definition check_load ::
  "('n, 't4, 't6) libs \<Rightarrow> env \<Rightarrow> endpoint \<Rightarrow> bytes \<Rightarrow> bytes \<Rightarrow> u32 \<Rightarrow> string \<Rightarrow> ('n, 't4, 't6) server \<Rightarrow>
     unit result \<times> ('n, 't4, 't6) server" where
  "check_load L E addr packet mac1 index message sv =
     (let (load, sv) = under_load E sv in
      if \<not> load then (Inr (), sv)
      else
        let mac2_verified =
              (case verify_mac2 (crypto_lib L) (cookie sv) packet (ip_octets (endpoint_ip addr)) (e_now E) of
                 Inr _ \<Rightarrow> True | Inl _ \<Rightarrow> False)
        in if \<not> mac2_verified
           then and_then (send_cookie_reply L E addr mac1 index sv) (\<lambda>_ sv. (Inl (Err message), sv))
           else
             let (allowed, rl) = allow (e_now E) (e_now E) (endpoint_ip addr) (rate_limiter sv);
                 sv = sv\<lparr>rate_limiter := rl\<rparr>
             in if \<not> allowed then (Inl (Err ''rejected by rate limiter.''), sv) else (Inr (), sv))"

text \<open>The responder's session, which takes the place of the \<open>next\<close> session in the index map.\<close>

definition accept_session ::
  "('n, 't4, 't6) libs \<Rightarrow> env \<Rightarrow> endpoint \<Rightarrow> u32 \<Rightarrow> 'n incomplete_incoming_handshake \<Rightarrow> peer_ref \<Rightarrow>
     ('n, 't4, 't6) server \<Rightarrow> bytes result \<times> ('n, 't4, 't6) server" where
  "accept_session L E addr index handshake r sv =
     and_then (peer_call r (complete_incoming_handshake (noise_lib L) (crypto_lib L) addr index handshake (e_now E)) sv)
       (\<lambda>(response, dead_index) sv.
          let sv = remove_indices (opt_list dead_index) sv;
              sv = insert_index index r sv
          in (Inr response, sv))"

definition handle_ingress_handshake_init ::
  "('n, 't4, 't6) libs \<Rightarrow> env \<Rightarrow> endpoint \<Rightarrow> initiation \<Rightarrow> ('n, 't4, 't6) server \<Rightarrow>
     unit result \<times> ('n, 't4, 't6) server" where
  "handle_ingress_handshake_init L E addr packet sv =
     and_then (verify_mac1 (crypto_lib L) (cookie sv) (take 116 packet) (take 16 (drop 116 packet)), sv) (\<lambda>_ sv.
     and_then (check_load L E addr packet (initiation_mac1 packet) (initiation_sender_index packet)
                 ''would send cookie request now'' sv) (\<lambda>_ sv.
       (case if_private_key (interface_info (shared_state sv)) of
         None \<Rightarrow> (Inl (Err ''no private key!''), sv)
       | Some private_key \<Rightarrow>
           and_then (process_incoming_handshake (noise_lib L) private_key (e_entropy E) packet, sv) (\<lambda>handshake sv.
           and_then (their_pubkey (noise_lib L) handshake, sv) (\<lambda>key sv.
             (case map_of (pubkey_map (shared_state sv)) key of
               None \<Rightarrow> (Inl (Err ''unknown peer pubkey''), sv)
             | Some r \<Rightarrow>
                 and_then (unused_index (e_draws E) (shared_state sv), sv) (\<lambda>index sv.
                 and_then (accept_session L E addr index handshake r sv) (\<lambda>response sv.
                   send_to_peer (addr, response) sv))))))))"

definition complete_session ::
  "('n, 't4, 't6) libs \<Rightarrow> env \<Rightarrow> endpoint \<Rightarrow> response \<Rightarrow> peer_ref \<Rightarrow> ('n, 't4, 't6) server \<Rightarrow>
     unit result \<times> ('n, 't4, 't6) server" where
  "complete_session L E addr packet r sv =
     and_then (peer_call r (process_incoming_handshake_response (noise_lib L) addr packet (e_now E)) sv)
       (\<lambda>dead_index sv. (Inr (), remove_indices (opt_list dead_index) sv))"

definition handle_ingress_handshake_resp ::
  "('n, 't4, 't6) libs \<Rightarrow> env \<Rightarrow> endpoint \<Rightarrow> response \<Rightarrow> ('n, 't4, 't6) server \<Rightarrow>
     unit result \<times> ('n, 't4, 't6) server" where
  "handle_ingress_handshake_resp L E addr packet sv =
     and_then (verify_mac1 (crypto_lib L) (cookie sv) (take 60 packet) (take 16 (drop 60 packet)), sv) (\<lambda>_ sv.
     and_then (check_load L E addr packet (response_mac1 packet) (response_sender_index packet)
                 ''no valid mac2, sent cookie request.'' sv) (\<lambda>_ sv.
       let our_index = read_u32 (drop 8 packet) in
       (case map_of (index_map (shared_state sv)) our_index of
         None \<Rightarrow> (Inl (Err (''unknown our_index ('' @ dec (unat our_index) @ '')'')), sv)
       | Some r \<Rightarrow>
           and_then (complete_session L E addr packet r sv) (\<lambda>_ sv.
           and_then (ready_for_transport (noise_lib L) (e_now E) (peer_at sv r), sv) (\<lambda>ready sv.
           and_then (if ready then
                       if outgoing_queue (peer_at sv r) \<noteq> [] then flush_queue L E r sv else send_transport L E r [] sv
                     else (Inr (), sv)) (\<lambda>_ sv.
             (Inr (), snd (arm E WIPE_AFTER_TIME (Wipe r) sv))))))))"

definition handle_ingress_cookie_reply ::
  "('n, 't4, 't6) libs \<Rightarrow> env \<Rightarrow> endpoint \<Rightarrow> cookie_reply \<Rightarrow> ('n, 't4, 't6) server \<Rightarrow>
     unit result \<times> ('n, 't4, 't6) server" where
  "handle_ingress_cookie_reply L E addr packet sv =
     (case map_of (index_map (shared_state sv)) (cookie_reply_receiver_index packet) of
        None \<Rightarrow> (Inl (Err ''unknown our_index''), sv)
      | Some r \<Rightarrow> peer_call r (consume_cookie_reply (crypto_lib L) packet (e_now E)) sv)"

definition handle_ingress_handshake ::
  "('n, 't4, 't6) libs \<Rightarrow> env \<Rightarrow> endpoint \<Rightarrow> message \<Rightarrow> ('n, 't4, 't6) server \<Rightarrow>
     unit result \<times> ('n, 't4, 't6) server" where
  "handle_ingress_handshake L E addr message sv =
     (let (_, sv) = under_load E sv in
      (case message of
        Initiation packet \<Rightarrow> handle_ingress_handshake_init L E addr packet sv
      | Response packet \<Rightarrow> handle_ingress_handshake_resp L E addr packet sv
      | CookieReply packet \<Rightarrow> handle_ingress_cookie_reply L E addr packet sv
      | Transport _ \<Rightarrow> (Inl (Panicked Unreachable), sv)))"

section \<open>Transport packets\<close>

text \<open>Decryption, and the part that follows when the packet confirms a new session.\<close>

definition receive_transport ::
  "('n, 't4, 't6) libs \<Rightarrow> env \<Rightarrow> endpoint \<Rightarrow> transport \<Rightarrow> peer_ref \<Rightarrow> ('n, 't4, 't6) server \<Rightarrow>
     (bytes \<times> session_transition) result \<times> ('n, 't4, 't6) server" where
  "receive_transport L E addr packet r sv =
     and_then (peer_call r (handle_incoming_transport (noise_lib L) (ip_lib L) addr packet (e_now E)) sv)
       (\<lambda>(raw_packet, transition) sv.
          (Inr (raw_packet, transition),
           (case transition of Transition dead \<Rightarrow> remove_indices (opt_list dead) sv | NoTransition \<Rightarrow> sv)))"

definition confirm_session ::
  "('n, 't4, 't6) libs \<Rightarrow> env \<Rightarrow> peer_ref \<Rightarrow> ('n, 't4, 't6) server \<Rightarrow> unit result \<times> ('n, 't4, 't6) server" where
  "confirm_session L E r sv =
     (let packets = outgoing_queue (peer_at sv r) in
      and_then (send_drained L E r packets (set_queue r [] sv)) (\<lambda>_ sv.
        (Inr (), snd (arm E WIPE_AFTER_TIME (Wipe r) sv))))"

text \<open>\<open>handle_ingress_transport\<close> up to the check of the source address: the sender and its packet.\<close>

definition ingress_transport ::
  "('n, 't4, 't6) libs \<Rightarrow> env \<Rightarrow> endpoint \<Rightarrow> transport \<Rightarrow> ('n, 't4, 't6) server \<Rightarrow>
     (peer_ref \<times> bytes) result \<times> ('n, 't4, 't6) server" where
  "ingress_transport L E addr packet sv =
     (case map_of (index_map (shared_state sv)) (transport_our_index packet) of
        None \<Rightarrow> (Inl (Err ''unknown our_index''), sv)
      | Some r \<Rightarrow>
          and_then (receive_transport L E addr packet r sv) (\<lambda>(raw_packet, transition) sv.
          and_then (case transition of Transition _ \<Rightarrow> confirm_session L E r sv | NoTransition \<Rightarrow> (Inr (), sv)) (\<lambda>_ sv.
          and_then (needs_new_handshake (noise_lib L) False (e_now E) (peer_at sv r), sv) (\<lambda>needs_handshake sv.
          and_then (if needs_handshake then send_handshake_init L E r sv else (Inr 0, sv)) (\<lambda>_ sv.
            (Inr (r, raw_packet), sv))))))"

definition handle_ingress_transport ::
  "('n, 't4, 't6) libs \<Rightarrow> env \<Rightarrow> endpoint \<Rightarrow> transport \<Rightarrow> ('n, 't4, 't6) server \<Rightarrow>
     unit result \<times> ('n, 't4, 't6) server" where
  "handle_ingress_transport L E addr packet sv =
     and_then (ingress_transport L E addr packet sv) (\<lambda>(r, raw_packet) sv.
       if raw_packet = [] then (Inr (), sv)
       else
         and_then (validate_source (ip_lib L) (router_lib L) (\<lambda>a b. peer_eq (peer_at sv a) (peer_at sv b))
                     (router (shared_state sv)) raw_packet r, sv) (\<lambda>_ sv.
           send_to_tunnel E raw_packet sv))"

definition handle_ingress_packet ::
  "('n, 't4, 't6) libs \<Rightarrow> env \<Rightarrow> endpoint \<Rightarrow> bytes \<Rightarrow> ('n, 't4, 't6) server \<Rightarrow>
     unit result \<times> ('n, 't4, 't6) server" where
  "handle_ingress_packet L E addr packet sv =
     and_then (message_try_from packet, sv) (\<lambda>message sv.
       (case message of
         Transport packet \<Rightarrow> handle_ingress_transport L E addr packet sv
       | _ \<Rightarrow> (Inr (), sv\<lparr>handshakes := handshakes sv @ [(addr, message)]\<rparr>)))"

definition handle_egress_packet ::
  "('n, 't4, 't6) libs \<Rightarrow> env \<Rightarrow> utun_packet \<Rightarrow> ('n, 't4, 't6) server \<Rightarrow> unit result \<times> ('n, 't4, 't6) server" where
  "handle_egress_packet L E packet sv =
     (if \<not> (utun_payload packet \<noteq> [] \<and> length (utun_payload packet) \<le> MAX_CONTENT_SIZE)
      then (Inl (Err ''egress packet outside of size bounds''), sv)
      else
        (case route_to_peer (ip_lib L) (router_lib L) (router (shared_state sv)) (utun_payload packet) of
          None \<Rightarrow> (Inl (Err ''no route to peer''), sv)
        | Some r \<Rightarrow>
            and_then (needs_new_handshake (noise_lib L) True (e_now E) (peer_at sv r), sv) (\<lambda>needs_handshake sv.
              let sv = set_peer r (queue_egress packet (peer_at sv r)) sv in
              and_then (ready_for_transport (noise_lib L) (e_now E) (peer_at sv r), sv) (\<lambda>ready sv.
              and_then (if ready then flush_queue L E r sv else (Inr (), sv)) (\<lambda>_ sv.
              and_then (if needs_handshake then send_handshake_init L E r sv else (Inr 0, sv)) (\<lambda>_ sv.
                (Inr (), sv)))))))"

section \<open>Timers\<close>

text \<open>\<open>self.timer.send_after(wait, message); bail!(...)\<close>\<close>

definition rearm :: "env \<Rightarrow> duration \<Rightarrow> timer_message \<Rightarrow> string \<Rightarrow> ('n, 't4, 't6) server \<Rightarrow> 'a result \<times> ('n, 't4, 't6) server" where
  "rearm E wait message reason sv = (Inl (Err reason), snd (arm E wait message sv))"

definition handle_rekey ::
  "('n, 't4, 't6) libs \<Rightarrow> env \<Rightarrow> peer_ref \<Rightarrow> u32 \<Rightarrow> ('n, 't4, 't6) server \<Rightarrow> unit result \<times> ('n, 't4, 't6) server" where
  "handle_rekey L E r index sv =
     (let since = (\<lambda>f. elapsed (f (timers (peer_at sv r))) (e_now E)) in
      and_then
        (case find_session index (peer_at sv r) of
          Some (_, Next) \<Rightarrow>
            if since handshake_initialized < REKEY_TIMEOUT then
              rearm E (REKEY_TIMEOUT - since handshake_initialized) (Rekey r index)
                ''too soon since last init sent, waiting'' sv
            else if handshake_attempts (timers (peer_at sv r)) \<ge> MAX_HANDSHAKE_ATTEMPTS then
              (Inl (Err ''REKEY_ATTEMPT_TIME exceeded, giving up.''), sv)
            else (Inr (), set_timers r (handshake_attempts_update (\<lambda>n. n + 1)) sv)
        | Some (_, Current) \<Rightarrow>
            if since data_sent > since authenticated_received then
              rearm E STALE_SESSION_TIMEOUT (Rekey r index) ''stale rekey tick (inactive)'' sv
            else if since authenticated_received \<le> STALE_SESSION_TIMEOUT then
              rearm E (STALE_SESSION_TIMEOUT - since authenticated_received) (Rekey r index)
                ''stale rekey tick (not enough time passed yet)'' sv
            else (Inr (), sv)
        | _ \<Rightarrow> (Inl (Err ''index is linked to a dead session, bailing''), sv))
        (\<lambda>_ sv. and_then (send_handshake_init L E r sv) (\<lambda>_ sv. (Inr (), sv))))"

definition handle_passive_keepalive ::
  "('n, 't4, 't6) libs \<Rightarrow> env \<Rightarrow> peer_ref \<Rightarrow> ('n, 't4, 't6) server \<Rightarrow> unit result \<times> ('n, 't4, 't6) server" where
  "handle_passive_keepalive L E r sv =
     (let p = peer_at sv r;
          since_last_recv = elapsed (data_received (timers p)) (e_now E);
          since_last_send = elapsed (data_sent (timers p)) (e_now E);
          again = (\<lambda>wait reason. rearm E wait (PassiveKeepAlive r) reason sv)
      in if current (sessions p) = None then
           again KEEPALIVE_TIMEOUT ''passive keepalive skip: no active session. waiting until there is one.''
         else if keepalive (info p) \<noteq> None then
           again KEEPALIVE_TIMEOUT ''passive keepalive skip: persistent keepalive set.''
         else if keepalive_sent (timers p) then
           again KEEPALIVE_TIMEOUT ''passive keepalive already sent (waiting to see if session survives)''
         else if since_last_send < since_last_recv then
           again KEEPALIVE_TIMEOUT ''passive keepalive tick (last data was send not recv)''
         else if since_last_recv < KEEPALIVE_TIMEOUT then
           again (KEEPALIVE_TIMEOUT - since_last_recv) ''passive keepalive tick (waiting due to last recv time)''
         else
           let sv = set_timers r (keepalive_sent_update (\<lambda>_. True)) sv in
           and_then (send_transport L E r [] sv) (\<lambda>_ sv.
             (Inr (), snd (arm E KEEPALIVE_TIMEOUT (PassiveKeepAlive r) sv))))"

definition handle_persistent_keepalive ::
  "('n, 't4, 't6) libs \<Rightarrow> env \<Rightarrow> peer_ref \<Rightarrow> ('n, 't4, 't6) server \<Rightarrow> unit result \<times> ('n, 't4, 't6) server" where
  "handle_persistent_keepalive L E r sv =
     (case persistent_keepalive (info (peer_at sv r)) of
        Some interval \<Rightarrow>
          (let since_last_auth_any = elapsed (authenticated_traversed (timers (peer_at sv r))) (e_now E) in
           if since_last_auth_any < interval then
             (Inl (Err ''persistent keepalive tick (waiting due to last authenticated packet time)''),
              arm_persistent E (interval - since_last_auth_any) r sv)
           else
             and_then (send_transport L E r [] sv) (\<lambda>_ sv. (Inr (), arm_persistent E interval r sv)))
      | None \<Rightarrow>
          (Inl (Err ''no persistent keepalive set for peer (likely unset between the time the timer was started and now).''),
           sv))"

definition wipe_sessions_of :: "peer_ref \<Rightarrow> ('n, 't4, 't6) server \<Rightarrow> ('n, 't4, 't6) server" where
  "wipe_sessions_of r sv =
     (let p = peer_at sv r;
          (indices, ss) = wipe (sessions p)
      in remove_indices indices (set_peer r (p\<lparr>sessions := ss\<rparr>) sv))"

definition handle_wipe :: "env \<Rightarrow> peer_ref \<Rightarrow> ('n, 't4, 't6) server \<Rightarrow> unit result \<times> ('n, 't4, 't6) server" where
  "handle_wipe E r sv =
     (if elapsed (handshake_completed (timers (peer_at sv r))) (e_now E) \<ge> WIPE_AFTER_TIME
      then (Inr (), wipe_sessions_of r sv) else (Inr (), sv))"

fun timer_peer :: "timer_message \<Rightarrow> peer_ref" where
  "timer_peer (PersistentKeepAlive r) = r"
| "timer_peer (PassiveKeepAlive r) = r"
| "timer_peer (Rekey r i) = r"
| "timer_peer (Wipe r) = r"

definition handle_timer ::
  "('n, 't4, 't6) libs \<Rightarrow> env \<Rightarrow> timer_message \<Rightarrow> ('n, 't4, 't6) server \<Rightarrow> unit result \<times> ('n, 't4, 't6) server" where
  "handle_timer L E message sv =
     (if \<not> upgrade (timer_peer message) sv then (Inl (Err ''peer no longer there''), sv)
      else
        (case message of
          Rekey r index \<Rightarrow> handle_rekey L E r index sv
        | PassiveKeepAlive r \<Rightarrow> handle_passive_keepalive L E r sv
        | PersistentKeepAlive r \<Rightarrow> handle_persistent_keepalive L E r sv
        | Wipe r \<Rightarrow> handle_wipe E r sv))"

section \<open>Configuration events\<close>

text \<open>\<open>self.rebind().unwrap()\<close> panics when the sockets cannot be bound.\<close>

definition unwrap_result :: "'a result \<times> 's \<Rightarrow> 'a result \<times> 's" where
  "unwrap_result r = (case r of (Inl (Err _), s) \<Rightarrow> (Inl (Panicked UnwrapFailed), s) | _ \<Rightarrow> r)"

definition handle_incoming_event ::
  "('n, 't4, 't6) libs \<Rightarrow> env \<Rightarrow> channel_message \<Rightarrow> ('n, 't4, 't6) server \<Rightarrow> unit result \<times> ('n, 't4, 't6) server" where
  "handle_incoming_event L E event sv =
     (case event of
        NewPrivateKey \<Rightarrow>
          (case if_pub_key (interface_info (shared_state sv)) of
             Some key \<Rightarrow>
               (let sv = sv\<lparr>cookie := validator_new (crypto_lib L) key\<rparr> in
                if udp sv = None then unwrap_result (rebind E sv) else (Inr (), sv))
           | None \<Rightarrow> (Inr (), sv\<lparr>udp := None, port := None\<rparr>))
      | NewPeer r \<Rightarrow>
          (let sv = snd (arm E KEEPALIVE_TIMEOUT (PassiveKeepAlive r) sv) in
           (case persistent_keepalive (info (peer_at sv r)) of
              Some interval \<Rightarrow> (Inr (), arm_persistent E interval r sv)
            | None \<Rightarrow> (Inr (), sv)))
      | NewPersistentKeepalive r \<Rightarrow>
          (let sv = (case persistent_timer (timers (peer_at sv r)) of
                       Some h \<Rightarrow> sv\<lparr>timer := timer_cancel h (timer sv)\<rparr> | None \<Rightarrow> sv) in
           (case persistent_keepalive (info (peer_at sv r)) of
              Some interval \<Rightarrow> send_transport L E r [] (arm_persistent E interval r sv)
            | None \<Rightarrow> (Inr (), sv)))
      | NewListenPort _ \<Rightarrow> rebind E sv
      | NewFwmark mark \<Rightarrow>
          (case udp sv of
             Some u \<Rightarrow> (let (r, u) = set_mark (e_os E) mark u in (io_result r, sv\<lparr>udp := Some u\<rparr>))
           | None \<Rightarrow> (Inr (), sv))
      | ClearPrivateKey \<Rightarrow> (Inr (), sv))"

end
