(* ===== verification/ServerContract.thy ===== *)
theory ServerContract
  imports PeerServer
begin

text \<open>
  What the handlers of the peer server preserve.

  The locale \<open>server_contract\<close> lists the steps through which the handlers change the server, the calls
  into the sessions of a peer together with the updates of the index map that belong to them and the
  writes to queues, timers and limits, and what an invariant \<open>I\<close> and a class \<open>ok\<close> of errors have to
  satisfy on each. It gives the invariant on every handler. It is interpreted for each invariant of the
  server where that invariant is established.
\<close>

section \<open>Results that keep an invariant\<close>

definition holds :: "('s \<Rightarrow> bool) \<Rightarrow> (wg_error \<Rightarrow> bool) \<Rightarrow> 'a result \<times> 's \<Rightarrow> bool" where
  "holds I ok r \<longleftrightarrow> I (snd r) \<and> (\<forall>e. fst r = Inl e \<longrightarrow> ok e)"

lemma holds_Inr [simp]: "holds I ok (Inr x, s) \<longleftrightarrow> I s"
  by (simp add: holds_def)

lemma holds_Inl [simp]: "holds I ok (Inl e, s) \<longleftrightarrow> I s \<and> ok e"
  by (simp add: holds_def)

lemma holds_pair: "I s \<Longrightarrow> (\<And>e. r = Inl e \<Longrightarrow> ok e) \<Longrightarrow> holds I ok (r, s)"
  by (simp add: holds_def)

lemma holds_and_then:
  assumes "holds I ok r" and "\<And>x s. r = (Inr x, s) \<Longrightarrow> I s \<Longrightarrow> holds I ok (k x s)"
  shows "holds I ok (and_then r k)"
  using assms by (cases r; cases "fst r") (auto simp: holds_def)

lemma holdsD: "holds I ok r \<Longrightarrow> I (snd r)" "holds I ok r \<Longrightarrow> fst r = Inl e \<Longrightarrow> ok e"
  by (simp_all add: holds_def)

lemma holds_unwrap: "holds I ok r \<Longrightarrow> holds I (\<lambda>e. ok e \<or> e = Panicked UnwrapFailed) (unwrap_result r)"
  by (cases r) (auto simp: holds_def unwrap_result_def split: sum.splits wg_error.splits)

section \<open>The contract\<close>

locale server_contract =
  fixes L :: "('n, 't4, 't6) libs"
    and E :: env
    and I :: "('n, 't4, 't6) server \<Rightarrow> bool"
    and ok :: "wg_error \<Rightarrow> bool"
    and known :: "peer_ref \<Rightarrow> bool"
  assumes err: "ok (Err reason)"
    and looping: "ok Looping"
    and egress: "I sv \<Longrightarrow> udp sv = Some u \<Longrightarrow> I (sv\<lparr>udp := Some (udp_send m u)\<rparr>)"
    and timers: "I sv \<Longrightarrow> I (sv\<lparr>timer := snd (send_after w msg t (timer sv))\<rparr>)"
    and limits: "I sv \<Longrightarrow> I (sv\<lparr>cookie := c\<rparr>)" "I sv \<Longrightarrow> I (sv\<lparr>rate_limiter := rl\<rparr>)"
      "I sv \<Longrightarrow> I (sv\<lparr>under_load_until := t\<rparr>)"
    and peer_note: "I sv \<Longrightarrow> sessions p = sessions (peer_at sv r) \<Longrightarrow> info p = info (peer_at sv r) \<Longrightarrow> I (set_peer r p sv)"
    and outgoing: "I sv \<Longrightarrow> holds I ok (peer_call r (handle_outgoing_transport (noise_lib L) packet t) sv)"
    and open_one: "I sv \<Longrightarrow> known r \<Longrightarrow> unused_index (e_draws E) (shared_state sv) = Inr i \<Longrightarrow>
      holds I ok (open_session L E key i r sv)"
    and accept_one: "I sv \<Longrightarrow> known r \<Longrightarrow> unused_index (e_draws E) (shared_state sv) = Inr i \<Longrightarrow>
      holds I ok (accept_session L E addr i h r sv)"
    and complete_one: "I sv \<Longrightarrow> known r \<Longrightarrow> holds I ok (complete_session L E addr resp r sv)"
    and receive_one: "I sv \<Longrightarrow> known r \<Longrightarrow> holds I ok (receive_transport L E addr tr r sv)"
    and wipe_one: "I sv \<Longrightarrow> known r \<Longrightarrow> I (wipe_sessions_of r sv)"
    and known_index: "I sv \<Longrightarrow> map_of (index_map (shared_state sv)) i = Some r \<Longrightarrow> known r"
    and known_key: "I sv \<Longrightarrow> map_of (pubkey_map (shared_state sv)) k = Some r \<Longrightarrow> known r"
    and known_route: "I sv \<Longrightarrow> route_to_peer (ip_lib L) (router_lib L) (router (shared_state sv)) pk = Some r \<Longrightarrow> known r"
    and known_upgrade: "I sv \<Longrightarrow> upgrade r sv \<Longrightarrow> known r"
    and needs_ok: "I sv \<Longrightarrow> needs_new_handshake (noise_lib L) b t (peer_at sv r) = Inl e \<Longrightarrow> ok e"
    and ready_ok: "I sv \<Longrightarrow> ready_for_transport (noise_lib L) t (peer_at sv r) = Inl e \<Longrightarrow> ok e"
    and process_ok: "I sv \<Longrightarrow> process_incoming_handshake (noise_lib L) key n ini = Inl e \<Longrightarrow> ok e"
    and pubkey_ok: "I sv \<Longrightarrow> process_incoming_handshake (noise_lib L) key n ini = Inr h \<Longrightarrow>
      their_pubkey (noise_lib L) h = Inl e \<Longrightarrow> ok e"
    and reply_ok: "generate_reply (crypto_lib L) v i mac src sec non t = (Inl e, v') \<Longrightarrow> ok e"
    and consume_ok: "consume_cookie_reply (crypto_lib L) reply t p = (Inl e, p') \<Longrightarrow> ok e"
begin

lemma send_to_peer: "I sv \<Longrightarrow> holds I ok (send_to_peer m sv)"
  by (auto simp: send_to_peer_def egress err split: option.splits)

lemma arm: "I sv \<Longrightarrow> I (snd (arm E w m sv))"
  using timers by (simp add: arm_def split_beta)

lemma set_timers: "I sv \<Longrightarrow> I (set_timers r f sv)"
  unfolding set_timers_def by (rule peer_note) simp_all

lemma set_queue: "I sv \<Longrightarrow> I (set_queue r q sv)"
  unfolding set_queue_def by (rule peer_note) simp_all

lemma queued: "I sv \<Longrightarrow> I (set_peer r (queue_egress packet (peer_at sv r)) sv)"
  by (rule peer_note) (simp_all add: queue_egress_def)

lemma arm_persistent: "I sv \<Longrightarrow> I (arm_persistent E w r sv)"
  using arm set_timers by (simp add: arm_persistent_def split_beta)

lemma rearm: "I sv \<Longrightarrow> holds I ok (rearm E w m reason sv)"
  by (simp add: rearm_def arm err)

lemma unused_ok: "unused_index draws st = Inl e \<Longrightarrow> ok e"
  by (induction draws) (auto simp: looping split: if_splits)

lemma send_transport: "I sv \<Longrightarrow> holds I ok (send_transport L E r packet sv)"
  unfolding send_transport_def by (intro holds_and_then outgoing send_to_peer)

lemma send_handshake_init: "I sv \<Longrightarrow> known r \<Longrightarrow> holds I ok (send_handshake_init L E r sv)"
  unfolding send_handshake_init_def
  by (auto simp: err Let_def split_beta split: option.split
      intro!: holds_and_then holds_pair open_one send_to_peer arm set_timers unused_ok)

lemma flush_queue: "I sv \<Longrightarrow> holds I ok (flush_queue L E r sv)"
proof (induction "outgoing_queue (peer_at sv r)" arbitrary: sv)
  case Nil
  then show ?case by (simp add: flush_queue.simps [of L E r sv])
next
  case (Cons packet rest)
  have step: "flush_queue L E r sv =
      and_then (send_transport L E r (utun_payload packet) (set_queue r rest sv)) (\<lambda>_ sv. flush_queue L E r sv)"
    by (subst flush_queue.simps) (simp add: Cons.hyps(2) [symmetric])
  show ?case unfolding step
  proof (intro holds_and_then send_transport set_queue Cons.prems)
    fix x sv'
    assume "send_transport L E r (utun_payload packet) (set_queue r rest sv) = (Inr x, sv')" and "I sv'"
    then show "holds I ok (flush_queue L E r sv')"
      using send_transport_queue [of L E r "utun_payload packet" "set_queue r rest sv"]
      by (intro Cons.hyps(1)) (simp_all add: set_queue_def)
  qed
qed

lemma send_drained: "I sv \<Longrightarrow> holds I ok (send_drained L E r packets sv)"
proof (induction packets arbitrary: sv)
  case (Cons packet packets)
  have "holds I ok (peer_call r (handle_outgoing_transport (noise_lib L) (utun_payload packet) (e_now E)) sv)"
    using Cons.prems by (rule outgoing)
  then show ?case using Cons.IH send_to_peer
    by (auto simp: holds_def [of I ok "peer_call r f sv" for f] split: prod.splits sum.splits intro!: holds_and_then)
qed simp

lemma send_cookie_reply: "I sv \<Longrightarrow> holds I ok (send_cookie_reply L E addr mac1 index sv)"
  unfolding send_cookie_reply_def
  by (auto split: prod.split intro!: holds_and_then holds_pair limits send_to_peer dest: reply_ok)

lemma under_load: "I sv \<Longrightarrow> I (snd (under_load E sv))"
  by (simp add: under_load_def Let_def limits)

lemma check_load: "I sv \<Longrightarrow> holds I ok (check_load L E addr packet mac1 index msg sv)"
  using under_load [of sv]
  by (auto simp: check_load_def Let_def err limits split: prod.split intro!: holds_and_then send_cookie_reply)

lemma verify_mac1_ok: "verify_mac1 C v input mac = Inl e \<Longrightarrow> ok e"
  by (auto simp: verify_mac1_def Let_def err split: if_splits)

lemma handle_ingress_handshake_init: "I sv \<Longrightarrow> holds I ok (handle_ingress_handshake_init L E addr packet sv)"
  unfolding handle_ingress_handshake_init_def
  by (auto simp: err split: option.split
      intro!: holds_and_then holds_pair check_load accept_one send_to_peer)
    (blast intro: verify_mac1_ok process_ok pubkey_ok unused_ok known_key)+

lemma handle_ingress_handshake_resp: "I sv \<Longrightarrow> holds I ok (handle_ingress_handshake_resp L E addr packet sv)"
  unfolding handle_ingress_handshake_resp_def
  by (auto simp: err Let_def split: option.split
      intro!: holds_and_then holds_pair check_load complete_one flush_queue send_transport arm
      intro: verify_mac1_ok ready_ok known_index)

lemma handle_ingress_cookie_reply: "I sv \<Longrightarrow> holds I ok (handle_ingress_cookie_reply L E addr packet sv)"
  by (auto simp: handle_ingress_cookie_reply_def err peer_call_def split: option.split prod.split
      intro!: holds_pair peer_note intro: consume_ok)
    (simp_all add: consume_cookie_reply_def split_beta)

lemma handle_ingress_handshake:
  "I sv \<Longrightarrow> (\<forall>p. message \<noteq> Transport p) \<Longrightarrow> holds I ok (handle_ingress_handshake L E addr message sv)"
  using under_load [of sv]
  by (auto simp: handle_ingress_handshake_def split: prod.split message.split
      intro: handle_ingress_handshake_init handle_ingress_handshake_resp handle_ingress_cookie_reply)

lemma confirm_session: "I sv \<Longrightarrow> holds I ok (confirm_session L E r sv)"
  unfolding confirm_session_def by (auto simp: Let_def intro!: holds_and_then send_drained set_queue arm)

lemma ingress_transport: "I sv \<Longrightarrow> holds I ok (ingress_transport L E addr packet sv)"
  unfolding ingress_transport_def
  by (auto simp: err split: option.split session_transition.split
      intro!: holds_and_then holds_pair receive_one confirm_session send_handshake_init
      intro: needs_ok known_index)

lemma handle_egress_packet: "I sv \<Longrightarrow> holds I ok (handle_egress_packet L E packet sv)"
  unfolding handle_egress_packet_def
  by (auto simp: err Let_def split: option.split
      intro!: holds_and_then holds_pair flush_queue send_handshake_init queued
      intro: needs_ok ready_ok known_route)

lemma handle_rekey: "I sv \<Longrightarrow> known r \<Longrightarrow> holds I ok (handle_rekey L E r index sv)"
  unfolding handle_rekey_def
  by (auto simp: err Let_def split: option.split session_type.split
      intro!: holds_and_then send_handshake_init rearm set_timers)

lemma handle_passive_keepalive: "I sv \<Longrightarrow> holds I ok (handle_passive_keepalive L E r sv)"
  unfolding handle_passive_keepalive_def
  by (auto simp: Let_def intro!: holds_and_then rearm send_transport set_timers arm)

lemma handle_persistent_keepalive: "I sv \<Longrightarrow> holds I ok (handle_persistent_keepalive L E r sv)"
  unfolding handle_persistent_keepalive_def
  by (auto simp: Let_def err split: option.split intro!: holds_and_then send_transport arm_persistent)

lemma handle_timer: "I sv \<Longrightarrow> holds I ok (handle_timer L E message sv)"
  using known_upgrade [of sv "timer_peer message"]
  by (cases message) (auto simp: handle_timer_def err handle_wipe_def wipe_one
      intro: handle_rekey handle_passive_keepalive handle_persistent_keepalive)

end

text \<open>Configuration events also replace the socket and cancel timers, and the delivery of a packet writes to
  the tunnel.\<close>

locale server_config_contract = server_contract +
  assumes cancel: "I sv \<Longrightarrow> I (sv\<lparr>timer := timer_cancel h (timer sv)\<rparr>)"
    and socket: "I sv \<Longrightarrow> I (sv\<lparr>udp := None, port := None\<rparr>)"
      "I sv \<Longrightarrow> ingress u = [] \<Longrightarrow> I (sv\<lparr>udp := Some u, port := pn\<rparr>)"
    and mark: "I sv \<Longrightarrow> udp sv = Some v \<Longrightarrow> ingress u = ingress v \<Longrightarrow> I (sv\<lparr>udp := Some u\<rparr>)"
begin

lemma io_ok: "io_result r = Inl e \<Longrightarrow> ok e"
  by (cases r) (auto simp: io_result_def err)

lemma set_mark_ingress: "set_mark os mk u = (r, v) \<Longrightarrow> ingress v = ingress u"
  by (auto simp: set_mark_def Let_def split: sum.splits)

lemma rebind: "I sv \<Longrightarrow> holds I ok (rebind E sv)"
  unfolding rebind_def
  by (auto simp: Let_def err udp_channel_from_def split: prod.split intro!: holds_and_then holds_pair socket
      dest!: io_ok set_mark_ingress)

lemma handle_incoming_event:
  "I sv \<Longrightarrow> holds I (\<lambda>e. ok e \<or> event = NewPrivateKey \<and> udp sv = None \<and> e = Panicked UnwrapFailed)
     (handle_incoming_event L E event sv)"
proof (cases event)
  case NewPrivateKey
  assume "I sv"
  have "holds I (\<lambda>e. ok e \<or> e = Panicked UnwrapFailed) (unwrap_result (rebind E (sv\<lparr>cookie := c\<rparr>)))" for c
    using \<open>I sv\<close> by (intro holds_unwrap rebind limits)
  then show ?thesis using \<open>I sv\<close> socket(1) [of sv] limits(1) [of sv]
    by (auto simp: NewPrivateKey handle_incoming_event_def Let_def split: option.split)
next
  case (NewPersistentKeepalive r)
  assume "I sv"
  let ?sv = "case persistent_timer (peer.timers (peer_at sv r)) of Some h \<Rightarrow> sv\<lparr>timer := timer_cancel h (timer sv)\<rparr> | None \<Rightarrow> sv"
  have "I ?sv" using \<open>I sv\<close> cancel by (auto split: option.split)
  then have "holds I ok (send_transport L E r [] (arm_persistent E w r ?sv))" for w
    by (intro send_transport arm_persistent)
  with \<open>I ?sv\<close> show ?thesis unfolding NewPersistentKeepalive handle_incoming_event_def
    by (auto simp: Let_def holds_def split: option.split)
next
  case (NewListenPort p)
  then show "I sv \<Longrightarrow> ?thesis" using rebind [of sv] by (auto simp: handle_incoming_event_def holds_def)
next
  case (NewFwmark m)
  then show "I sv \<Longrightarrow> ?thesis" by (auto simp: handle_incoming_event_def holds_def split: option.split prod.splits
        dest: io_ok set_mark_ingress intro!: mark)
next
  case (NewPeer r)
  then show "I sv \<Longrightarrow> ?thesis" by (auto simp: handle_incoming_event_def Let_def arm arm_persistent split: option.split)
qed (simp add: handle_incoming_event_def)

end

text \<open>Datagrams deliver packets to the tunnel and queue handshake messages.\<close>

locale server_full_contract = server_config_contract +
  assumes tunnel: "I sv \<Longrightarrow> I (sv\<lparr>tunnel_tx := tunnel_tx sv @ [packet]\<rparr>)"
    and enqueue: "I sv \<Longrightarrow> (\<And>q. m \<noteq> Transport q) \<Longrightarrow> I (sv\<lparr>handshakes := handshakes sv @ [(a, m)]\<rparr>)"
begin

lemma validate_ok: "validate_source P R same rt packet r = Inl e \<Longrightarrow> ok e"
  by (auto simp: validate_source_def err split: option.splits if_splits)

lemma handle_ingress_transport: "I sv \<Longrightarrow> holds I ok (handle_ingress_transport L E addr packet sv)"
  unfolding handle_ingress_transport_def
  by (auto simp: err send_to_tunnel_def intro!: holds_and_then holds_pair ingress_transport tunnel dest: validate_ok)

lemma try_from_ok: "message_try_from packet = Inl e \<Longrightarrow> packet \<noteq> [] \<Longrightarrow> ok e"
  by (auto simp: message_try_from_def initiation_try_from_def response_try_from_def cookie_reply_try_from_def
      transport_try_from_def err split: if_splits)

lemma handle_ingress_packet:
  "I sv \<Longrightarrow> holds I (\<lambda>e. ok e \<or> packet = [] \<and> e = Panicked IndexOutOfBounds) (handle_ingress_packet L E addr packet sv)"
proof (cases "packet = []")
  case True
  then show "I sv \<Longrightarrow> ?thesis" by (simp add: handle_ingress_packet_def message_try_from_def)
next
  case False
  assume "I sv"
  then have "holds I ok (handle_ingress_packet L E addr packet sv)"
    unfolding handle_ingress_packet_def using False
    by (auto split: message.split intro!: holds_and_then holds_pair handle_ingress_transport enqueue dest: try_from_ok)
  then show ?thesis by (simp add: holds_def)
qed

end

end
