(* ===== verification/ServerPoll.thy ===== *)
theory ServerPoll
  imports ServerContract
begin

text \<open>
  \<open>Future for PeerServer\<close>: the method \<open>poll\<close> that empties the queues of the server, each through its
  handler. The loops end because no handler writes to the queues, which is the first invariant that
  satisfies the contract of the handlers.
\<close>

section \<open>The queues and the handlers\<close>

definition inner_queues ::
  "('n, 't4, 't6) server \<Rightarrow> channel_message list \<times> utun_packet list \<times> (endpoint \<times> message) list \<times> timer_message list \<times> bytes list" where
  "inner_queues sv = (channel sv, outgoing sv, handshakes sv, t_rx (timer sv), tunnel_tx sv)"

definition all_queues where
  "all_queues sv = (inner_queues sv, map_option ingress (udp sv))"

lemma inner_queues_simps [simp]:
  "inner_queues (set_peer r p sv) = inner_queues sv"
  "inner_queues (insert_index i r sv) = inner_queues sv"
  "inner_queues (remove_indices is sv) = inner_queues sv"
  "inner_queues (sv\<lparr>udp := u\<rparr>) = inner_queues sv"
  "inner_queues (sv\<lparr>udp := u, port := pn\<rparr>) = inner_queues sv"
  "inner_queues (sv\<lparr>timer := snd (send_after w m t (timer sv))\<rparr>) = inner_queues sv"
  "inner_queues (sv\<lparr>timer := timer_cancel h (timer sv)\<rparr>) = inner_queues sv"
  "inner_queues (sv\<lparr>cookie := c\<rparr>) = inner_queues sv"
  "inner_queues (sv\<lparr>rate_limiter := rl\<rparr>) = inner_queues sv"
  "inner_queues (sv\<lparr>under_load_until := t\<rparr>) = inner_queues sv"
  by (simp_all add: inner_queues_def set_peer_def insert_index_def remove_indices_def send_after_def timer_cancel_def)

lemma udp_simps [simp]:
  "udp (set_peer r p sv) = udp sv" "udp (insert_index i r sv) = udp sv" "udp (remove_indices is sv) = udp sv"
  by (simp_all add: set_peer_def insert_index_def remove_indices_def)

lemma ingress_udp_send [simp]: "ingress (udp_send m u) = ingress u"
  by (simp add: udp_send_def)

lemma peer_call_frame:
  assumes "\<And>r p sv. F (set_peer r p sv) = F sv"
  shows "F (snd (peer_call r f sv)) = F sv"
  by (simp add: peer_call_def split_beta assms)

lemma session_steps_frame:
  assumes "\<And>r p sv. F (set_peer r p sv) = F sv" "\<And>i r sv. F (insert_index i r sv) = F sv"
    "\<And>is sv. F (remove_indices is sv) = F sv"
  shows "F (snd (open_session L E key i r sv)) = F sv"
    "F (snd (accept_session L E addr i h r sv)) = F sv" "F (snd (complete_session L E addr resp r sv)) = F sv"
    "F (snd (receive_transport L E addr tr r sv)) = F sv" "F (wipe_sessions_of r sv) = F sv"
proof -
  note call = peer_call_frame [where F = F, OF assms(1)]
  show "F (snd (open_session L E key i r sv)) = F sv"
    unfolding open_session_def by (rule and_then_inv [where P = "\<lambda>s. F s = F sv"]) (simp_all add: call assms split_beta Let_def)
  show "F (snd (accept_session L E addr i h r sv)) = F sv"
    unfolding accept_session_def by (rule and_then_inv [where P = "\<lambda>s. F s = F sv"]) (simp_all add: call assms split_beta Let_def)
  show "F (snd (complete_session L E addr resp r sv)) = F sv"
    unfolding complete_session_def by (rule and_then_inv [where P = "\<lambda>s. F s = F sv"]) (simp_all add: call assms)
  show "F (snd (receive_transport L E addr tr r sv)) = F sv"
    unfolding receive_transport_def
    by (rule and_then_inv [where P = "\<lambda>s. F s = F sv"]) (simp_all add: call assms split_beta split: session_transition.split)
  show "F (wipe_sessions_of r sv) = F sv" by (simp add: wipe_sessions_of_def wipe_def Let_def assms)
qed

lemma all_queues_simps [simp]:
  "all_queues (set_peer r p sv) = all_queues sv"
  "all_queues (insert_index i r sv) = all_queues sv"
  "all_queues (remove_indices is sv) = all_queues sv"
  "udp sv = Some u \<Longrightarrow> all_queues (sv\<lparr>udp := Some (udp_send m u)\<rparr>) = all_queues sv"
  "all_queues (sv\<lparr>timer := snd (send_after w msg t (timer sv))\<rparr>) = all_queues sv"
  "all_queues (sv\<lparr>cookie := c\<rparr>) = all_queues sv"
  "all_queues (sv\<lparr>rate_limiter := rl\<rparr>) = all_queues sv"
  "all_queues (sv\<lparr>under_load_until := t\<rparr>) = all_queues sv"
  by (simp_all add: all_queues_def)

lemmas queue_frames =
  peer_call_frame [where F = inner_queues] peer_call_frame [where F = all_queues]
  session_steps_frame [where F = inner_queues] session_steps_frame [where F = all_queues]

interpretation queues: server_contract L E "\<lambda>sv. all_queues sv = q" "\<lambda>_. True" "\<lambda>_. True"
  by unfold_locales (simp_all add: holds_def queue_frames)

interpretation config_queues: server_config_contract L E "\<lambda>sv. inner_queues sv = q" "\<lambda>_. True" "\<lambda>_. True"
  by unfold_locales (simp_all add: holds_def queue_frames)

lemma handlers_keep_queues:
  "all_queues (snd (handle_timer L E message sv)) = all_queues sv"
  "all_queues (snd (handle_egress_packet L E packet sv)) = all_queues sv"
  "all_queues (snd (ingress_transport L E addr tr sv)) = all_queues sv"
  "inner_queues (snd (handle_incoming_event L E event sv)) = inner_queues sv"
  using queues.handle_timer [of sv "all_queues sv" L E message] queues.handle_egress_packet [of sv "all_queues sv" L E packet]
    queues.ingress_transport [of sv "all_queues sv" L E addr tr]
    config_queues.handle_incoming_event [of sv "inner_queues sv" event L E]
  by (simp_all add: holds_def)

lemma handle_ingress_transport_queues:
  "map_option ingress (udp (snd (handle_ingress_transport L E addr packet sv))) = map_option ingress (udp sv)"
proof -
  let ?Q = "\<lambda>s. map_option ingress (udp s) = map_option ingress (udp sv)"
  have "?Q (snd (ingress_transport L E addr packet sv))"
    using handlers_keep_queues(3) [of L E addr packet sv] by (simp add: all_queues_def)
  then show ?thesis unfolding handle_ingress_transport_def
    by (rule and_then_inv [where P = ?Q])
      (auto simp: send_to_tunnel_def split: prod.splits and_then_splits)
qed

lemma handle_ingress_packet_queues:
  "map_option ingress (udp (snd (handle_ingress_packet L E addr packet sv))) = map_option ingress (udp sv)"
  using handle_ingress_transport_queues
  by (auto simp: handle_ingress_packet_def split: and_then_splits message.splits)

section \<open>Polling\<close>

datatype outcome = Pending | Ended string | Stopped wg_error

text \<open>\<open>let _ = self.handle(...)\<close>: an error is dropped, a panic or a loop that does not return stops the task.\<close>

definition outcome_of :: "'a result \<Rightarrow> outcome" where
  "outcome_of r = (case r of Inl (Err _) \<Rightarrow> Pending | Inl e \<Rightarrow> Stopped e | Inr _ \<Rightarrow> Pending)"

definition proceed ::
  "outcome \<times> nat \<times> 's \<Rightarrow> (nat \<Rightarrow> 's \<Rightarrow> outcome \<times> nat \<times> 's) \<Rightarrow> outcome \<times> nat \<times> 's" where
  "proceed x k = (if fst x = Pending then k (fst (snd x)) (snd (snd x)) else x)"

text \<open>One call of a handler. \<open>n\<close> counts the calls, and call \<open>n\<close> sees the environment \<open>env n\<close>.\<close>

definition call :: "nat \<Rightarrow> 'a result \<times> 's \<Rightarrow> outcome \<times> nat \<times> 's" where
  "call n r = (outcome_of (fst r), Suc n, snd r)"

lemma proceed_cong [fundef_cong]:
  assumes "x = x'" and "\<And>n s. x' = (Pending, n, s) \<Longrightarrow> k n s = k' n s"
  shows "proceed x k = proceed x' k'"
  using assms by (cases x') (auto simp: proceed_def)

lemma calls_keep_queues:
  "call n (handle_incoming_event L E event sv) = (b, n', sv') \<Longrightarrow> channel sv' = channel sv"
  "call n (handle_timer L E message sv) = (b, n', sv') \<Longrightarrow> t_rx (timer sv') = t_rx (timer sv)"
  "call n (handle_egress_packet L E packet sv) = (b, n', sv') \<Longrightarrow> outgoing sv' = outgoing sv"
  "call n (handle_ingress_packet L E addr dgram sv) = (b, n', sv') \<Longrightarrow>
     map_option ingress (udp sv') = map_option ingress (udp sv)"
  using handlers_keep_queues(1) [of L E message sv] handlers_keep_queues(2) [of L E packet sv]
    handlers_keep_queues(4) [of L E event sv] handle_ingress_packet_queues [of L E addr dgram sv]
  by (auto simp: call_def all_queues_def inner_queues_def)

text \<open>The server holds a sender of each of its channels, so none of these streams ends.\<close>

function poll_channel ::
  "('n, 't4, 't6) libs \<Rightarrow> (nat \<Rightarrow> env) \<Rightarrow> nat \<Rightarrow> ('n, 't4, 't6) server \<Rightarrow> outcome \<times> nat \<times> ('n, 't4, 't6) server" where
  "poll_channel L env n sv =
     (case channel sv of
        [] \<Rightarrow> (Pending, n, sv)
      | event # rest \<Rightarrow>
          proceed (call n (handle_incoming_event L (env n) event (sv\<lparr>channel := rest\<rparr>))) (\<lambda>n sv. poll_channel L env n sv))"
  by pat_completeness auto
termination
  by (relation "measure (\<lambda>(L, env, n, sv). length (channel sv))") (auto dest!: calls_keep_queues)

function poll_timer ::
  "('n, 't4, 't6) libs \<Rightarrow> (nat \<Rightarrow> env) \<Rightarrow> nat \<Rightarrow> ('n, 't4, 't6) server \<Rightarrow> outcome \<times> nat \<times> ('n, 't4, 't6) server" where
  "poll_timer L env n sv =
     (case timer_poll (timer sv) of
        (None, t) \<Rightarrow> (Pending, n, sv\<lparr>timer := t\<rparr>)
      | (Some message, t) \<Rightarrow>
          proceed (call n (handle_timer L (env n) message (sv\<lparr>timer := t\<rparr>))) (\<lambda>n sv. poll_timer L env n sv))"
  by pat_completeness auto
termination
  by (relation "measure (\<lambda>(L, env, n, sv). length (t_rx (timer sv)))")
    (auto simp: timer_poll_def split: list.splits dest!: calls_keep_queues)

function poll_ingress ::
  "('n, 't4, 't6) libs \<Rightarrow> (nat \<Rightarrow> env) \<Rightarrow> nat \<Rightarrow> ('n, 't4, 't6) server \<Rightarrow> outcome \<times> nat \<times> ('n, 't4, 't6) server" where
  "poll_ingress L env n sv =
     (case udp sv of
        None \<Rightarrow> (Stopped (Panicked UnwrapFailed), n, sv)
      | Some u \<Rightarrow>
          (case ingress u of
             [] \<Rightarrow> (Pending, n, sv)
           | Inl e # rest \<Rightarrow> (Ended ''incoming udp stream error'', n, sv\<lparr>udp := Some (u\<lparr>ingress := rest\<rparr>)\<rparr>)
           | Inr (addr, packet) # rest \<Rightarrow>
               proceed (call n (handle_ingress_packet L (env n) addr packet (sv\<lparr>udp := Some (u\<lparr>ingress := rest\<rparr>)\<rparr>)))
                 (\<lambda>n sv. poll_ingress L env n sv)))"
  by pat_completeness auto
termination
  by (relation "measure (\<lambda>(L, env, n, sv). case udp sv of Some u \<Rightarrow> length (ingress u) | None \<Rightarrow> 0)")
    (auto dest!: calls_keep_queues split: option.splits)

function poll_outgoing ::
  "('n, 't4, 't6) libs \<Rightarrow> (nat \<Rightarrow> env) \<Rightarrow> nat \<Rightarrow> ('n, 't4, 't6) server \<Rightarrow> outcome \<times> nat \<times> ('n, 't4, 't6) server" where
  "poll_outgoing L env n sv =
     (case outgoing sv of
        [] \<Rightarrow> (Pending, n, sv)
      | packet # rest \<Rightarrow>
          proceed (call n (handle_egress_packet L (env n) packet (sv\<lparr>outgoing := rest\<rparr>))) (\<lambda>n sv. poll_outgoing L env n sv))"
  by pat_completeness auto
termination
  by (relation "measure (\<lambda>(L, env, n, sv). length (outgoing sv))") (auto dest!: calls_keep_queues)

declare poll_channel.simps [simp del] poll_timer.simps [simp del] poll_ingress.simps [simp del] poll_outgoing.simps [simp del]

definition poll_handshake ::
  "('n, 't4, 't6) libs \<Rightarrow> (nat \<Rightarrow> env) \<Rightarrow> nat \<Rightarrow> ('n, 't4, 't6) server \<Rightarrow> outcome \<times> nat \<times> ('n, 't4, 't6) server" where
  "poll_handshake L env n sv =
     (case handshakes sv of
        [] \<Rightarrow> (Pending, n, sv)
      | (addr, message) # rest \<Rightarrow> call n (handle_ingress_handshake L (env n) addr message (sv\<lparr>handshakes := rest\<rparr>)))"

definition server_poll ::
  "('n, 't4, 't6) libs \<Rightarrow> (nat \<Rightarrow> env) \<Rightarrow> nat \<Rightarrow> ('n, 't4, 't6) server \<Rightarrow> outcome \<times> nat \<times> ('n, 't4, 't6) server" where
  "server_poll L env n sv =
     proceed (poll_channel L env n sv) (\<lambda>n sv.
     proceed (poll_timer L env n sv) (\<lambda>n sv.
     proceed (if udp sv \<noteq> None then poll_ingress L env n sv else (Pending, n, sv)) (\<lambda>n sv.
     proceed (poll_outgoing L env n sv) (\<lambda>n sv.
       poll_handshake L env n sv))))"

end
