(* ===== verification/PeerTransport.thy ===== *)
theory PeerTransport
  imports PeerSessions
begin

text \<open>
  The wire format of the packets a peer builds, and what two peers achieve together: a handshake that
  leaves both with matching sessions, and data packets that arrive unchanged.
\<close>

section \<open>Frames in closed form\<close>

lemma put_slice_append:
  "off + length bs \<le> length xs \<Longrightarrow> put_slice off bs (xs @ ys) = put_slice off bs xs @ ys"
  by (simp add: put_slice_def)

lemma put_slice_at_end: "length xs = off \<Longrightarrow> put_slice off bs (xs @ ys) = xs @ bs @ drop (length bs) ys"
  by (simp add: put_slice_def)

text \<open>The eight byte header of the handshake messages, the sixteen byte header of transport packets.\<close>

lemma replicate_8: "replicate 8 x = [x, x, x, x, x, x, x, x]"
  by (simp add: eval_nat_numeral)

lemma header_8: "length bs = 4 \<Longrightarrow> put_slice 4 bs ((replicate 8 0)[0 := t]) = [t, 0, 0, 0] @ bs"
  by (simp add: put_slice_def replicate_8)

lemma frame_header:
  assumes "8 \<le> n"
  shows "write_u32 4 i ((replicate n 0)[0 := t]) = ([t, 0, 0, 0] @ le_bytes 4 (unat i)) @ replicate (n - 8) 0"
proof -
  obtain m where n: "n = 8 + m" using assms le_Suc_ex by blast
  have "(replicate n (0 :: u8))[0 := t] = (replicate 8 0)[0 := t] @ replicate m 0"
    unfolding n replicate_add by (rule list_update_append1) simp
  then have "write_u32 4 i ((replicate n 0)[0 := t]) = put_slice 4 (le_bytes 4 (unat i)) ((replicate 8 0)[0 := t]) @ replicate m 0"
    by (simp only: write_u32_def) (rule put_slice_append, simp)
  then show ?thesis by (simp add: header_8 n)
qed

lemma initiation_frame_eq:
  assumes "length msg = 108"
  shows "initiation_frame i msg = [1, 0, 0, 0] @ le_bytes 4 (unat i) @ msg @ replicate 32 0"
  using assms by (simp add: initiation_frame_def frame_header put_slice_def)

lemma response_frame_eq:
  assumes "length msg = 48"
  shows "response_frame i j msg = [2, 0, 0, 0] @ le_bytes 4 (unat i) @ le_bytes 4 (unat j) @ msg @ replicate 32 0"
  using assms by (simp add: response_frame_def frame_header write_u32_def [of 8] put_slice_def)

lemma transport_frame_eq:
  assumes "length msg = length packet + padding_of packet + 16"
  shows "transport_frame i nonce packet msg = [4, 0, 0, 0] @ le_bytes 4 (unat i) @ le_bytes 8 (unat nonce) @ msg"
  using assms by (simp add: transport_frame_def frame_header write_u64_def put_slice_def size_defs)

text \<open>The receiver's accessors read back what the sender wrote.\<close>

lemma transport_frame_fields:
  assumes "length msg = length packet + padding_of packet + 16"
    and d: "d = transport_frame i nonce packet msg"
  shows "message_try_from d = Inr (Transport d)" "transport_our_index d = i" "transport_nonce d = nonce"
    "transport_payload d = msg" "length d = length packet + padding_of packet + 32"
  using assms(1) unfolding d transport_frame_eq [OF assms(1)]
  by (simp_all add: message_try_from_def transport_try_from_def transport_our_index_def transport_nonce_def transport_payload_def
      slice_def read_u64_le_bytes [where bs = "[]", simplified])

lemma put_macs_eq:
  assumes "length xs = off" and "length mac1 = 16" and "\<And>m. mac2 = Some m \<Longrightarrow> length m = 16"
  shows "put_macs off mac1 mac2 (xs @ replicate 32 0) = xs @ mac1 @ (case mac2 of Some m \<Rightarrow> m | None \<Rightarrow> replicate 16 0)"
  using assms by (cases mac2) (simp_all add: put_macs_def put_slice_def)

lemma build_macs_length:
  assumes "lawful_crypto C" and "build_macs C g input now = ((mac1, mac2), g')"
  shows "length mac1 = 16" and "\<And>m. mac2 = Some m \<Longrightarrow> length m = 16"
  using assms(2) by (auto simp: build_macs_def Let_def lawful_cryptoD(2) [OF assms(1)] split: if_splits)

text \<open>The two handshake messages with their MACs.\<close>

definition initiation_packet :: "u32 \<Rightarrow> bytes \<Rightarrow> bytes \<Rightarrow> bytes option \<Rightarrow> bytes" where
  "initiation_packet i msg mac1 mac2 =
     [1, 0, 0, 0] @ le_bytes 4 (unat i) @ msg @ mac1 @ (case mac2 of Some m \<Rightarrow> m | None \<Rightarrow> replicate 16 0)"

definition response_packet :: "u32 \<Rightarrow> u32 \<Rightarrow> bytes \<Rightarrow> bytes \<Rightarrow> bytes option \<Rightarrow> bytes" where
  "response_packet i j msg mac1 mac2 =
     [2, 0, 0, 0] @ le_bytes 4 (unat i) @ le_bytes 4 (unat j) @ msg @ mac1 @ (case mac2 of Some m \<Rightarrow> m | None \<Rightarrow> replicate 16 0)"

lemma initiation_macs:
  assumes "length msg = 108" and "length mac1 = 16" and "\<And>m. mac2 = Some m \<Longrightarrow> length m = 16"
  shows "put_macs 116 mac1 mac2 (initiation_frame i msg) = initiation_packet i msg mac1 mac2"
  using put_macs_eq [of "[1, 0, 0, 0] @ le_bytes 4 (unat i) @ msg" 116 mac1 mac2] assms
  by (simp add: initiation_frame_eq initiation_packet_def)

lemma response_macs:
  assumes "length msg = 48" and "length mac1 = 16" and "\<And>m. mac2 = Some m \<Longrightarrow> length m = 16"
  shows "put_macs 60 mac1 mac2 (response_frame i j msg) = response_packet i j msg mac1 mac2"
  using put_macs_eq [of "[2, 0, 0, 0] @ le_bytes 4 (unat i) @ le_bytes 4 (unat j) @ msg" 60 mac1 mac2] assms
  by (simp add: response_frame_eq response_packet_def)

lemma initiation_fields:
  assumes "length msg = 108" and "length mac1 = 16" and "\<And>m. mac2 = Some m \<Longrightarrow> length m = 16"
    and d: "d = initiation_packet i msg mac1 mac2"
  shows "message_try_from d = Inr (Initiation d)" "initiation_sender_index d = i" "initiation_noise_bytes d = msg"
    "take 116 d = take 116 (initiation_frame i msg)" "slice 116 132 d = mac1" "length d = 148"
  using assms(1,2,3) unfolding d
  by (simp_all add: message_try_from_def initiation_try_from_def initiation_packet_def initiation_sender_index_def
      initiation_noise_bytes_def initiation_frame_eq slice_def split: option.splits)

lemma response_fields_packet:
  assumes "length msg = 48" and "length mac1 = 16" and "\<And>m. mac2 = Some m \<Longrightarrow> length m = 16"
    and d: "d = response_packet i j msg mac1 mac2"
  shows "message_try_from d = Inr (Response d)" "response_sender_index d = i" "response_receiver_index d = j"
    "response_noise_bytes d = msg" "take 60 d = take 60 (response_frame i j msg)" "slice 60 76 d = mac1" "length d = 92"
  using assms(1,2,3) unfolding d
  by (simp_all add: message_try_from_def response_try_from_def response_packet_def response_sender_index_def
      response_receiver_index_def response_noise_bytes_def response_frame_eq slice_def split: option.splits)

section \<open>Delivery of a packet\<close>

text \<open>Sender and receiver agree on the session, it is young enough on both sides and the nonce is
  neither exhausted nor in the receiver's window.\<close>

definition tunnel_ready :: "'n noise_ops \<Rightarrow> u64 \<Rightarrow> 'n session \<Rightarrow> instant \<Rightarrow> 'n session \<Rightarrow> instant \<Rightarrow> bool" where
  "tunnel_ready N n s now s' now' \<longleftrightarrow>
     transport_pair N n (s_noise s) (s_noise s') \<and> n < REJECT_AFTER_MESSAGES \<and>
     elapsed (birthday s) now < REJECT_AFTER_TIME \<and> elapsed (birthday s') now' < REJECT_AFTER_TIME \<and>
     ar_check (s_anti_replay s') n"

text \<open>The parsed header of the padded packet gives the length of the packet itself.\<close>

definition sized_packet :: "ip_parsers \<Rightarrow> bytes \<Rightarrow> bool" where
  "sized_packet P packet \<longleftrightarrow>
     packet = [] \<or>
     (\<exists>ip. ip_packet_new P (packet @ replicate (padding_of packet) 0) = Some ip \<and> unat (ip_length ip) = length packet)"

lemma padding_Nil [simp]: "padding_of [] = 0"
  by (simp add: padding_of_def)

lemma sent_datagram:
  assumes "current (sessions p) = Some s" and "endpoint (info p) = Some ep" and "tunnel_ready N n s now s' now'"
  obtains msg p' b1 b2 where
    "handle_outgoing_transport N packet now p = (Inr (ep, transport_frame (their_index s) n packet msg), p')"
    "length msg = length packet + padding_of packet + 16"
    "n_set_receiving_nonce N (s_noise s') n = (Inr (), b1)"
    "\<forall>sz. length packet + padding_of packet \<le> sz \<longrightarrow>
       n_read_message N b1 msg sz = (Inr (packet @ replicate (padding_of packet) 0), b2)"
proof -
  have pair: "transport_pair N n (s_noise s) (s_noise s')" and ok: "n < REJECT_AFTER_MESSAGES"
    "elapsed (birthday s) now < REJECT_AFTER_TIME" using assms(3) by (auto simp: tunnel_ready_def)
  from pair obtain b1 where b1: "n_set_receiving_nonce N (s_noise s') n = (Inr (), b1)" and
    w: "\<And>payload sz. length payload + 16 \<le> sz \<Longrightarrow>
       \<exists>c a1 b2. n_write_message N (s_noise s) payload sz = (Inr c, a1) \<and> length c = length payload + 16 \<and>
         (\<forall>sz'. length payload \<le> sz' \<longrightarrow> n_read_message N b1 c sz' = (Inr payload, b2))"
    by (auto simp: transport_pair_def)
  have n: "n_sending_nonce N (s_noise s) = Inr n" using pair by (simp add: transport_pair_def)
  let ?pl = "packet @ replicate (padding_of packet) 0"
  obtain msg a1 b2 where wr: "n_write_message N (s_noise s) ?pl (length packet + padding_of packet + 16) = (Inr msg, a1)"
    and len: "length msg = length packet + padding_of packet + 16"
    and rd: "\<forall>sz. length packet + padding_of packet \<le> sz \<longrightarrow> n_read_message N b1 msg sz = (Inr ?pl, b2)"
    using w [of ?pl "length packet + padding_of packet + 16"] by auto
  have "\<exists>p'. handle_outgoing_transport N packet now p = (Inr (ep, transport_frame (their_index s) n packet msg), p')"
    using assms(1,2) n ok wr
    by (simp add: handle_outgoing_transport_def transport_frame_def Let_def size_defs ac_simps)
  then show thesis using that len b1 rd by blast
qed

lemma received_datagram:
  assumes "tunnel_ready N n s now s' now'" and "sized_packet P packet"
    and len: "length msg = length packet + padding_of packet + 16"
    and b1: "n_set_receiving_nonce N (s_noise s') n = (Inr (), b1)"
    and rd: "\<forall>sz. length packet + padding_of packet \<le> sz \<longrightarrow>
       n_read_message N b1 msg sz = (Inr (packet @ replicate (padding_of packet) 0), b2)"
    and d: "d = transport_frame i n packet msg"
  shows "receive_in_session N P d now' s' =
    (Inr packet, s'\<lparr>s_anti_replay := snd (ar_update (s_anti_replay s') n), s_noise := b2\<rparr>)"
proof -
  note f = transport_frame_fields [OF len d]
  have read: "n_read_message N b1 (transport_payload d) (length d) = (Inr (packet @ replicate (padding_of packet) 0), b2)"
    using rd f by simp
  have ar: "ar_update (s_anti_replay s') n = (Inr (), ar_update_store (s_anti_replay s') n)"
    using assms(1) by (simp add: tunnel_ready_def ar_update_def)
  have buf: "put_slice 0 (packet @ replicate (padding_of packet) 0) (replicate (length d) 0) =
      packet @ replicate (padding_of packet + 32) 0"
    by (simp add: put_slice_def f(5) replicate_add)
  show ?thesis
  proof (cases "packet = []")
    case True
    then show ?thesis using assms(1) f(3) read ar b1
      by (simp add: receive_in_session_def tunnel_ready_def transport_pair_def Let_def)
  next
    case False
    then obtain ip where ip: "ip_packet_new P (packet @ replicate (padding_of packet) 0) = Some ip"
      "unat (ip_length ip) = length packet" using assms(2) by (auto simp: sized_packet_def)
    have "take (length packet + padding_of packet) (packet @ replicate (padding_of packet + 32) 0) =
        packet @ replicate (padding_of packet) (0 :: u8)" by (simp add: replicate_add)
    then show ?thesis using assms(1) f(3) read ar b1 False buf ip
      by (simp add: receive_in_session_def tunnel_ready_def transport_pair_def Let_def)
  qed
qed

lemma delivered:
  assumes "find_session i q = Some (s', ty)" and "receive_in_session N P d now s' = (Inr packet, s'')"
    and "transport_our_index d = i"
  shows "\<exists>q'. handle_incoming_transport N P addr d now q =
      (Inr (packet, if ty = Next then Transition (map_option our_index (past (sessions q))) else NoTransition), q') \<and>
    endpoint (info q') = Some addr \<and>
    (if ty = Next then current (sessions q') = Some s'' else session_at ty q' = Some s'')"
proof -
  obtain r q' where step: "handle_incoming_transport N P addr d now q = (r, q')" by force
  then show ?thesis
  proof (cases rule: incoming_cases)
    case (ok s ty' raw s1)
    then show ?thesis using assms step
      by (cases ty) (auto simp: note_received_def put_session_def session_at_def)
  next
    case (rotate s raw s1)
    then show ?thesis using assms step
      by (auto simp: note_received_def rotate_sessions_def put_session_def)
  qed (use assms in auto)
qed

text \<open>C6: a packet goes through the tunnel unchanged. What the sender's current session encrypts parses as
  a transport message, and the peer that holds the other end of that session accepts it and returns
  the packet without its padding, records the sender's address, and, when the session was not yet
  confirmed, makes it the current one.\<close>

theorem transport_delivery:
  assumes "current (sessions p) = Some s" and "endpoint (info p) = Some ep"
    and "find_session (their_index s) q = Some (s', ty)"
    and "tunnel_ready N n s now s' now'" and "sized_packet P packet"
  shows "\<exists>d p' q'. handle_outgoing_transport N packet now p = (Inr (ep, d), p') \<and>
    message_try_from d = Inr (Transport d) \<and>
    handle_incoming_transport N P addr d now' q =
      (Inr (packet, if ty = Next then Transition (map_option our_index (past (sessions q))) else NoTransition), q') \<and>
    endpoint (info q') = Some addr \<and>
    (ty = Next \<longrightarrow> map_option our_index (current (sessions q')) = Some (their_index s))"
proof -
  obtain msg p' b1 b2 where out: "handle_outgoing_transport N packet now p = (Inr (ep, transport_frame (their_index s) n packet msg), p')"
    and rest: "length msg = length packet + padding_of packet + 16"
      "n_set_receiving_nonce N (s_noise s') n = (Inr (), b1)"
      "\<forall>sz. length packet + padding_of packet \<le> sz \<longrightarrow>
         n_read_message N b1 msg sz = (Inr (packet @ replicate (padding_of packet) 0), b2)"
    by (rule sent_datagram [OF assms(1,2,4), where packet = packet])
  let ?d = "transport_frame (their_index s) n packet msg"
  note f = transport_frame_fields [OF rest(1) refl, of "their_index s" n]
  have "our_index s' = their_index s" by (rule find_sessionD [OF assms(3)])
  then show ?thesis
    using delivered [OF assms(3) received_datagram [OF assms(4,5) rest refl] f(2), of addr] out f(1) by auto
qed

text \<open>The witness: the two ends of a finished handshake of the transparent instance.\<close>

definition clear_end :: "bool \<Rightarrow> u32 \<Rightarrow> u32 \<Rightarrow> clear_session session" where
  "clear_end initiator ours theirs =
     \<lparr>s_noise = \<lparr>c_initiator = initiator, c_phase = Transporting, c_local = replicate 32 1,
                 c_remote = Some (replicate 32 2), c_sending = 0\<rparr>,
      our_index = ours, their_index = theirs, s_anti_replay = ar_new, birthday = Some 0\<rparr>"

definition clear_peer :: "clear_session sessions \<Rightarrow> clear_session peer" where
  "clear_peer ss =
     (peer_new test_crypto (peer_info_default\<lparr>endpoint := Some (endpoint_from (SocketAddrV4 1 2))\<rparr>))\<lparr>sessions := ss\<rparr>"

lemma tunnel_ready_clear: "tunnel_ready clear_noise 0 (clear_end a i j) 5 (clear_end b j i) 6"
  using transport_pair_clear [of "s_noise (clear_end a i j)" "s_noise (clear_end b j i)"]
    ar_check_iff [OF ar_models_new, of 0]
  by (simp add: tunnel_ready_def clear_end_def REJECT_AFTER_MESSAGES_value time_defs secs_def window_accepts_def)

theorem transport_delivery_witness:
  "\<exists>d p' q'. handle_outgoing_transport clear_noise [0x45, 1, 2] 5
       (clear_peer \<lparr>past = None, current = Some (clear_end True 3 4), next_s = None\<rparr>) =
       (Inr (endpoint_from (SocketAddrV4 1 2), d), p') \<and>
    handle_incoming_transport clear_noise
       \<lparr>ipv4_new = \<lambda>_. Some \<lparr>v4_source = 0, v4_destination = 0, v4_total_length = 3\<rparr>, ipv6_new = \<lambda>_. None\<rparr>
       (endpoint_from (SocketAddrV4 9 9)) d 6
       (clear_peer \<lparr>past = None, current = None, next_s = Some (clear_end False 4 3)\<rparr>) =
       (Inr ([0x45, 1, 2], Transition None), q')"
proof -
  let ?P = "\<lparr>ipv4_new = \<lambda>_. Some \<lparr>v4_source = 0, v4_destination = 0, v4_total_length = 3\<rparr>, ipv6_new = \<lambda>_. None\<rparr>"
  have "sized_packet ?P [0x45, 1, 2]" by (simp add: sized_packet_def ip_packet_new_def)
  moreover have "current (sessions (clear_peer \<lparr>past = None, current = Some (clear_end True 3 4), next_s = None\<rparr>)) =
      Some (clear_end True 3 4)" by (simp add: clear_peer_def)
  moreover have "endpoint (info (clear_peer ss)) = Some (endpoint_from (SocketAddrV4 1 2))" for ss
    by (simp add: clear_peer_def peer_new_def)
  moreover have "find_session (their_index (clear_end True 3 4))
      (clear_peer \<lparr>past = None, current = None, next_s = Some (clear_end False 4 3)\<rparr>) = Some (clear_end False 4 3, Next)"
    by (simp add: clear_peer_def find_session_def has_index_def clear_end_def)
  ultimately show ?thesis
    using transport_delivery [where q = "clear_peer \<lparr>past = None, current = None, next_s = Some (clear_end False 4 3)\<rparr>"
        and p = "clear_peer \<lparr>past = None, current = Some (clear_end True 3 4), next_s = None\<rparr>"
        and addr = "endpoint_from (SocketAddrV4 9 9)", OF _ _ _ tunnel_ready_clear]
    by (fastforce simp: clear_peer_def)
qed

section \<open>The handshake\<close>

lemma mac1_verifies:
  assumes "keyed_generator C pk g" and "keyed_validator C pk v" and "build_macs C g input now = ((mac1, mac2), g')"
  shows "verify_mac1 C v input mac1 = Inr ()"
  using assms by (auto simp: keyed_generator_def keyed_validator_def build_macs_def verify_mac1_def Let_def)

lemma replace_next_stores:
  "\<exists>d q. replace_next s p = (d, q) \<and> next_s (sessions q) = Some s \<and> current (sessions q) = current (sessions p) \<and>
     info q = info p \<and> timers q = timers p \<and> p_cookie q = p_cookie p"
  by (auto simp: replace_next_def Let_def)

lemma nested_pair: "\<exists>a b c. x = ((a, b), c)"
  by (cases x) auto

lemma initiates:
  assumes "lawful_crypto C"
    and "build_initiator N ent k (pub_key (info p)) (psk (info p)) = Inr i0"
    and "n_write_message N i0 (tai64n_deref (tai64n_now wall)) 140 = (Inr msg, i1)" and "length msg = 108"
    and "endpoint (info p) = Some ep"
  obtains mac1 mac2 g' d p' where
    "build_macs C (p_cookie p) (take 116 (initiation_frame idx msg)) now = ((mac1, mac2), g')"
    "initiate_new_session N C k idx ent now wall p = (Inr (ep, initiation_packet idx msg mac1 mac2, d), p')"
    "next_s (sessions p') = Some (session_new i1 idx)" "info p' = info p"
proof -
  obtain mac1 mac2 g' where m: "build_macs C (p_cookie p) (take 116 (initiation_frame idx msg)) now = ((mac1, mac2), g')"
    using nested_pair [of "build_macs C (p_cookie p) (take 116 (initiation_frame idx msg)) now"] by blast
  obtain d q where r: "replace_next (session_new i1 idx) (p\<lparr>p_cookie := g'\<rparr>) = (d, q)"
    "next_s (sessions q) = Some (session_new i1 idx)" "info q = info p"
    using replace_next_stores [of "session_new i1 idx" "p\<lparr>p_cookie := g'\<rparr>"] by auto
  have "initiate_new_session N C k idx ent now wall p = (Inr (ep, initiation_packet idx msg mac1 mac2, d), q)"
    using assms(2,3,5) m r(1) initiation_macs [OF assms(4) build_macs_length [OF assms(1) m], where i = idx]
    by (simp add: initiate_new_session_def Let_def initiation_frame_def)
  then show thesis using that m r by blast
qed

lemma completes:
  assumes "lawful_crypto C" and "\<And>l. last_handshake_tai64n q = Some l \<Longrightarrow> tai64n_lt l (ih_timestamp h)"
    and "n_set_psk N (ih_noise h) 2 (case psk (info q) of Some k \<Rightarrow> k | None \<Rightarrow> replicate 32 0) = (Inr (), r2)"
    and "n_write_message N r2 [] 80 = (Inr msg, r3)" and "length msg = 48" and "n_into_transport_mode N r3 = Inr r4"
  obtains mac1 mac2 g' d q' where
    "build_macs C (p_cookie q) (take 60 (response_frame idx (ih_their_index h) msg)) now = ((mac1, mac2), g')"
    "complete_incoming_handshake N C addr idx h now q = (Inr (response_packet idx (ih_their_index h) msg mac1 mac2, d), q')"
    "next_s (sessions q') = Some ((session_with_their_index r4 idx (ih_their_index h))\<lparr>birthday := Some now\<rparr>)"
    "endpoint (info q') = Some addr"
proof -
  let ?f = "response_frame idx (ih_their_index h) msg"
  obtain mac1 mac2 g' where m: "build_macs C (p_cookie q) (take 60 ?f) now = ((mac1, mac2), g')"
    using nested_pair [of "build_macs C (p_cookie q) (take 60 ?f) now"] by blast
  let ?s = "(session_with_their_index r4 idx (ih_their_index h))\<lparr>birthday := Some now\<rparr>"
  obtain d q1 where r: "replace_next ?s (q\<lparr>p_cookie := g'\<rparr>) = (d, q1)" "next_s (sessions q1) = Some ?s"
    using replace_next_stores [of ?s "q\<lparr>p_cookie := g'\<rparr>"] by auto
  have resp: "get_response_packet N C now ((session_with_their_index r2 idx (ih_their_index h))\<lparr>birthday := Some now\<rparr>, q) =
      (Inr (response_packet idx (ih_their_index h) msg mac1 mac2),
       (session_with_their_index r3 idx (ih_their_index h))\<lparr>birthday := Some now\<rparr>, q\<lparr>p_cookie := g'\<rparr>)"
    using assms(4) m response_macs [OF assms(5) build_macs_length [OF assms(1) m], where i = idx and j = "ih_their_index h"]
    by (simp add: get_response_packet_def Let_def response_frame_def)
  obtain q' where "complete_incoming_handshake N C addr idx h now q = (Inr (response_packet idx (ih_their_index h) msg mac1 mac2, d), q')"
    and "sessions q' = sessions q1" "endpoint (info q') = Some addr"
    using assms(2,3,6) resp r(1)
    by (cases "last_handshake_tai64n q")
      (simp_all add: complete_incoming_handshake_def Let_def timestamp_now_def into_transport_mode_def)
  then show thesis using r(2) by (intro that [OF m]) simp_all
qed



section \<open>No panics\<close>

text \<open>The current session is in transport mode, and so is every stored session whose handshake is finished.\<close>

definition transport_inv :: "'n noise_ops \<Rightarrow> 'n peer \<Rightarrow> bool" where
  "transport_inv N p \<longleftrightarrow>
     (\<forall>s. current (sessions p) = Some s \<longrightarrow> in_transport N (s_noise s)) \<and>
     (\<forall>s \<in> set (stored p). n_is_handshake_finished N (s_noise s) \<longrightarrow> in_transport N (s_noise s))"

lemma lawful_noiseD:
  assumes "lawful_noise N"
  shows "n_into_transport_mode N s = Inr s' \<Longrightarrow> in_transport N s'"
    and "in_transport N s \<Longrightarrow> n_write_message N s payload sz = (r, s') \<Longrightarrow> in_transport N s'"
    and "in_transport N s \<Longrightarrow> n_read_message N s message sz = (r, s') \<Longrightarrow> in_transport N s'"
    and "in_transport N s \<Longrightarrow> n_set_receiving_nonce N s nonce = (ru, s') \<Longrightarrow> in_transport N s'"
    and "build_initiator N entropy k pk k2 = Inr s \<Longrightarrow> n_write_message N s payload sz = (Inr msg, s') \<Longrightarrow>
      \<not> n_is_handshake_finished N s'"
  using assms unfolding lawful_noise_def build_initiator_def by (metis snd_conv)+

lemma receive_keeps_transport:
  assumes "lawful_noise N" and "receive_in_session N P packet now s = (r, s')"
    and "n_is_handshake_finished N (s_noise s) \<longrightarrow> in_transport N (s_noise s)"
  shows "s_noise s' = s_noise s \<or> in_transport N (s_noise s')"
proof (cases "n_is_handshake_finished N (s_noise s)")
  case False
  then show ?thesis using assms(2) by (auto simp: receive_in_session_def)
next
  case True
  then have t: "in_transport N (s_noise s)" using assms(3) by simp
  obtain r1 n1 where n1: "n_set_receiving_nonce N (s_noise s) (transport_nonce packet) = (r1, n1)" by force
  obtain r2 n2 where n2: "n_read_message N n1 (transport_payload packet) (length packet) = (r2, n2)" by force
  have "s_noise s' = s_noise s \<or> s_noise s' = n1 \<or> s_noise s' = n2"
    using assms(2) n1 n2 by (auto simp: receive_in_session_def Let_def split: if_splits sum.splits option.splits prod.splits)
  moreover have "in_transport N n1" by (rule lawful_noiseD(4) [OF assms(1) t n1])
  moreover from this have "in_transport N n2" by (rule lawful_noiseD(3) [OF assms(1) _ n2])
  ultimately show ?thesis by auto
qed

text \<open>A change of the sessions that keeps or re-establishes transport mode session by session.\<close>

lemma transport_invI:
  assumes "\<And>s. current (sessions p) = Some s \<Longrightarrow> in_transport N (s_noise s)"
    and "\<And>s. past (sessions p) = Some s \<Longrightarrow> n_is_handshake_finished N (s_noise s) \<Longrightarrow> in_transport N (s_noise s)"
    and "\<And>s. next_s (sessions p) = Some s \<Longrightarrow> n_is_handshake_finished N (s_noise s) \<Longrightarrow> in_transport N (s_noise s)"
  shows "transport_inv N p"
  using assms by (auto simp: transport_inv_def stored_def)

lemma transport_invD:
  assumes "transport_inv N p"
  shows "current (sessions p) = Some s \<Longrightarrow> in_transport N (s_noise s)"
    and "past (sessions p) = Some s \<Longrightarrow> n_is_handshake_finished N (s_noise s) \<Longrightarrow> in_transport N (s_noise s)"
    and "next_s (sessions p) = Some s \<Longrightarrow> n_is_handshake_finished N (s_noise s) \<Longrightarrow> in_transport N (s_noise s)"
  using assms by (auto simp: transport_inv_def stored_def)

lemma transport_inv_cong: "sessions p = sessions q \<Longrightarrow> transport_inv N p \<longleftrightarrow> transport_inv N q"
  by (simp add: transport_inv_def stored_def)

lemma transport_inv_simps [simp]:
  "transport_inv N (note_received addr packet raw now p) = transport_inv N p"
  "transport_inv N (note_sent pk msg now p) = transport_inv N p"
  "transport_inv N (p\<lparr>p_cookie := c\<rparr>) = transport_inv N p"
  "transport_inv N (p\<lparr>outgoing_queue := q\<rparr>) = transport_inv N p"
  "transport_inv N (p\<lparr>info := i\<rparr>) = transport_inv N p"
  "transport_inv N (p\<lparr>timers := t\<rparr>) = transport_inv N p"
  by (rule transport_inv_cong, simp)+

lemma transport_inv_replace_next:
  assumes "transport_inv N p" and "replace_next s p = (d, q)"
    and "n_is_handshake_finished N (s_noise s) \<Longrightarrow> in_transport N (s_noise s)"
  shows "transport_inv N q"
  using assms(2,3) transport_invD [OF assms(1)]
  by (auto simp: replace_next_def Let_def split: if_splits intro!: transport_invI)

lemma transport_inv_put:
  assumes "transport_inv N p" and "session_at ty p = Some s"
    and "s_noise s' = s_noise s \<or> in_transport N (s_noise s')"
  shows "transport_inv N (put_session ty s' p)"
  using assms(2,3) transport_invD [OF assms(1)]
  by (cases ty) (auto simp: put_session_def session_at_def intro!: transport_invI)

lemma transport_inv_incoming:
  assumes law: "lawful_noise N" and inv: "transport_inv N p"
    and step: "handle_incoming_transport N P addr packet now p = (r, p')"
  shows "transport_inv N p'"
proof -
  have put: "transport_inv N (put_session ty s' p)"
    if "find_session (transport_our_index packet) p = Some (s, ty)" "receive_in_session N P packet now s = (rr, s')" for s ty rr s'
  proof -
    have s: "session_at ty p = Some s" by (rule find_sessionD [OF that(1)])
    then have "n_is_handshake_finished N (s_noise s) \<longrightarrow> in_transport N (s_noise s)"
      using inv session_at_stored [OF s] by (simp add: transport_inv_def)
    from transport_inv_put [OF inv s receive_keeps_transport [OF law that(2) this]] show ?thesis .
  qed
  show ?thesis
    using step
  proof (cases rule: incoming_cases)
    case (err s ty e s')
    then show ?thesis using put [OF err(1,2)] by simp
  next
    case (ok s ty raw s')
    then show ?thesis using put [OF ok(1,3)] by simp
  next
    case (rotate s raw s')
    have fin: "n_is_handshake_finished N (s_noise s)" using rotate(2) by (rule receive_cases) simp_all
    then have "in_transport N (s_noise s)"
      using inv session_at_stored [OF find_sessionD(1) [OF rotate(1)]] by (simp add: transport_inv_def)
    then have "in_transport N (s_noise s')" using receive_keeps_transport [OF law rotate(2)] by auto
    moreover have "transport_inv N (put_session Next s' p)" by (rule put [OF rotate(1,2)])
    ultimately have "transport_inv N (rotate_sessions now (put_session Next s' p))"
      by (intro transport_invI) (auto simp: rotate_sessions_def put_session_def dest: transport_invD)
    then show ?thesis using rotate by simp
  qed (use inv in simp)
qed

lemma transport_inv_step:
  assumes law: "lawful_noise N" and inv: "transport_inv N p"
  shows "transport_inv N (peer_step N C P ev p)"
proof (cases ev)
  case (InitiateSession k i ent now wall)
  obtain r p' where step: "initiate_new_session N C k i ent now wall p = (r, p')" by force
  then show ?thesis
  proof (cases rule: initiate_cases)
    case (ok noise0 ep msg noise mac1 mac2 cookie d)
    have "transport_inv N (p\<lparr>p_cookie := cookie\<rparr>)" using inv by simp
    from transport_inv_replace_next [OF this ok(5)] show ?thesis
      using step InitiateSession lawful_noiseD(5) [OF law ok(1,3)] by simp
  qed (use InitiateSession step inv in simp)
next
  case (CompleteHandshake addr i h now)
  obtain r p' where step: "complete_incoming_handshake N C addr i h now p = (r, p')" by force
  then show ?thesis
  proof (cases rule: complete_cases)
    case (err e)
    then show ?thesis using step CompleteHandshake inv transport_inv_cong [of p' p] by simp
  next
    case (ok noise1 msg noise2 mac1 mac2 cookie noise3 d q)
    have "transport_inv N (p\<lparr>p_cookie := cookie\<rparr>)" using inv by simp
    from transport_inv_replace_next [OF this ok(6)] have "transport_inv N q"
      using lawful_noiseD(1) [OF law ok(5)] by simp
    then show ?thesis using step CompleteHandshake ok(7) transport_inv_cong [of p' q] by simp
  qed
next
  case (HandshakeResponse addr packet now)
  obtain r p' where step: "process_incoming_handshake_response N addr packet now p = (r, p')" by force
  then show ?thesis
  proof (cases rule: handshake_response_cases)
    case (err e s)
    have "transport_inv N p'" using err(3) transport_invD [OF inv] by (intro transport_invI) simp_all
    then show ?thesis using step HandshakeResponse by simp
  next
    case (ok s payload noise1 noise2)
    have "transport_inv N p'"
      using ok(5) transport_invD [OF inv] lawful_noiseD(1) [OF law ok(3)] by (intro transport_invI) auto
    then show ?thesis using step HandshakeResponse by simp
  qed (use HandshakeResponse step inv in simp)
next
  case (IncomingTransport addr packet now)
  then show ?thesis using transport_inv_incoming [OF law inv surjective_pairing] by simp
next
  case (OutgoingTransport packet now)
  obtain r p' where step: "handle_outgoing_transport N packet now p = (r, p')" by force
  have put: "transport_inv N (put_session Current (s\<lparr>s_noise := noise\<rparr>) p)"
    if "current (sessions p) = Some s" "n_write_message N (s_noise s) pl k = (rr, noise)" for s noise pl k rr
    using that lawful_noiseD(2) [OF law transport_invD(1) [OF inv that(1)] that(2)]
    by (intro transport_inv_put [OF inv, of Current s]) (auto simp: session_at_def)
  from step show ?thesis
  proof (cases rule: outgoing_cases)
    case (late e s noise)
    then show ?thesis using step OutgoingTransport put [OF late(1,4)] by simp
  next
    case (ok s ep nonce msg noise)
    then show ?thesis using step OutgoingTransport put [OF ok(1,6)] by simp
  qed (use OutgoingTransport step inv in simp)
qed (use inv in \<open>auto simp: consume_cookie_reply_def queue_egress_def wipe_sessions_def wipe_def split: prod.splits\<close>,
    auto simp: sessions_default_def intro!: transport_invI)

fun peer_run :: "'n noise_ops \<Rightarrow> crypto \<Rightarrow> ip_parsers \<Rightarrow> 'n peer_event list \<Rightarrow> 'n peer \<Rightarrow> 'n peer" where
  "peer_run N C P [] p = p"
| "peer_run N C P (ev # evs) p = peer_run N C P evs (peer_step N C P ev p)"

lemma transport_inv_run: "lawful_noise N \<Longrightarrow> transport_inv N p \<Longrightarrow> transport_inv N (peer_run N C P evs p)"
  by (induction evs arbitrary: p) (auto intro: transport_inv_step)

lemma transport_inv_new: "transport_inv N (peer_new C i)"
  by (intro transport_invI) (simp_all add: peer_new_def sessions_default_def)

lemma no_panic:
  assumes "transport_inv N p"
  shows "\<exists>b b'. needs_new_handshake N sending now p = Inr b \<and> ready_for_transport N now p = Inr b'"
proof -
  have "\<exists>n. unwrapped_nonce N s = Inr n" if "current (sessions p) = Some s" for s
    using transport_invD(1) [OF assms that] by (auto simp: in_transport_def unwrapped_nonce_def)
  then show ?thesis
    by (cases "current (sessions p)") (auto simp: needs_new_handshake_def ready_for_transport_def)
qed

text \<open>C7: the \<open>unwrap\<close>s of the sending nonce never panic: whatever has happened to a peer, asking whether
  it needs a handshake and whether it can send returns an answer.\<close>

theorem peer_never_panics:
  assumes "lawful_noise N"
  shows "\<exists>b b'. needs_new_handshake N sending now (peer_run N C P evs (peer_new C i)) = Inr b \<and>
    ready_for_transport N now (peer_run N C P evs (peer_new C i)) = Inr b'"
  by (rule no_panic [OF transport_inv_run [OF assms transport_inv_new]])

theorem peer_never_panics_witness:
  "\<exists>b b'. needs_new_handshake clear_noise True 7 (peer_run clear_noise test_crypto
       \<lparr>ipv4_new = \<lambda>_. None, ipv6_new = \<lambda>_. None\<rparr>
       [InitiateSession (replicate 32 1) 7 0 0 0, HandshakeResponse (endpoint_from (SocketAddrV4 1 2)) (replicate 92 0) 1]
       (peer_new test_crypto (peer_info_default\<lparr>endpoint := Some (endpoint_from (SocketAddrV4 1 2))\<rparr>))) = Inr b \<and>
     ready_for_transport clear_noise 7 (peer_run clear_noise test_crypto
       \<lparr>ipv4_new = \<lambda>_. None, ipv6_new = \<lambda>_. None\<rparr>
       [InitiateSession (replicate 32 1) 7 0 0 0, HandshakeResponse (endpoint_from (SocketAddrV4 1 2)) (replicate 92 0) 1]
       (peer_new test_crypto (peer_info_default\<lparr>endpoint := Some (endpoint_from (SocketAddrV4 1 2))\<rparr>))) = Inr b'"
  by (rule peer_never_panics [OF lawful_clear_noise])

section \<open>Sizes\<close>

lemma padding_bounds: "padding_of packet < 16" "(length packet + padding_of packet) mod 16 = 0"
  by (simp_all add: padding_of_def PADDING_MULTIPLE_def) presburger+

text \<open>C13: an encrypted packet is padded to a multiple of sixteen bytes and carries 32 bytes of overhead.
  The largest packet the tunnel is allowed to send, \<open>MAX_CONTENT_SIZE\<close> bytes, is padded beyond that
  size, and its datagram is one byte longer than \<open>MAX_SEGMENT_SIZE\<close>.\<close>

theorem datagram_size:
  assumes "\<And>s payload sz c s'. n_write_message N s payload sz = (Inr c, s') \<Longrightarrow> in_transport N s \<Longrightarrow> length c = length payload + 16"
    and "handle_outgoing_transport N packet now p = (Inr (ep, d), p')"
  shows "length d mod 16 = 0 \<and> length packet + 32 \<le> length d \<and> length d < length packet + 48 \<and>
    (length packet = MAX_CONTENT_SIZE \<longrightarrow> length d = MAX_SEGMENT_SIZE + 1)"
  using assms(2)
proof (cases rule: outgoing_cases)
  case (ok s ep' nonce msg noise)
  have len: "length msg = length packet + padding_of packet + 16"
    using assms(1) [OF ok(6)] ok(3) by (simp add: in_transport_def)
  then have d: "length d = length packet + padding_of packet + 32"
    using ok(7) transport_frame_fields(5) [OF len refl] by simp
  have "padding_of packet = 1" if "length packet = MAX_CONTENT_SIZE"
    using that by (simp add: padding_of_def size_defs)
  then show ?thesis using d padding_bounds [of packet] by (auto simp: size_defs mod_simps)
qed simp_all

theorem datagram_size_witness:
  "\<exists>d p'. handle_outgoing_transport clear_noise [0x45, 1, 2] 5
      (clear_peer \<lparr>past = None, current = Some (clear_end True 3 4), next_s = None\<rparr>) =
      (Inr (endpoint_from (SocketAddrV4 1 2), d), p') \<and> length d mod 16 = 0 \<and> 35 \<le> length d \<and> length d < 51"
proof -
  let ?p = "clear_peer \<lparr>past = None, current = Some (clear_end True 3 4), next_s = None\<rparr>"
  have law: "length c = length payload + 16"
    if "n_write_message clear_noise s payload sz = (Inr c, s')" "in_transport clear_noise s" for s payload sz c s'
    using that by (auto simp: clear_defs in_transport_def split: phase.splits if_splits)
  have "current (sessions ?p) = Some (clear_end True 3 4)" "endpoint (info ?p) = Some (endpoint_from (SocketAddrV4 1 2))"
    by (simp_all add: clear_peer_def peer_new_def)
  then obtain msg p' where "handle_outgoing_transport clear_noise [0x45, 1, 2] 5 ?p =
      (Inr (endpoint_from (SocketAddrV4 1 2), transport_frame (their_index (clear_end True 3 4)) 0 [0x45, 1, 2] msg), p')"
    by (rule sent_datagram [OF _ _ tunnel_ready_clear])
  with datagram_size [OF law this] show ?thesis by auto
qed

end
