(* ===== verification/ServerSafety.thy ===== *)
theory ServerSafety
  imports ServerPoll PeerTransport
begin

text \<open>
  The invariant of the peer server: the shared state is well formed, every receiver index in use is
  unique and leads to its peer, and current sessions are in transport mode. It satisfies the contract of
  the handlers, so it holds throughout any run, and no handler panics.
\<close>

section \<open>Replacing the sessions of a peer\<close>

text \<open>Where a draw is the index of some peer, the index map says so: the draw is not unused.\<close>

definition drawn :: "u32 set \<Rightarrow> ('n, 't4, 't6) state \<Rightarrow> bool" where
  "drawn D st \<longleftrightarrow>
     (\<forall>r < next_ref st. \<forall>i \<in> D. i \<in> set (get_mapped_indices (heap st r)) \<longrightarrow> map_of (index_map st) i = Some r)"

lemma drawn_unused:
  assumes "drawn (set ds) st" and "unused_index ds st = Inr i" and "r < next_ref st"
  shows "i \<notin> set (get_mapped_indices (heap st r))" "map_of (index_map st) i = None" "i \<in> set ds"
proof -
  show i: "map_of (index_map st) i = None" "i \<in> set ds"
    using assms(2) by (induction ds) (auto split: if_splits)
  then show "i \<notin> set (get_mapped_indices (heap st r))" using assms(1,3) by (auto simp: drawn_def)
qed

text \<open>The peer \<open>r\<close> gives up the indices \<open>dead\<close> and gets the indices \<open>new\<close>, and the index map follows.\<close>

lemma wf_replace_peer:
  fixes st :: "('n, 't4, 't6) state"
  assumes wf: "wf_state V4 V6 st" and D: "drawn D st" and r: "r < next_ref st"
    and cfg: "config_of p' = config_of (heap st r)" and dist: "distinct (get_mapped_indices p')"
    and idx: "set (get_mapped_indices p') \<subseteq> set (get_mapped_indices (heap st r)) \<union> new"
    and dead: "dead \<subseteq> set (get_mapped_indices (heap st r))" "dead \<inter> set (get_mapped_indices p') = {}" "dead \<inter> new = {}"
    and fresh: "\<And>i q. i \<in> new \<Longrightarrow> q < next_ref st \<Longrightarrow> i \<notin> set (get_mapped_indices (heap st q))"
    and im: "wf_map im" "\<And>j. map_of im j = (if j \<in> dead then None else if j \<in> new then Some r else map_of (index_map st) j)"
  defines "st' \<equiv> st\<lparr>heap := (heap st)(r := p'), index_map := im\<rparr>"
  shows "wf_state V4 V6 st'" "drawn D st'"
proof -
  note m = wf_stateD(1) [OF wf] and ro = wf_stateD(2) [OF wf] and s = wf_stateD(3) [OF wf]
  have info: "pub_key (info p') = pub_key (info (heap st r))" "allowed_ips (info p') = allowed_ips (info (heap st r))"
    using cfg by (simp_all add: config_of_def)
  have conf: "configured st' = configured st" by (simp add: st'_def configured_def fun_eq_iff)
  have maps: "maps_ok st'"
    using m r im unfolding maps_ok_def st'_def by (auto simp: info split: if_splits)
  have routes: "routes_ok V4 V6 st'"
    using ro unfolding routes_ok_def conf by (simp add: st'_def info)
  have old: "q = r" if "q < next_ref st" "i \<in> set (get_mapped_indices p')" "i \<in> set (get_mapped_indices (heap st q))" for q i
    using that idx fresh sessions_okD(2) [OF s that(1) r that(3)] by blast
  have keep: "map_of im i = Some q"
    if "q < next_ref st" "i \<in> set (get_mapped_indices (heap st' q))"
      "i \<in> set (get_mapped_indices (heap st q)) \<Longrightarrow> map_of (index_map st) i = Some q" for q i
  proof (cases "q = r")
    case True
    then have "i \<in> set (get_mapped_indices p')" using that(2) by (simp add: st'_def)
    then show ?thesis using that(3) dead(2) idx True by (auto simp: im(2))
  next
    case False
    then have i: "i \<in> set (get_mapped_indices (heap st q))" using that(2) by (simp add: st'_def)
    then have "i \<notin> dead" using dead(1) sessions_okD(2) [OF s that(1) r i] False by blast
    then show ?thesis using that(3) [OF i] fresh [OF _ that(1)] i by (auto simp: im(2))
  qed
  have "sessions_ok st'"
  proof (rule sessions_okI)
    fix q
    assume "q < next_ref st'"
    then show "distinct (get_mapped_indices (heap st' q))" using sessions_okD(1) [OF s, of q] dist by (simp add: st'_def)
  next
    fix q q' i
    assume "q < next_ref st'" "q' < next_ref st'" and i: "i \<in> set (get_mapped_indices (heap st' q))" "i \<in> set (get_mapped_indices (heap st' q'))"
    then have q: "q < next_ref st" "q' < next_ref st" by (simp_all add: st'_def)
    show "q = q'"
    proof (cases "q = r \<or> q' = r")
      case True
      then show ?thesis using i old [OF q(1), of i] old [OF q(2), of i] by (auto simp: st'_def split: if_splits)
    next
      case False
      then show ?thesis using i sessions_okD(2) [OF s q] by (auto simp: st'_def)
    qed
  next
    fix q i
    assume q: "configured st' q" and i: "i \<in> set (get_mapped_indices (heap st' q))"
    then show "map_of (index_map st') i = Some q"
      using keep [OF configured_bound [OF m] i] sessions_okD(3) [OF s, of q i] by (simp add: conf) (simp add: st'_def)
  qed
  with maps routes show "wf_state V4 V6 st'" by (simp add: wf_state_def)
  show "drawn D st'" using D keep unfolding drawn_def by (simp add: st'_def)
qed

section \<open>The invariant\<close>

text \<open>The library reports failures as errors, and a responder that has read the first message knows the
  static key of its peer.\<close>

definition reported :: "'a result \<Rightarrow> bool" where
  "reported r \<longleftrightarrow> (\<forall>e. r = Inl e \<longrightarrow> (\<exists>m. e = Err m))"

definition noise_reports :: "'n noise_ops \<Rightarrow> bool" where
  "noise_reports N \<longleftrightarrow>
     (\<forall>ent b. reported (n_build_initiator N ent b) \<and> reported (n_build_responder N ent b)) \<and>
     (\<forall>s payload sz. reported (fst (n_write_message N s payload sz)) \<and> reported (fst (n_read_message N s payload sz))) \<and>
     (\<forall>s n. reported (n_into_transport_mode N s) \<and> reported (n_sending_nonce N s) \<and>
        reported (fst (n_set_receiving_nonce N s n))) \<and>
     (\<forall>s n k. reported (fst (n_set_psk N s n k))) \<and>
     (\<forall>ent b s msg sz payload s'. n_build_responder N ent b = Inr s \<and> n_read_message N s msg sz = (Inr payload, s') \<longrightarrow>
        n_get_remote_static N s' \<noteq> None)"

definition panics :: "wg_error \<Rightarrow> bool" where
  "panics e \<longleftrightarrow> (\<exists>x. e = Panicked x)"

definition peers_ok :: "'n noise_ops \<Rightarrow> ('n, 't4, 't6) state \<Rightarrow> bool" where
  "peers_ok N st \<longleftrightarrow> (\<forall>r. transport_inv N (heap st r))"

text \<open>\<open>m\<close> is the number of peers allocated so far, which no handler changes.\<close>

definition server_ok ::
  "('n, 't4, 't6) libs \<Rightarrow> ('t4 \<Rightarrow> 32 word \<times> nat \<Rightarrow> peer_ref option) \<Rightarrow> ('t6 \<Rightarrow> 128 word \<times> nat \<Rightarrow> peer_ref option) \<Rightarrow>
     u32 set \<Rightarrow> nat \<Rightarrow> ('n, 't4, 't6) server \<Rightarrow> bool" where
  "server_ok L V4 V6 D m sv \<longleftrightarrow>
     next_ref (shared_state sv) = m \<and> wf_state V4 V6 (shared_state sv) \<and> drawn D (shared_state sv) \<and>
     peers_ok (noise_lib L) (shared_state sv) \<and>
     (\<forall>msg \<in> set (channel sv). \<forall>r. message_ref msg = Some r \<longrightarrow> r < m) \<and>
     (\<forall>addr p. (addr, Transport p) \<notin> set (handshakes sv)) \<and>
     (\<forall>u addr. udp sv = Some u \<longrightarrow> Inr (addr, []) \<notin> set (ingress u))"

lemma server_okD:
  assumes "server_ok L V4 V6 D m sv"
  shows "next_ref (shared_state sv) = m" "wf_state V4 V6 (shared_state sv)" "drawn D (shared_state sv)"
    "transport_inv (noise_lib L) (peer_at sv r)" "msg \<in> set (channel sv) \<Longrightarrow> message_ref msg = Some r \<Longrightarrow> r < m"
    "(addr, hs) \<in> set (handshakes sv) \<Longrightarrow> hs \<noteq> Transport p"
    "udp sv = Some u \<Longrightarrow> Inr (addr, d) \<in> set (ingress u) \<Longrightarrow> d \<noteq> []"
  using assms by (auto simp: server_ok_def peers_ok_def peer_at_def)

text \<open>Steps outside the shared state and the queues.\<close>

lemma server_ok_simps [simp]:
  "server_ok L V4 V6 D m (sv\<lparr>timer := t\<rparr>) = server_ok L V4 V6 D m sv"
  "server_ok L V4 V6 D m (sv\<lparr>cookie := c\<rparr>) = server_ok L V4 V6 D m sv"
  "server_ok L V4 V6 D m (sv\<lparr>rate_limiter := rl\<rparr>) = server_ok L V4 V6 D m sv"
  "server_ok L V4 V6 D m (sv\<lparr>under_load_until := tm\<rparr>) = server_ok L V4 V6 D m sv"
  "server_ok L V4 V6 D m (sv\<lparr>tunnel_tx := tx\<rparr>) = server_ok L V4 V6 D m sv"
  by (simp_all add: server_ok_def)

lemma server_ok_udp:
  assumes "server_ok L V4 V6 D m sv"
  shows "server_ok L V4 V6 D m (sv\<lparr>udp := None, port := None\<rparr>)"
    "ingress u = [] \<Longrightarrow> server_ok L V4 V6 D m (sv\<lparr>udp := Some u, port := pn\<rparr>)"
    "udp sv = Some v \<Longrightarrow> ingress u = ingress v \<Longrightarrow> server_ok L V4 V6 D m (sv\<lparr>udp := Some u\<rparr>)"
  using assms by (simp_all add: server_ok_def)

lemma map_of_opt_delete: "map_of (delete_all (opt_list d) m) j = (if d = Some j then None else map_of m j)"
  by (cases d) auto

text \<open>A step that replaces the sessions of one peer and updates the index map.\<close>

lemma server_ok_replace:
  assumes ok: "server_ok L V4 V6 D m sv" and r: "r < m"
    and cfg: "config_of p' = config_of (peer_at sv r)" and dist: "distinct (get_mapped_indices p')"
    and inv: "transport_inv (noise_lib L) p'"
    and idx: "set (get_mapped_indices p') \<subseteq> set (get_mapped_indices (peer_at sv r)) \<union> new"
    and dead: "dead \<subseteq> set (get_mapped_indices (peer_at sv r))" "dead \<inter> set (get_mapped_indices p') = {}" "dead \<inter> new = {}"
    and fresh: "\<And>i q. i \<in> new \<Longrightarrow> q < m \<Longrightarrow> i \<notin> set (get_mapped_indices (peer_at sv q))"
    and im: "wf_map im" "\<And>j. map_of im j = (if j \<in> dead then None else if j \<in> new then Some r else map_of (index_map (shared_state sv)) j)"
  shows "server_ok L V4 V6 D m (sv\<lparr>shared_state := (shared_state sv)\<lparr>heap := (heap (shared_state sv))(r := p'), index_map := im\<rparr>\<rparr>)"
proof -
  have st: "next_ref (shared_state sv) = m" "wf_state V4 V6 (shared_state sv)" "drawn D (shared_state sv)"
    using server_okD [OF ok] by blast+
  from wf_replace_peer [OF st(2,3), of r p' new dead im] cfg dist idx dead fresh im r
  show ?thesis using ok inv by (simp add: server_ok_def peers_ok_def peer_at_def st(1))
qed

text \<open>Every operation with the ledger of \<open>session_op\<close> keeps the invariant, once the index map has followed.\<close>

context session_op
begin

lemma server_ok_step:
  assumes ok: "server_ok L V4 V6 D m sv" and r: "r < m" and step: "op (peer_at sv r) = (Inr x, p')"
    and inv: "transport_inv (noise_lib L) p'" and new: "distinct fresh"
    "\<And>i q. i \<in> set fresh \<Longrightarrow> q < m \<Longrightarrow> i \<notin> set (get_mapped_indices (peer_at sv q))"
    and dead: "set (dead x) \<subseteq> set (get_mapped_indices (peer_at sv r))"
    and im: "wf_map im"
      "\<And>j. map_of im j = (if j \<in> set (dead x) then None else if j \<in> set fresh then Some r else map_of (index_map (shared_state sv)) j)"
  shows "server_ok L V4 V6 D m (sv\<lparr>shared_state := (shared_state sv)\<lparr>heap := (heap (shared_state sv))(r := p'), index_map := im\<rparr>\<rparr>)"
proof -
  have dist: "distinct (get_mapped_indices (peer_at sv r))"
    using sessions_okD(1) [OF wf_stateD(3) [OF server_okD(2) [OF ok]]] r server_okD(1) [OF ok] by (simp add: peer_at_def)
  have disj: "set fresh \<inter> set (get_mapped_indices (peer_at sv r)) = {}" using new(2) r by blast
  note idx = ok_set [OF step dist disj new(1)]
  show ?thesis
    by (rule server_ok_replace [OF ok r config_kept [OF step] idx(1) inv _ dead _ _ new(2) im]) (use idx(2) disj dead in auto)
qed

lemma server_ok_fail:
  assumes ok: "server_ok L V4 V6 D m sv" and r: "r < m" and step: "op (peer_at sv r) = (Inl e, p')"
    and inv: "transport_inv (noise_lib L) p'"
  shows "server_ok L V4 V6 D m (set_peer r p' sv)"
proof -
  have "distinct (get_mapped_indices (peer_at sv r))"
    using sessions_okD(1) [OF wf_stateD(3) [OF server_okD(2) [OF ok]]] r server_okD(1) [OF ok] by (simp add: peer_at_def)
  note idx = err_set [OF step this]
  have "wf_map (index_map (shared_state sv))" by (rule maps_okD(2) [OF wf_stateD(1) [OF server_okD(2) [OF ok]]])
  from server_ok_replace [OF ok r config_kept [OF step] idx(1) inv, of "{}" "{}", OF _ _ _ _ _ this] idx(2)
  show ?thesis by (simp add: set_peer_def put_peer_def)
qed

end

lemma replace_next_dead: "replace_next s p = (d, p') \<Longrightarrow> set (opt_list d) \<subseteq> set (get_mapped_indices p)"
  by (auto simp: replace_next_def Let_def get_mapped_indices_def index_of_def split: if_splits option.splits)

lemma initiate_dead:
  assumes "initiate_new_session N C k i ent t w p = (Inr (ep, packet, d), p')"
  shows "set (opt_list d) \<subseteq> set (get_mapped_indices p)"
  using assms
proof (cases rule: initiate_cases)
  case (ok noise0 ep msg noise mac1 mac2 cookie d)
  then show ?thesis using replace_next_dead [OF ok(5)] by (simp add: get_mapped_indices_def)
qed simp

lemma complete_dead:
  assumes "complete_incoming_handshake N C addr i h t p = (Inr (packet, d), p')"
  shows "set (opt_list d) \<subseteq> set (get_mapped_indices p)"
  using assms
proof (cases rule: complete_cases)
  case (ok noise1 msg noise2 mac1 mac2 cookie noise3 d q)
  then show ?thesis using replace_next_dead [OF ok(6)] by (simp add: get_mapped_indices_def)
qed simp

text \<open>Operations that draw no index take the dead ones from the peer.\<close>

lemma ledger_dead:
  "mset xs + mset dead = mset ys + mset [] \<Longrightarrow> set dead \<subseteq> set ys"
  by (metis add.right_neutral mset.simps(1) mset_subset_eq_add_right set_mset_mono set_mset_mset)

section \<open>The handlers keep it\<close>

definition lawful_libs ::
  "('n, 't4, 't6) libs \<Rightarrow> ('t4 \<Rightarrow> 32 word \<times> nat \<Rightarrow> peer_ref option) \<Rightarrow> ('t6 \<Rightarrow> 128 word \<times> nat \<Rightarrow> peer_ref option) \<Rightarrow> bool" where
  "lawful_libs L V4 V6 \<longleftrightarrow>
     lawful_noise (noise_lib L) \<and> noise_reports (noise_lib L) \<and> lawful_router (router_lib L) V4 V6"

lemma panics_simps [simp]: "\<not> panics (Err s)" "panics (Panicked x)" "\<not> panics Looping"
  by (simp_all add: panics_def)

lemma reportedD: "reported r \<Longrightarrow> r = Inl e \<Longrightarrow> \<not> panics e"
  by (auto simp: reported_def)

lemma noise_reportsD:
  assumes "noise_reports N"
  shows "build_initiator N ent k pk k2 = Inl e \<Longrightarrow> \<not> panics e" "build_responder N ent k = Inl e \<Longrightarrow> \<not> panics e"
    "n_write_message N s payload sz = (Inl e, s') \<Longrightarrow> \<not> panics e" "n_read_message N s payload sz = (Inl e, s') \<Longrightarrow> \<not> panics e"
    "n_into_transport_mode N s = Inl e \<Longrightarrow> \<not> panics e" "n_sending_nonce N s = Inl e \<Longrightarrow> \<not> panics e"
    "n_set_receiving_nonce N s n = (Inl e, s') \<Longrightarrow> \<not> panics e" "n_set_psk N s j kk = (Inl e, s') \<Longrightarrow> \<not> panics e"
  using assms unfolding noise_reports_def build_initiator_def build_responder_def by (metis reportedD fst_conv)+

lemma ar_update_reports: "ar_update a n = (Inl e, a') \<Longrightarrow> \<not> panics e"
  by (auto simp: ar_update_def split: sum.splits if_splits)

lemma peer_ops_report:
  assumes N: "noise_reports N"
  shows "initiate_new_session N C k i ent t w p = (Inl e, p') \<Longrightarrow> \<not> panics e"
    "process_incoming_handshake N k ent ini = Inl e \<Longrightarrow> \<not> panics e"
    "complete_incoming_handshake N C addr i h t p = (Inl e, p') \<Longrightarrow> \<not> panics e"
    "process_incoming_handshake_response N addr resp t p = (Inl e, p') \<Longrightarrow> \<not> panics e"
    "handle_incoming_transport N P addr tr t p = (Inl e, p') \<Longrightarrow> \<not> panics e"
    "handle_outgoing_transport N pk t p = (Inl e, p') \<Longrightarrow> \<not> panics e"
  by (auto simp: initiate_new_session_def process_incoming_handshake_def complete_incoming_handshake_def
      get_response_packet_def into_transport_mode_def process_incoming_handshake_response_def handle_incoming_transport_def
      receive_in_session_def handle_outgoing_transport_def Let_def
      split: sum.splits option.splits prod.splits if_splits
      dest: noise_reportsD [OF N] ar_update_reports)

abbreviation keeps_ok where
  "keeps_ok L V4 V6 D m r \<equiv> holds (server_ok L V4 V6 D m) (\<lambda>e. \<not> panics e) r"

lemma index_map_ok: "server_ok L V4 V6 D m sv \<Longrightarrow> wf_map (index_map (shared_state sv))"
  using maps_okD(2) wf_stateD(1) server_okD(2) by blast

lemma lawful_libsD:
  assumes "lawful_libs L V4 V6"
  shows "lawful_noise (noise_lib L)" "noise_reports (noise_lib L)" "lawful_router (router_lib L) V4 V6"
  using assms by (simp_all add: lawful_libs_def)

lemma unused_fresh:
  assumes "server_ok L V4 V6 (set (e_draws E)) m sv" and "unused_index (e_draws E) (shared_state sv) = Inr i" and "q < m"
  shows "i \<notin> set (get_mapped_indices (peer_at sv q))"
  using drawn_unused(1) [OF server_okD(3) [OF assms(1)] assms(2)] assms(3) server_okD(1) [OF assms(1)]
  by (simp add: peer_at_def)

lemma open_session_ok:
  assumes libs: "lawful_libs L V4 V6" and ok: "server_ok L V4 V6 (set (e_draws E)) m sv" and r: "r < m"
    and i: "unused_index (e_draws E) (shared_state sv) = Inr i"
  shows "keeps_ok L V4 V6 (set (e_draws E)) m (open_session L E key i r sv)"
proof -
  let ?op = "initiate_new_session (noise_lib L) (crypto_lib L) key i (e_entropy E) (e_now E) (e_wall E)"
  obtain x p' where step: "?op (peer_at sv r) = (x, p')" by fastforce
  have inv: "transport_inv (noise_lib L) p'"
    using transport_inv_step [OF lawful_libsD(1) [OF libs] server_okD(4) [OF ok], of "crypto_lib L" "ip_lib L"
        "InitiateSession key i (e_entropy E) (e_now E) (e_wall E)" r] step by simp
  show ?thesis
  proof (cases x)
    case (Inl e)
    then show ?thesis
      using initiate.server_ok_fail [OF ok r step [unfolded Inl] inv] peer_ops_report(1) [OF lawful_libsD(2) [OF libs] step [unfolded Inl]]
      by (simp add: open_session_def peer_call_def step)
  next
    case (Inr y)
    obtain ep packet d where y: "y = (ep, packet, d)" by (cases y)
    have "server_ok L V4 V6 (set (e_draws E)) m
      (sv\<lparr>shared_state := (shared_state sv)\<lparr>heap := (heap (shared_state sv))(r := p'),
         index_map := delete_all (opt_list d) (AList.update i r (index_map (shared_state sv)))\<rparr>\<rparr>)"
      by (rule initiate.server_ok_step [OF ok r step [unfolded Inr y] inv])
        (use initiate_dead [OF step [unfolded Inr y]] unused_fresh [OF ok i] index_map_ok [OF ok] in auto)
    then show ?thesis
      by (simp add: open_session_def peer_call_def step Inr y set_peer_def put_peer_def insert_index_def remove_indices_def)
  qed
qed

lemma accept_session_ok:
  assumes libs: "lawful_libs L V4 V6" and ok: "server_ok L V4 V6 (set (e_draws E)) m sv" and r: "r < m"
    and i: "unused_index (e_draws E) (shared_state sv) = Inr i"
  shows "keeps_ok L V4 V6 (set (e_draws E)) m (accept_session L E addr i h r sv)"
proof -
  let ?op = "complete_incoming_handshake (noise_lib L) (crypto_lib L) addr i h (e_now E)"
  obtain x p' where step: "?op (peer_at sv r) = (x, p')" by fastforce
  have inv: "transport_inv (noise_lib L) p'"
    using transport_inv_step [OF lawful_libsD(1) [OF libs] server_okD(4) [OF ok], of "crypto_lib L" "ip_lib L"
        "CompleteHandshake addr i h (e_now E)" r] step by simp
  show ?thesis
  proof (cases x)
    case (Inl e)
    then show ?thesis
      using complete.server_ok_fail [OF ok r step [unfolded Inl] inv] peer_ops_report(3) [OF lawful_libsD(2) [OF libs] step [unfolded Inl]]
      by (simp add: accept_session_def peer_call_def step)
  next
    case (Inr y)
    obtain packet d where y: "y = (packet, d)" by (cases y)
    note dead = complete_dead [OF step [unfolded Inr y]]
    have "server_ok L V4 V6 (set (e_draws E)) m
      (sv\<lparr>shared_state := (shared_state sv)\<lparr>heap := (heap (shared_state sv))(r := p'),
         index_map := AList.update i r (delete_all (opt_list d) (index_map (shared_state sv)))\<rparr>\<rparr>)"
      by (rule complete.server_ok_step [OF ok r step [unfolded Inr y] inv])
        (use dead unused_fresh [OF ok i] unused_fresh [OF ok i r] index_map_ok [OF ok] in \<open>auto simp: map_of_update\<close>)
    then show ?thesis
      by (simp add: accept_session_def peer_call_def step Inr y set_peer_def put_peer_def insert_index_def remove_indices_def)
  qed
qed

lemma complete_session_ok:
  assumes libs: "lawful_libs L V4 V6" and ok: "server_ok L V4 V6 D m sv" and r: "r < m"
  shows "keeps_ok L V4 V6 D m (complete_session L E addr resp r sv)"
proof -
  let ?op = "process_incoming_handshake_response (noise_lib L) addr resp (e_now E)"
  obtain x p' where step: "?op (peer_at sv r) = (x, p')" by fastforce
  have inv: "transport_inv (noise_lib L) p'"
    using transport_inv_step [OF lawful_libsD(1) [OF libs] server_okD(4) [OF ok], of "crypto_lib L" "ip_lib L"
        "HandshakeResponse addr resp (e_now E)" r] step by simp
  show ?thesis
  proof (cases x)
    case (Inl e)
    then show ?thesis
      using response.server_ok_fail [OF ok r step [unfolded Inl] inv] peer_ops_report(4) [OF lawful_libsD(2) [OF libs] step [unfolded Inl]]
      by (simp add: complete_session_def peer_call_def step)
  next
    case (Inr d)
    note dead = ledger_dead [OF response.ok_ledger [OF step [unfolded Inr]]]
    have "server_ok L V4 V6 D m
      (sv\<lparr>shared_state := (shared_state sv)\<lparr>heap := (heap (shared_state sv))(r := p'),
         index_map := delete_all (opt_list d) (index_map (shared_state sv))\<rparr>\<rparr>)"
      by (rule response.server_ok_step [OF ok r step [unfolded Inr] inv]) (use dead index_map_ok [OF ok] in auto)
    then show ?thesis
      by (simp add: complete_session_def peer_call_def step Inr set_peer_def put_peer_def remove_indices_def)
  qed
qed

lemma receive_transport_ok:
  assumes libs: "lawful_libs L V4 V6" and ok: "server_ok L V4 V6 D m sv" and r: "r < m"
  shows "keeps_ok L V4 V6 D m (receive_transport L E addr tr r sv)"
proof -
  let ?op = "handle_incoming_transport (noise_lib L) (ip_lib L) addr tr (e_now E)"
  obtain x p' where step: "?op (peer_at sv r) = (x, p')" by fastforce
  have inv: "transport_inv (noise_lib L) p'"
    by (rule transport_inv_incoming [OF lawful_libsD(1) [OF libs] server_okD(4) [OF ok] step])
  show ?thesis
  proof (cases x)
    case (Inl e)
    then show ?thesis
      using incoming.server_ok_fail [OF ok r step [unfolded Inl] inv] peer_ops_report(5) [OF lawful_libsD(2) [OF libs] step [unfolded Inl]]
      by (simp add: receive_transport_def peer_call_def step)
  next
    case (Inr y)
    obtain raw tn where y: "y = (raw, tn)" by (cases y)
    note dead = ledger_dead [OF incoming.ok_ledger [OF step [unfolded Inr y]]]
    have "server_ok L V4 V6 D m
      (sv\<lparr>shared_state := (shared_state sv)\<lparr>heap := (heap (shared_state sv))(r := p'),
         index_map := delete_all (transition_dead tn) (index_map (shared_state sv))\<rparr>\<rparr>)"
      by (rule incoming.server_ok_step [OF ok r step [unfolded Inr y] inv]) (use dead index_map_ok [OF ok] in auto)
    then show ?thesis
      by (cases tn) (simp_all add: transition_dead_def receive_transport_def peer_call_def step Inr y set_peer_def put_peer_def remove_indices_def)
  qed
qed

text \<open>Changes of a peer that leave its indices alone.\<close>

lemma server_ok_note:
  assumes ok: "server_ok L V4 V6 D m sv" and cfg: "config_of p' = config_of (peer_at sv r)"
    and idx: "mset (get_mapped_indices p') = mset (get_mapped_indices (peer_at sv r))"
    and inv: "transport_inv (noise_lib L) p'"
  shows "server_ok L V4 V6 D m (set_peer r p' sv)"
proof -
  define st where "st = shared_state sv"
  define st' where "st' = put_peer r p' st"
  have same: "pub_key (info (heap st' q)) = pub_key (info (heap st q))"
    "allowed_ips (info (heap st' q)) = allowed_ips (info (heap st q))"
    "set (get_mapped_indices (heap st' q)) = set (get_mapped_indices (heap st q))"
    "distinct (get_mapped_indices (heap st' q)) = distinct (get_mapped_indices (heap st q))" for q
    using cfg mset_eq_setD [OF idx] mset_eq_imp_distinct_iff [OF idx]
    by (simp_all add: st'_def put_peer_def config_of_def peer_at_def st_def)
  have rest: "next_ref st' = next_ref st" "pubkey_map st' = pubkey_map st" "index_map st' = index_map st"
    "router st' = router st" "interface_info st' = interface_info st"
    by (simp_all add: st'_def put_peer_def)
  have "wf_state V4 V6 st' = wf_state V4 V6 st" "drawn D st' = drawn D st"
    unfolding wf_state_def maps_ok_def routes_ok_def sessions_ok_def drawn_def configured_def same rest by (rule refl)+
  then show ?thesis using ok inv
    by (auto simp: server_ok_def peers_ok_def set_peer_def st'_def [symmetric] st_def [symmetric] rest)
      (simp add: st'_def put_peer_def)
qed

lemma outgoing_indices:
  assumes "handle_outgoing_transport N packet t p = (x, p')"
  shows "mset (get_mapped_indices p') = mset (get_mapped_indices p)"
proof -
  have current: "session_at Current p = Some s" if "current (sessions p) = Some s" for s
    using that by (simp add: session_at_def)
  from assms show ?thesis by (cases rule: outgoing_cases) (simp_all add: put_session_indices [OF current])
qed

lemma outgoing_ok:
  assumes libs: "lawful_libs L V4 V6" and ok: "server_ok L V4 V6 D m sv"
  shows "keeps_ok L V4 V6 D m (peer_call r (handle_outgoing_transport (noise_lib L) packet t) sv)"
proof -
  obtain x p' where step: "handle_outgoing_transport (noise_lib L) packet t (peer_at sv r) = (x, p')" by fastforce
  have inv: "transport_inv (noise_lib L) p'"
    using transport_inv_step [OF lawful_libsD(1) [OF libs] server_okD(4) [OF ok], of "crypto_lib L" "ip_lib L"
        "OutgoingTransport packet t" r] step by simp
  have idx: "mset (get_mapped_indices p') = mset (get_mapped_indices (peer_at sv r))"
    using step by (rule outgoing_indices)
  show ?thesis
    using server_ok_note [OF ok outgoing.config_kept [OF step] idx inv] peer_ops_report(6) [OF lawful_libsD(2) [OF libs], of packet t "peer_at sv r"] step
    by (auto simp: peer_call_def holds_def)
qed

lemma wipe_ok:
  assumes ok: "server_ok L V4 V6 D m sv" and r: "r < m"
  shows "server_ok L V4 V6 D m (wipe_sessions_of r sv)"
proof -
  obtain ix p' where step: "wipe_sessions (peer_at sv r) = (Inr ix, p')" by (auto simp: wipe_sessions_def split_beta)
  have inv: "transport_inv (noise_lib L) p'"
    using step by (auto simp: wipe_sessions_def wipe_def sessions_default_def split_beta intro!: transport_invI)
  note dead = ledger_dead [OF wiping.ok_ledger [OF step]]
  have "server_ok L V4 V6 D m
      (sv\<lparr>shared_state := (shared_state sv)\<lparr>heap := (heap (shared_state sv))(r := p'),
         index_map := delete_all ix (index_map (shared_state sv))\<rparr>\<rparr>)"
    by (rule wiping.server_ok_step [OF ok r step inv]) (use dead index_map_ok [OF ok] in auto)
  then show ?thesis using step
    by (auto simp: wipe_sessions_of_def wipe_sessions_def split_beta set_peer_def put_peer_def remove_indices_def Let_def)
qed

text \<open>References that the handlers get from the state are allocated.\<close>

lemma route_configured:
  assumes wf: "wf_state V4 V6 st" and R: "lawful_router R V4 V6" and ip: "get_peer_from_ip R (router st) ip = Some r"
  shows "configured st r"
  using get_peer_covered [OF R ip] routes_okD(2) [OF wf_stateD(2) [OF wf]] by metis

lemma known_refs:
  assumes libs: "lawful_libs L V4 V6" and ok: "server_ok L V4 V6 D m sv"
  shows "map_of (index_map (shared_state sv)) i = Some r \<Longrightarrow> r < m"
    "map_of (pubkey_map (shared_state sv)) k = Some r \<Longrightarrow> r < m"
    "route_to_peer P (router_lib L) (router (shared_state sv)) packet = Some r \<Longrightarrow> r < m"
    "upgrade r sv \<Longrightarrow> r < m"
proof -
  note m = wf_stateD(1) [OF server_okD(2) [OF ok]]
  have index: "r < m" if "map_of (index_map (shared_state sv)) i = Some r" for i r
    using maps_okD(5) [OF m that] server_okD(1) [OF ok] by simp
  have key: "r < m" if "map_of (pubkey_map (shared_state sv)) k = Some r" for k r
    using maps_okD(3) [OF m that] server_okD(1) [OF ok] by simp
  show "map_of (index_map (shared_state sv)) i = Some r \<Longrightarrow> r < m" by (rule index)
  show "map_of (pubkey_map (shared_state sv)) k = Some r \<Longrightarrow> r < m" by (rule key)
  show "r < m" if route: "route_to_peer P (router_lib L) (router (shared_state sv)) packet = Some r"
  proof -
    obtain ip where "get_peer_from_ip (router_lib L) (router (shared_state sv)) ip = Some r"
      using route by (auto simp: route_to_peer_def split: option.splits)
    then have "configured (shared_state sv) r"
      by (rule route_configured [OF server_okD(2) [OF ok] lawful_libsD(3) [OF libs]])
    then show ?thesis using key by (auto simp: configured_def)
  qed
  show "r < m" if "upgrade r sv"
    using that wf_map_ran [OF maps_okD(1) [OF m]] wf_map_ran [OF maps_okD(2) [OF m]] index key server_okD(5) [OF ok]
    unfolding upgrade_def by (metis (no_types, lifting) imageE)
qed

lemma their_pubkey_reports:
  assumes "noise_reports N" and "process_incoming_handshake N k ent ini = Inr h"
  shows "\<exists>key. their_pubkey N h = Inr key"
  using assms unfolding noise_reports_def
  by (auto simp: process_incoming_handshake_def build_responder_def their_pubkey_def
      split: sum.splits prod.splits if_splits option.splits)

lemma initiation_reports:
  assumes "lawful_libs L V4 V6"
  shows "process_incoming_handshake (noise_lib L) k ent ini = Inl e \<Longrightarrow> \<not> panics e"
    "process_incoming_handshake (noise_lib L) k ent ini = Inr h \<Longrightarrow> their_pubkey (noise_lib L) h \<noteq> Inl e"
  using peer_ops_report(2) their_pubkey_reports lawful_libsD(2) [OF assms] by (blast, fastforce)

lemma reply_reports: "generate_reply C v i mac1 src sec non t = (Inl e, v') \<Longrightarrow> \<not> panics e"
  by (auto simp: generate_reply_def xchacha_encrypt_def Let_def split: if_splits prod.splits sum.splits)

lemma consume_reports: "consume_cookie_reply C reply t p = (Inl e, p') \<Longrightarrow> \<not> panics e"
  by (auto simp: consume_cookie_reply_def consume_reply_def xchacha_decrypt_def
      split: if_splits prod.splits sum.splits option.splits)

lemma holds_under: "A \<Longrightarrow> holds I ok r \<Longrightarrow> holds (\<lambda>s. A \<and> I s) ok r"
  by (simp add: holds_def)

lemma server_ok_peer_note:
  assumes "server_ok L V4 V6 D m sv" and "sessions p = sessions (peer_at sv r)" and "info p = info (peer_at sv r)"
  shows "server_ok L V4 V6 D m (set_peer r p sv)"
  using assms transport_inv_cong [OF assms(2)] server_okD(4) [OF assms(1)]
  by (intro server_ok_note) (simp_all add: config_of_def get_mapped_indices_def)

lemma nonce_reports:
  assumes "server_ok L V4 V6 D m sv"
  shows "needs_new_handshake (noise_lib L) b t (peer_at sv r) \<noteq> Inl e" "ready_for_transport (noise_lib L) t (peer_at sv r) \<noteq> Inl e"
  using no_panic [OF server_okD(4) [OF assms, of r], of b t] by auto

lemma server_ok_enqueue:
  "server_ok L V4 V6 D m sv \<Longrightarrow> (\<And>q. msg \<noteq> Transport q) \<Longrightarrow>
     server_ok L V4 V6 D m (sv\<lparr>handshakes := handshakes sv @ [(a, msg)]\<rparr>)"
  by (auto simp: server_ok_def)

interpretation safe: server_full_contract L E
  "\<lambda>sv. lawful_libs L V4 V6 \<and> server_ok L V4 V6 (set (e_draws E)) m sv" "\<lambda>e. \<not> panics e" "\<lambda>r. r < m"
proof (unfold_locales, goal_cases)
  case (8 sv p r)
  then show ?case using server_ok_peer_note by blast
next
  case (30 sv msg a)
  then show ?case using server_ok_enqueue by blast
qed (auto simp: nonce_reports dest: known_refs initiation_reports reply_reports consume_reports
      intro!: holds_under outgoing_ok open_session_ok accept_session_ok complete_session_ok receive_transport_ok wipe_ok
      server_ok_udp)

end
