(* ===== verification/DeviceRun.thy ===== *)
theory DeviceRun
  imports ServerSafety
begin

text \<open>
  Runs of the whole device, \<open>Interface::start\<close> of \<open>src/interface/mod.rs\<close>: the reactor polls the peer
  server, the configuration service applies commands to the shared state and tells the server, timers
  expire, and datagrams and packets of the local tunnel arrive, in any order.
\<close>

section \<open>The device\<close>

datatype event =
    PollServer
  | Configure "update_event list"
  | TimerExpires timer_handle instant
  | DatagramArrives "io_error + peer_server_message"
  | TunnelReads bytes
  | SocketWrites
  | SocketFails

definition interface_start :: "('n, 't4, 't6) libs \<Rightarrow> instant \<Rightarrow> ('n, 't4, 't6) server" where
  "interface_start L t = peer_server_new (crypto_lib L) (state_default (crypto_lib L) (router_lib L)) t"

text \<open>The task that writes to the socket takes the first queued datagram, or ends at an error. Datagrams
  arrive while a socket is open. A read of the tunnel that does not decode ends the joined futures.\<close>

fun device_step ::
  "('n, 't4, 't6) libs \<Rightarrow> (bytes \<Rightarrow> bytes) \<Rightarrow> (nat \<Rightarrow> env) \<Rightarrow> event \<Rightarrow> nat \<Rightarrow> ('n, 't4, 't6) server \<Rightarrow>
     outcome \<times> nat \<times> ('n, 't4, 't6) server" where
  "device_step L G env PollServer n sv = server_poll L env n sv"
| "device_step L G env (Configure items) n sv =
     (let (_, msgs, st) = apply_updates (crypto_lib L) (router_lib L) G items (shared_state sv)
      in (Pending, n, sv\<lparr>shared_state := st, channel := channel sv @ msgs\<rparr>))"
| "device_step L G env (TimerExpires h t) n sv = (Pending, n, sv\<lparr>timer := timer_expire h t (timer sv)\<rparr>)"
| "device_step L G env (DatagramArrives d) n sv =
     (Pending, n, sv\<lparr>udp := map_option (\<lambda>u. u\<lparr>ingress := ingress u @ [d]\<rparr>) (udp sv)\<rparr>)"
| "device_step L G env (TunnelReads buf) n sv =
     (case utun_decode buf of
        Inr packet \<Rightarrow> (Pending, n, sv\<lparr>outgoing := outgoing sv @ [packet]\<rparr>)
      | Inl (Err _) \<Rightarrow> (Ended ''utun read error'', n, sv)
      | Inl e \<Rightarrow> (Stopped e, n, sv))"
| "device_step L G env SocketWrites n sv =
     (Pending, n, sv\<lparr>udp := map_option (\<lambda>u. u\<lparr>egress := tl (egress u)\<rparr>) (udp sv)\<rparr>)"
| "device_step L G env SocketFails n sv =
     (Pending, n, sv\<lparr>udp := map_option (\<lambda>u. u\<lparr>egress_open := False\<rparr>) (udp sv)\<rparr>)"

text \<open>A run ends when the peer server does.\<close>

fun device_run ::
  "('n, 't4, 't6) libs \<Rightarrow> (bytes \<Rightarrow> bytes) \<Rightarrow> (nat \<Rightarrow> env) \<Rightarrow> event list \<Rightarrow> nat \<Rightarrow> ('n, 't4, 't6) server \<Rightarrow>
     outcome \<times> nat \<times> ('n, 't4, 't6) server" where
  "device_run L G env [] n sv = (Pending, n, sv)"
| "device_run L G env (ev # evs) n sv = proceed (device_step L G env ev n sv) (\<lambda>n sv. device_run L G env evs n sv)"

section \<open>Where receiver indices come from\<close>

lemma unused_index_drawn: "unused_index ds st = Inr i \<Longrightarrow> i \<in> set ds"
  by (induction ds) (auto split: if_splits)

context session_op
begin

lemma indices_origin:
  assumes "op p = (x, p')"
  shows "set (get_mapped_indices p') \<subseteq> set (get_mapped_indices p) \<union> set fresh"
proof (cases x)
  case (Inl e)
  then show ?thesis using set_mset_mono [OF err_ledger, of p e p'] assms by auto
next
  case (Inr y)
  then have "mset (get_mapped_indices p') + mset (dead y) = mset (get_mapped_indices p) + mset fresh"
    using ok_ledger assms by blast
  then have "mset (get_mapped_indices p') \<subseteq># mset (get_mapped_indices p @ fresh)"
    by (metis mset_append mset_subset_eq_add_left)
  then show ?thesis using set_mset_mono by fastforce
qed

end

definition indices_from :: "u32 set \<Rightarrow> ('n, 't4, 't6) server \<Rightarrow> bool" where
  "indices_from A sv \<longleftrightarrow> (\<forall>r. set (get_mapped_indices (peer_at sv r)) \<subseteq> A)"

lemma indices_from_set_peer: "indices_from A sv \<Longrightarrow> set (get_mapped_indices p) \<subseteq> A \<Longrightarrow> indices_from A (set_peer r p sv)"
  by (simp add: indices_from_def)

lemma indices_from_call:
  assumes "indices_from A sv" and "\<And>x p'. op (peer_at sv r) = (x, p') \<Longrightarrow> set (get_mapped_indices p') \<subseteq> A"
  shows "indices_from A (snd (peer_call r op sv))"
  using assms by (auto simp: peer_call_def split: prod.split intro!: indices_from_set_peer)

lemma peer_at_simps [simp]:
  "peer_at (insert_index i r sv) q = peer_at sv q" "peer_at (remove_indices ix sv) q = peer_at sv q"
  by (simp_all add: peer_at_def insert_index_def remove_indices_def)

lemma indices_from_cong: "indices_from A sv \<Longrightarrow> shared_state sv' = shared_state sv \<Longrightarrow> indices_from A sv'"
  by (simp add: indices_from_def peer_at_def)

lemma indices_from_simps [simp]:
  "indices_from A (insert_index i r sv) = indices_from A sv" "indices_from A (remove_indices ix sv) = indices_from A sv"
  by (simp_all add: indices_from_def)

lemma indices_fromD: "indices_from A sv \<Longrightarrow> set (get_mapped_indices (peer_at sv r)) \<subseteq> A"
  by (simp add: indices_from_def)

text \<open>An operation of one peer, followed by updates of the index map.\<close>

lemma indices_from_block:
  assumes "indices_from A sv" and "\<And>x p'. op (peer_at sv r) = (x, p') \<Longrightarrow> set (get_mapped_indices p') \<subseteq> A"
    and "\<And>x s. indices_from A s \<Longrightarrow> indices_from A (snd (k x s))"
  shows "indices_from A (snd (and_then (peer_call r op sv) k))"
  using indices_from_call [OF assms(1,2)] assms(3) by (rule and_then_inv)

interpretation origin: server_full_contract L E "indices_from (A \<union> set (e_draws E))" "\<lambda>_. True" "\<lambda>_. True"
proof (unfold_locales, goal_cases)
  case (8 sv p r)
  then show ?case by (auto simp: indices_from_def get_mapped_indices_def)
next
  case (9 sv r packet t)
  then show ?case using indices_fromD [OF 9] outgoing.indices_origin
    by (fastforce simp: holds_def intro!: indices_from_call)
next
  case (10 sv r i key)
  then show ?case unfolding open_session_def holds_def
    using indices_fromD [OF 10(1)] initiate.indices_origin unused_index_drawn
    by (auto simp: split_beta Let_def intro!: indices_from_block) fastforce
next
  case (11 sv r i addr h)
  then show ?case unfolding accept_session_def holds_def
    using indices_fromD [OF 11(1)] complete.indices_origin unused_index_drawn
    by (auto simp: split_beta Let_def intro!: indices_from_block) fastforce
next
  case (12 sv r addr resp)
  then show ?case unfolding complete_session_def holds_def
    using indices_fromD [OF 12(1)] response.indices_origin
    by (auto intro!: indices_from_block) fastforce
next
  case (13 sv r addr tr)
  then show ?case unfolding receive_transport_def holds_def
    using indices_fromD [OF 13(1)] incoming.indices_origin
    by (auto simp: split_beta split: session_transition.split intro!: indices_from_block) fastforce
next
  case (14 sv r)
  then show ?case
    by (auto simp: wipe_sessions_of_def wipe_def sessions_default_def split_beta Let_def get_mapped_indices_def index_of_def
        intro!: indices_from_set_peer)
next
  case (30 sv msg a)
  then show ?case by (simp add: indices_from_def peer_at_def)
qed (simp_all add: indices_from_def peer_at_def)

section \<open>The invariant along a run\<close>

text \<open>\<open>n\<close> counts the calls of handlers. No value is drawn in two of them.\<close>

definition used :: "(nat \<Rightarrow> env) \<Rightarrow> nat \<Rightarrow> u32 set" where
  "used env n = (\<Union>k < n. set (e_draws (env k)))"

definition disjoint_draws :: "(nat \<Rightarrow> env) \<Rightarrow> bool" where
  "disjoint_draws env \<longleftrightarrow> (\<forall>i j. i \<noteq> j \<longrightarrow> set (e_draws (env i)) \<inter> set (e_draws (env j)) = {})"

lemma used_Suc: "used env (Suc n) = used env n \<union> set (e_draws (env n))"
  unfolding used_def lessThan_Suc by blast

lemma used_disjoint:
  assumes "disjoint_draws env"
  shows "used env n \<inter> set (e_draws (env n)) = {}"
proof -
  have "set (e_draws (env k)) \<inter> set (e_draws (env n)) = {}" if "k < n" for k
    using assms that unfolding disjoint_draws_def by (metis less_irrefl)
  then show ?thesis unfolding used_def by blast
qed

definition run_ok ::
  "('n, 't4, 't6) libs \<Rightarrow> ('t4 \<Rightarrow> 32 word \<times> nat \<Rightarrow> peer_ref option) \<Rightarrow> ('t6 \<Rightarrow> 128 word \<times> nat \<Rightarrow> peer_ref option) \<Rightarrow>
     (nat \<Rightarrow> env) \<Rightarrow> nat \<Rightarrow> ('n, 't4, 't6) server \<Rightarrow> bool" where
  "run_ok L V4 V6 env n sv \<longleftrightarrow>
     server_ok L V4 V6 {} (next_ref (shared_state sv)) sv \<and> indices_from (used env n) sv"

lemma server_ok_draws: "server_ok L V4 V6 D m sv \<Longrightarrow> server_ok L V4 V6 {} (next_ref (shared_state sv)) sv"
  by (auto simp: server_ok_def drawn_def)

lemma run_ok_enter:
  assumes "run_ok L V4 V6 env n sv" and "disjoint_draws env"
  shows "server_ok L V4 V6 (set (e_draws (env n))) (next_ref (shared_state sv)) sv"
    "indices_from (used env n \<union> set (e_draws (env n))) sv"
proof -
  have ok: "server_ok L V4 V6 {} (next_ref (shared_state sv)) sv" and ix: "indices_from (used env n) sv"
    using assms(1) by (simp_all add: run_ok_def)
  have "drawn (set (e_draws (env n))) (shared_state sv)"
    unfolding drawn_def using indices_fromD [OF ix] used_disjoint [OF assms(2), of n]
    by (auto simp: peer_at_def)
  with ok show "server_ok L V4 V6 (set (e_draws (env n))) (next_ref (shared_state sv)) sv" by (simp add: server_ok_def)
  show "indices_from (used env n \<union> set (e_draws (env n))) sv" using ix by (auto simp: indices_from_def)
qed

text \<open>A handler that satisfies both contracts keeps the invariant of the run.\<close>

lemma run_ok_call:
  assumes "run_ok L V4 V6 env n sv" and "disjoint_draws env" and libs: "lawful_libs L V4 V6"
    and "\<And>m. lawful_libs L V4 V6 \<and> server_ok L V4 V6 (set (e_draws (env n))) m sv \<Longrightarrow>
      holds (\<lambda>sv. lawful_libs L V4 V6 \<and> server_ok L V4 V6 (set (e_draws (env n))) m sv) ok r"
    and "indices_from (used env n \<union> set (e_draws (env n))) sv \<Longrightarrow>
      holds (indices_from (used env n \<union> set (e_draws (env n)))) ok' r"
  shows "run_ok L V4 V6 env (Suc n) (snd r)" "fst r = Inl e \<Longrightarrow> ok e"
proof -
  note enter = run_ok_enter [OF assms(1,2)]
  from assms(4) [of "next_ref (shared_state sv)"] libs enter(1)
  have h: "server_ok L V4 V6 (set (e_draws (env n))) (next_ref (shared_state sv)) (snd r)" "fst r = Inl e \<Longrightarrow> ok e"
    by (simp_all add: holds_def)
  from h(2) show "fst r = Inl e \<Longrightarrow> ok e" .
  from h(1) assms(5) [OF enter(2)] show "run_ok L V4 V6 env (Suc n) (snd r)"
    by (auto simp: run_ok_def used_Suc holds_def intro: server_ok_draws)
qed

lemma run_ok_cong:
  assumes "run_ok L V4 V6 env n sv" and "shared_state sv' = shared_state sv"
    and "set (channel sv') \<subseteq> set (channel sv)" and "set (handshakes sv') \<subseteq> set (handshakes sv)"
    and "\<And>v addr. udp sv' = Some v \<Longrightarrow> Inr (addr, []) \<in> set (ingress v) \<Longrightarrow> \<exists>u. udp sv = Some u \<and> Inr (addr, []) \<in> set (ingress u)"
  shows "run_ok L V4 V6 env n sv'"
  using assms indices_from_cong [of "used env n" sv sv'] unfolding run_ok_def server_ok_def by auto blast

text \<open>The outcomes a run may have: it may end, or wait for draws, but it does not panic, unless a datagram
  is empty or a bind fails.\<close>

definition bind_fails :: "(nat \<Rightarrow> env) \<Rightarrow> bool" where
  "bind_fails env \<longleftrightarrow> (\<exists>k c e. os_socket (e_os (env k)) c = Inl e)"

definition no_panic_outcome :: "outcome \<Rightarrow> bool" where
  "no_panic_outcome out \<longleftrightarrow> (\<forall>x. out \<noteq> Stopped (Panicked x))"

lemma outcome_of_ok: "(\<And>e. fst r = Inl e \<Longrightarrow> \<not> panics e) \<Longrightarrow> no_panic_outcome (outcome_of (fst r))"
  by (cases "fst r") (auto simp: no_panic_outcome_def outcome_of_def panics_def split: wg_error.splits)

definition fine ::
  "('n, 't4, 't6) libs \<Rightarrow> ('t4 \<Rightarrow> 32 word \<times> nat \<Rightarrow> peer_ref option) \<Rightarrow> ('t6 \<Rightarrow> 128 word \<times> nat \<Rightarrow> peer_ref option) \<Rightarrow>
     (nat \<Rightarrow> env) \<Rightarrow> outcome \<times> nat \<times> ('n, 't4, 't6) server \<Rightarrow> bool" where
  "fine L V4 V6 env x \<longleftrightarrow> no_panic_outcome (fst x) \<and> run_ok L V4 V6 env (fst (snd x)) (snd (snd x))"

lemma fine_Pending [simp]: "fine L V4 V6 env (Pending, n, sv) \<longleftrightarrow> run_ok L V4 V6 env n sv"
  by (simp add: fine_def no_panic_outcome_def)

lemma fine_proceed:
  assumes "fine L V4 V6 env x" and "\<And>n sv. x = (Pending, n, sv) \<Longrightarrow> run_ok L V4 V6 env n sv \<Longrightarrow> fine L V4 V6 env (k n sv)"
  shows "fine L V4 V6 env (proceed x k)"
  using assms by (cases x) (auto simp: proceed_def fine_def)

lemma fine_call:
  assumes "run_ok L V4 V6 env (Suc n) (snd r)" and "\<And>e. fst r = Inl e \<Longrightarrow> \<not> panics e"
  shows "fine L V4 V6 env (call n r)"
  using assms outcome_of_ok [of r] by (simp add: fine_def call_def)

section \<open>Polling keeps the invariant\<close>

lemma rebind_succeeds:
  assumes "\<And>c. os_socket (e_os E) c = Inr ()"
  shows "fst (rebind E sv) = Inr ()"
proof -
  have "socket_calls (e_os E) cs = Inr ()" for cs by (induction cs) (simp_all add: assms)
  then show ?thesis
    by (auto simp: rebind_def Let_def udp_bind_def local_addrs_def set_mark_def assms io_result_def split: prod.split)
qed

lemma unwrap_result_ok: "fst r = Inr x \<Longrightarrow> fst (unwrap_result r) = Inr x"
  by (cases r) (auto simp: unwrap_result_def)

lemma binds: "\<not> bind_fails env \<Longrightarrow> os_socket (e_os (env k)) c = Inr ()"
  by (cases "os_socket (e_os (env k)) c") (auto simp: bind_fails_def)

definition good_world ::
  "('n, 't4, 't6) libs \<Rightarrow> ('t4 \<Rightarrow> 32 word \<times> nat \<Rightarrow> peer_ref option) \<Rightarrow> ('t6 \<Rightarrow> 128 word \<times> nat \<Rightarrow> peer_ref option) \<Rightarrow>
     (nat \<Rightarrow> env) \<Rightarrow> bool" where
  "good_world L V4 V6 env \<longleftrightarrow> lawful_libs L V4 V6 \<and> disjoint_draws env \<and> \<not> bind_fails env"

lemma calls_fine:
  assumes w: "good_world L V4 V6 env" and ok: "run_ok L V4 V6 env n sv"
  shows "fine L V4 V6 env (call n (handle_incoming_event L (env n) event sv))"
    "fine L V4 V6 env (call n (handle_timer L (env n) message sv))"
    "fine L V4 V6 env (call n (handle_egress_packet L (env n) packet sv))"
    "dgram \<noteq> [] \<Longrightarrow> fine L V4 V6 env (call n (handle_ingress_packet L (env n) addr dgram sv))"
    "(\<forall>p. hs \<noteq> Transport p) \<Longrightarrow> fine L V4 V6 env (call n (handle_ingress_handshake L (env n) addr hs sv))"
proof -
  have libs: "lawful_libs L V4 V6" and draws: "disjoint_draws env" and bind: "\<And>k c. os_socket (e_os (env k)) c = Inr ()"
    using w binds by (auto simp: good_world_def)
  note call = run_ok_call [OF ok draws libs]
  show "fine L V4 V6 env (call n (handle_incoming_event L (env n) event sv))"
  proof (rule fine_call)
    show "run_ok L V4 V6 env (Suc n) (snd (handle_incoming_event L (env n) event sv))"
      by (rule call(1) [OF safe.handle_incoming_event origin.handle_incoming_event])
    fix e
    assume e: "fst (handle_incoming_event L (env n) event sv) = Inl e"
    have "\<not> panics e \<or> event = NewPrivateKey \<and> udp sv = None \<and> e = Panicked UnwrapFailed"
      by (rule call(2) [OF safe.handle_incoming_event origin.handle_incoming_event e])
    moreover have "fst (rebind (env n) (sv\<lparr>cookie := c\<rparr>)) = Inr ()" for c
      by (rule rebind_succeeds) (rule bind)
    then have "fst (handle_incoming_event L (env n) NewPrivateKey sv) \<noteq> Inl e"
      by (auto simp: handle_incoming_event_def Let_def unwrap_result_ok [where x = "()"] split: option.splits)
    ultimately show "\<not> panics e" using e by auto
  qed
  show "fine L V4 V6 env (call n (handle_timer L (env n) message sv))"
    using call [OF safe.handle_timer origin.handle_timer] by (intro fine_call)
  show "fine L V4 V6 env (call n (handle_egress_packet L (env n) packet sv))"
    using call [OF safe.handle_egress_packet origin.handle_egress_packet] by (intro fine_call)
  show "fine L V4 V6 env (call n (handle_ingress_packet L (env n) addr dgram sv))" if "dgram \<noteq> []"
  proof (rule fine_call)
    show "run_ok L V4 V6 env (Suc n) (snd (handle_ingress_packet L (env n) addr dgram sv))"
      by (rule call(1) [OF safe.handle_ingress_packet origin.handle_ingress_packet])
    fix e
    assume "fst (handle_ingress_packet L (env n) addr dgram sv) = Inl e"
    from call(2) [OF safe.handle_ingress_packet origin.handle_ingress_packet this] that show "\<not> panics e" by simp
  qed
  show "fine L V4 V6 env (call n (handle_ingress_handshake L (env n) addr hs sv))" if "\<forall>p. hs \<noteq> Transport p"
    using call [OF safe.handle_ingress_handshake origin.handle_ingress_handshake, OF _ that _ that] by (intro fine_call)
qed

lemma poll_channel_fine:
  assumes "good_world L V4 V6 env" and "run_ok L V4 V6 env n sv"
  shows "fine L V4 V6 env (poll_channel L env n sv)"
  using assms
proof (induction L env n sv rule: poll_channel.induct)
  case (1 L env n sv)
  show ?case
  proof (cases "channel sv")
    case Nil
    then show ?thesis using 1 by (subst poll_channel.simps) simp
  next
    case (Cons event rest)
    have "run_ok L V4 V6 env n (sv\<lparr>channel := rest\<rparr>)" by (rule run_ok_cong [OF 1(3)]) (auto simp: Cons)
    from calls_fine(1) [OF 1(2) this] show ?thesis
      using 1(1) [OF Cons] 1(2) by (subst poll_channel.simps) (auto simp: Cons intro!: fine_proceed)
  qed
qed

lemma poll_timer_fine:
  assumes "good_world L V4 V6 env" and "run_ok L V4 V6 env n sv"
  shows "fine L V4 V6 env (poll_timer L env n sv)"
  using assms
proof (induction L env n sv rule: poll_timer.induct)
  case (1 L env n sv)
  obtain message t where t: "timer_poll (timer sv) = (message, t)" by fastforce
  have ok: "run_ok L V4 V6 env n (sv\<lparr>timer := t\<rparr>)" by (rule run_ok_cong [OF 1(3)]) auto
  show ?case
  proof (cases message)
    case None
    then show ?thesis using ok by (subst poll_timer.simps) (simp add: t)
  next
    case (Some m)
    from calls_fine(2) [OF 1(2) ok] show ?thesis
      using 1(1) [OF t [symmetric, unfolded Some]] 1(2) by (subst poll_timer.simps) (auto simp: t Some intro!: fine_proceed)
  qed
qed

lemma poll_outgoing_fine:
  assumes "good_world L V4 V6 env" and "run_ok L V4 V6 env n sv"
  shows "fine L V4 V6 env (poll_outgoing L env n sv)"
  using assms
proof (induction L env n sv rule: poll_outgoing.induct)
  case (1 L env n sv)
  show ?case
  proof (cases "outgoing sv")
    case Nil
    then show ?thesis using 1 by (subst poll_outgoing.simps) simp
  next
    case (Cons packet rest)
    have "run_ok L V4 V6 env n (sv\<lparr>outgoing := rest\<rparr>)" by (rule run_ok_cong [OF 1(3)]) auto
    from calls_fine(3) [OF 1(2) this] show ?thesis
      using 1(1) [OF Cons] 1(2) by (subst poll_outgoing.simps) (auto simp: Cons intro!: fine_proceed)
  qed
qed

lemma poll_ingress_fine:
  assumes "good_world L V4 V6 env" and "run_ok L V4 V6 env n sv" and "udp sv \<noteq> None"
  shows "fine L V4 V6 env (poll_ingress L env n sv)"
  using assms
proof (induction L env n sv rule: poll_ingress.induct)
  case (1 L env n sv)
  obtain u where u: "udp sv = Some u" using 1(4) by auto
  show ?case
  proof (cases "ingress u")
    case Nil
    then show ?thesis using 1 by (subst poll_ingress.simps) (simp add: u)
  next
    case (Cons d rest)
    let ?sv = "sv\<lparr>udp := Some (u\<lparr>ingress := rest\<rparr>)\<rparr>"
    have ok: "run_ok L V4 V6 env n ?sv" by (rule run_ok_cong [OF 1(3)]) (auto simp: u Cons)
    show ?thesis
    proof (cases d)
      case (Inl e)
      then show ?thesis using ok by (subst poll_ingress.simps) (simp add: u Cons fine_def no_panic_outcome_def)
    next
      case (Inr x)
      obtain addr packet where d: "d = Inr (addr, packet)" using Inr by (cases x) simp
      have "packet \<noteq> []" using 1(3) u Cons d unfolding run_ok_def by (auto simp: server_ok_def)
      note fine = calls_fine(4) [OF 1(2) ok this, of addr]
      have udp: "udp sv' \<noteq> None" if "call n (handle_ingress_packet L (env n) addr packet ?sv) = (b, n', sv')" for b n' sv'
        using calls_keep_queues(4) [OF that] by auto
      show ?thesis using fine 1(1) [OF u Cons d refl] 1(2) udp
        by (subst poll_ingress.simps) (auto simp: u Cons d intro!: fine_proceed)
    qed
  qed
qed

lemma poll_handshake_fine:
  assumes "good_world L V4 V6 env" and "run_ok L V4 V6 env n sv"
  shows "fine L V4 V6 env (poll_handshake L env n sv)"
proof (cases "handshakes sv")
  case Nil
  then show ?thesis using assms by (simp add: poll_handshake_def)
next
  case (Cons x rest)
  obtain addr message where x: "x = (addr, message)" by (cases x)
  have ok: "run_ok L V4 V6 env n (sv\<lparr>handshakes := rest\<rparr>)" by (rule run_ok_cong [OF assms(2)]) (auto simp: Cons)
  have "\<forall>p. message \<noteq> Transport p" using assms(2) Cons x unfolding run_ok_def by (auto simp: server_ok_def)
  from calls_fine(5) [OF assms(1) ok this] show ?thesis by (simp add: poll_handshake_def Cons x)
qed

lemma server_poll_fine:
  assumes "good_world L V4 V6 env" and "run_ok L V4 V6 env n sv"
  shows "fine L V4 V6 env (server_poll L env n sv)"
  unfolding server_poll_def using assms
  by (auto intro!: fine_proceed poll_channel_fine poll_timer_fine poll_ingress_fine poll_outgoing_fine poll_handshake_fine)

section \<open>Configuration and the other events keep the invariant\<close>

text \<open>A configuration update leaves every peer its sessions, and a new peer has none.\<close>

lemma handle_update_peers:
  assumes "handle_update C R G event st = (r, st')" and "maps_ok st"
  shows "sessions (heap st' q) = sessions (heap st q) \<or> sessions (heap st' q) = sessions_default"
    and "next_ref st \<le> next_ref st'"
    and "r = Inr (Some msg) \<Longrightarrow> message_ref msg = Some x \<Longrightarrow> x < next_ref st'"
  using assms(1) maps_okD(3) [OF assms(2)]
  by (auto simp: handle_update_def update_private_key_def clear_peer_refs_def update_existing_peer_def add_new_peer_def
      alloc_peer_def put_peer_def peer_new_def message_ref_def Let_def
      split: update_event.splits if_splits option.splits prod.splits)

lemma apply_updates_peers:
  assumes "wf_state V4 V6 st" and "lawful_router R V4 V6" and "list_all valid_update items"
    and "apply_updates C R G items st = (reply, msgs, st')"
  shows "(\<forall>q. sessions (heap st' q) = sessions (heap st q) \<or> sessions (heap st' q) = sessions_default) \<and>
    next_ref st \<le> next_ref st' \<and> (\<forall>msg \<in> set msgs. \<forall>x. message_ref msg = Some x \<longrightarrow> x < next_ref st')"
  using assms(1,3,4)
proof (induction items arbitrary: st reply msgs)
  case Nil
  then show ?case by auto
next
  case (Cons item items)
  obtain r st1 where step: "handle_update C R G item st = (r, st1)" by fastforce
  note peers = handle_update_peers [OF step wf_stateD(1) [OF Cons.prems(1)]]
  have wf1: "wf_state V4 V6 st1"
    using wf_handle_update [OF Cons.prems(1) assms(2), of item C G] Cons.prems(2) step by simp
  show ?case
  proof (cases r)
    case (Inl e)
    then show ?thesis using Cons.prems(3) peers(1,2) by (simp add: step)
  next
    case (Inr msg)
    obtain reply' msgs' where rest: "apply_updates C R G items st1 = (reply', msgs', st')" and msgs: "msgs = opt_list msg @ msgs'"
      using Cons.prems(3) by (auto simp: step Inr split: prod.splits)
    from Cons.IH [OF wf1 _ rest] Cons.prems(2)
    have ih: "\<forall>q. sessions (heap st' q) = sessions (heap st1 q) \<or> sessions (heap st' q) = sessions_default"
      "next_ref st1 \<le> next_ref st'" "\<forall>msg \<in> set msgs'. \<forall>x. message_ref msg = Some x \<longrightarrow> x < next_ref st'" by auto
    have "x < next_ref st'" if "mg \<in> set (opt_list msg)" "message_ref mg = Some x" for mg x
      using that peers(3) [of mg x] ih(2) Inr by (cases msg) auto
    then show ?thesis using ih peers(1,2) msgs by (metis (no_types, lifting) Un_iff order_trans set_append)
  qed
qed

definition valid_event :: "event \<Rightarrow> bool" where
  "valid_event ev =
     (case ev of
        Configure items \<Rightarrow> list_all valid_update items
      | DatagramArrives d \<Rightarrow> (\<forall>addr. d \<noteq> Inr (addr, []))
      | TunnelReads buf \<Rightarrow> 4 < length buf
      | _ \<Rightarrow> True)"

lemma configure_run_ok:
  assumes libs: "lawful_libs L V4 V6" and ok: "run_ok L V4 V6 env n sv" and valid: "list_all valid_update items"
    and step: "apply_updates (crypto_lib L) (router_lib L) G items (shared_state sv) = (reply, msgs, st)"
  shows "run_ok L V4 V6 env n (sv\<lparr>shared_state := st, channel := channel sv @ msgs\<rparr>)"
proof -
  have s: "server_ok L V4 V6 {} (next_ref (shared_state sv)) sv" and ix: "indices_from (used env n) sv"
    using ok by (simp_all add: run_ok_def)
  note wf = server_okD(2) [OF s]
  note peers = apply_updates_peers [OF wf lawful_libsD(3) [OF libs] valid step]
  have "transport_inv (noise_lib L) (heap st q) \<and> set (get_mapped_indices (heap st q)) \<subseteq> used env n" for q
  proof (cases "sessions (heap st q) = sessions_default")
    case True
    then show ?thesis by (auto simp: get_mapped_indices_def sessions_default_def index_of_def intro!: transport_invI)
  next
    case False
    then have "sessions (heap st q) = sessions (peer_at sv q)" using peers by (auto simp: peer_at_def)
    then show ?thesis using transport_inv_cong [of "heap st q" "peer_at sv q"] server_okD(4) [OF s, of q] indices_fromD [OF ix, of q]
      by (simp add: get_mapped_indices_def)
  qed
  moreover have "wf_state V4 V6 st"
    using wf_apply_updates [OF wf lawful_libsD(3) [OF libs] valid, of "crypto_lib L" G] step by simp
  ultimately show ?thesis using s peers
    unfolding run_ok_def server_ok_def
    by (auto simp: drawn_def peers_ok_def indices_from_def peer_at_def dest: less_le_trans)
qed

lemma device_step_fine:
  assumes w: "good_world L V4 V6 env" and ok: "run_ok L V4 V6 env n sv" and valid: "valid_event ev"
  shows "fine L V4 V6 env (device_step L G env ev n sv)"
proof (cases ev)
  case PollServer
  then show ?thesis using server_poll_fine [OF w ok] by simp
next
  case (Configure items)
  then show ?thesis using configure_run_ok [OF _ ok] w valid
    by (auto simp: valid_event_def good_world_def split: prod.split)
next
  case (TunnelReads buf)
  have "run_ok L V4 V6 env n (sv\<lparr>outgoing := q\<rparr>)" for q by (rule run_ok_cong [OF ok]) auto
  then show ?thesis using valid ok
    by (auto simp: TunnelReads valid_event_def utun_decode_def fine_def no_panic_outcome_def split: sum.splits wg_error.splits if_splits)
qed (use valid in \<open>auto simp: valid_event_def intro!: run_ok_cong [OF ok]\<close>)

lemma device_run_fine:
  assumes "good_world L V4 V6 env" and "run_ok L V4 V6 env n sv" and "list_all valid_event evs"
  shows "fine L V4 V6 env (device_run L G env evs n sv)"
  using assms(2,3)
  by (induction evs arbitrary: n sv) (auto intro!: fine_proceed device_step_fine [OF assms(1)])

lemma run_ok_start:
  assumes "lawful_libs L V4 V6"
  shows "run_ok L V4 V6 env 0 (interface_start L t)"
  using wf_state_default [OF lawful_libsD(3) [OF assms]] transport_inv_new
  by (auto simp: run_ok_def server_ok_def interface_start_def peer_server_new_def drawn_def peers_ok_def indices_from_def
      peer_at_def state_default_def peer_new_def get_mapped_indices_def sessions_default_def index_of_def)

section \<open>Instances of the parameters\<close>

definition test_libs :: "(clear_session, ((32 word \<times> nat) \<times> peer_ref) list, ((128 word \<times> nat) \<times> peer_ref) list) libs" where
  "test_libs =
     \<lparr>noise_lib = clear_noise, crypto_lib = test_crypto, ip_lib = \<lparr>ipv4_new = \<lambda>_. None, ipv6_new = \<lambda>_. None\<rparr>,
      router_lib = alist_router\<rparr>"

definition test_env :: "nat \<Rightarrow> env" where
  "test_env n =
     \<lparr>e_now = n, e_wall = n, e_entropy = n, e_draws = (if n < 100 then [of_nat n] else []),
      e_secret = replicate 16 0, e_nonce = replicate 24 0, e_os = test_os, e_tunnel_open = True\<rparr>"

lemma noise_reports_clear: "noise_reports clear_noise"
  by (auto simp: noise_reports_def reported_def clear_defs split: phase.splits if_splits)

lemma lawful_test_libs: "lawful_libs test_libs map_of map_of"
  by (simp add: lawful_libs_def test_libs_def lawful_clear_noise noise_reports_clear lawful_alist_router)

lemma good_test_world: "good_world test_libs map_of map_of test_env"
proof -
  have "(of_nat i :: u32) \<noteq> of_nat j" if "i < 100" "j < 100" "i \<noteq> j" for i j :: nat
    using that by (simp add: word_unat_eq_iff unat_of_nat take_bit_nat_eq_self)
  then have "disjoint_draws test_env" by (auto simp: disjoint_draws_def test_env_def)
  then show ?thesis by (simp add: good_world_def lawful_test_libs bind_fails_def test_env_def test_os_def)
qed

end
