(* ===== verification/ConfigService.thy ===== *)
theory ConfigService
  imports Config DeviceRun
begin

text \<open>
  The connections of the configuration socket, \<open>ConfigurationService::new\<close> of
  \<open>src/interface/config.rs\<close>: every connection is a framed stream over \<open>ConfigurationCodec\<close>, whose commands
  are handled one by one on the shared state and answered on the same connection. The framing of
  \<open>tokio-io\<close> is reduced to its documented contract: the bytes of a read are appended to the buffer, the
  decoder is called until it asks for more, and an error of the decoder ends the connection.
\<close>

section \<open>A connection\<close>

text \<open>The bytes read and not yet decoded, the encoded replies, and whether the connection is still served.\<close>

record connection =
  conn_buf :: bytes
  conn_out :: bytes
  conn_open :: bool

definition conn_new :: connection where
  "conn_new = \<lparr>conn_buf = [], conn_out = [], conn_open = True\<rparr>"

lemma config_decode_Some:
  assumes "config_decode H buf = (Inr (Some c), rest)"
  obtains blob after where "from_utf8 buf = Some (blob @ [newline, newline] @ after)" "rest = drop (length blob + 1) buf"
proof -
  from assms obtain utf8 blob after where "from_utf8 buf = Some utf8" "split_blank_line utf8 = Some (blob, after)"
    "rest = drop (length blob + 1) buf"
    by (auto simp: config_decode_def split: option.splits sum.splits)
  then show thesis using split_blank_line_Some by (intro that) auto
qed

lemma config_decode_shrinks: "config_decode H buf = (Inr (Some c), rest) \<Longrightarrow> length rest < length buf"
  by (erule config_decode_Some) (auto simp: from_utf8_def str_of_bytes_def dest!: arg_cong [where f = length] split: if_splits)

text \<open>\<open>sink.send_all(stream.and_then(...))\<close>: each decoded command is handled on the shared state, its messages
  go to the peer server, and its reply is encoded. The result lists the commands that were served.\<close>

function conn_serve ::
  "('n, 't4, 't6) libs \<Rightarrow> hex_ops \<Rightarrow> (bytes \<Rightarrow> bytes) \<Rightarrow> env \<Rightarrow> connection \<Rightarrow> ('n, 't4, 't6) server \<Rightarrow>
     unit result \<times> command list \<times> connection \<times> ('n, 't4, 't6) server" where
  "conn_serve L H G E c sv =
     (case config_decode H (conn_buf c) of
        (Inl e, buf) \<Rightarrow> (Inl e, [], c\<lparr>conn_buf := buf\<rparr>, sv)
      | (Inr None, buf) \<Rightarrow> (Inr (), [], c\<lparr>conn_buf := buf\<rparr>, sv)
      | (Inr (Some command), buf) \<Rightarrow>
          (let (reply, msgs, st) =
                 handle_command H (crypto_lib L) (router_lib L) G (e_now E) (e_wall E) command (shared_state sv);
               (r, commands, c, sv) = conn_serve L H G E
                 (c\<lparr>conn_buf := buf, conn_out := config_encode reply (conn_out c)\<rparr>)
                 (sv\<lparr>shared_state := st, channel := channel sv @ msgs\<rparr>)
           in (r, command # commands, c, sv)))"
  by pat_completeness auto

termination
  by (relation "measure (\<lambda>(L, H, G, E, c, sv). length (conn_buf c))") (auto dest!: sym [of _ "config_decode _ _"] config_decode_shrinks)

declare conn_serve.simps [simp del]

text \<open>A read of \<open>chunk\<close>. An error of the decoder ends the connection, a panic the process.\<close>

definition conn_receive ::
  "('n, 't4, 't6) libs \<Rightarrow> hex_ops \<Rightarrow> (bytes \<Rightarrow> bytes) \<Rightarrow> env \<Rightarrow> bytes \<Rightarrow> connection \<Rightarrow> ('n, 't4, 't6) server \<Rightarrow>
     outcome \<times> command list \<times> connection \<times> ('n, 't4, 't6) server" where
  "conn_receive L H G E chunk c sv =
     (if \<not> conn_open c then (Pending, [], c, sv)
      else
        let (r, commands, c, sv) = conn_serve L H G E (c\<lparr>conn_buf := conn_buf c @ chunk\<rparr>) sv
        in (outcome_of r, commands, c\<lparr>conn_open := \<not> isl r\<rparr>, sv))"

text \<open>The reads of one connection with nothing in between; read \<open>n\<close> sees the environment \<open>env n\<close>.\<close>

fun conn_reads ::
  "('n, 't4, 't6) libs \<Rightarrow> hex_ops \<Rightarrow> (bytes \<Rightarrow> bytes) \<Rightarrow> (nat \<Rightarrow> env) \<Rightarrow> bytes list \<Rightarrow> nat \<Rightarrow> connection \<Rightarrow>
     ('n, 't4, 't6) server \<Rightarrow> outcome \<times> command list \<times> connection \<times> ('n, 't4, 't6) server" where
  "conn_reads L H G env [] n c sv = (Pending, [], c, sv)"
| "conn_reads L H G env (chunk # chunks) n c sv =
     (let (out, commands, c, sv) = conn_receive L H G (env n) chunk c sv in
      if out = Pending then
        (let (out, commands', c, sv) = conn_reads L H G env chunks (Suc n) c sv in (out, commands @ commands', c, sv))
      else (out, commands, c, sv))"

section \<open>At most one command\<close>

lemma conn_serve_newline:
  assumes "conn_buf c = 10 # buf"
  shows "\<exists>r. conn_serve L H G E c sv = (r, [], c, sv) \<and> (r = Inr () \<or> r = Inl (Panicked UnwrapFailed))"
  using decode_after_newline [of H buf] assms by (subst conn_serve.simps) auto

text \<open>After a command the buffer starts with the second newline of its empty line.\<close>

lemma conn_serve_cases:
  obtains (none) r where "conn_serve L H G E c sv = (r, [], c\<lparr>conn_buf := snd (config_decode H (conn_buf c))\<rparr>, sv)"
      "case r of Inr _ \<Rightarrow> config_decode H (conn_buf c) = (Inr None, conn_buf c) | Inl e \<Rightarrow> fst (config_decode H (conn_buf c)) = Inl e"
  | (one) r command buf reply msgs st where "config_decode H (conn_buf c) = (Inr (Some command), 10 # buf)"
      "handle_command H (crypto_lib L) (router_lib L) G (e_now E) (e_wall E) command (shared_state sv) = (reply, msgs, st)"
      "conn_serve L H G E c sv =
         (r, [command], c\<lparr>conn_buf := 10 # buf, conn_out := config_encode reply (conn_out c)\<rparr>,
          sv\<lparr>shared_state := st, channel := channel sv @ msgs\<rparr>)"
      "r = Inr () \<and> config_decode H (10 # buf) = (Inr None, 10 # buf) \<or>
       r = Inl (Panicked UnwrapFailed) \<and> config_decode H (10 # buf) = (Inl (Panicked UnwrapFailed), 10 # buf)"
proof -
  obtain d rest where d: "config_decode H (conn_buf c) = (d, rest)" by fastforce
  consider e where "d = Inl e" | "d = Inr None" | command where "d = Inr (Some command)" by (cases d; cases "projr d") auto
  then show thesis
  proof cases
    case 1
    with d show ?thesis by (intro none [of "Inl e"]) (simp_all add: conn_serve.simps [of _ _ _ _ c])
  next
    case 2
    moreover have "rest = conn_buf c"
      using d 2 by (auto simp: config_decode_def map_result_def split: option.splits sum.splits)
    ultimately show ?thesis using d by (intro none [of "Inr ()"]) (simp_all add: conn_serve.simps [of _ _ _ _ c])
  next
    case 3
    obtain buf where rest: "rest = 10 # buf" using decode_leaves_newline d 3 by blast
    obtain reply msgs st where h:
      "handle_command H (crypto_lib L) (router_lib L) G (e_now E) (e_wall E) command (shared_state sv) = (reply, msgs, st)"
      by (metis prod_cases3)
    let ?c = "c\<lparr>conn_buf := 10 # buf, conn_out := config_encode reply (conn_out c)\<rparr>"
    let ?sv = "sv\<lparr>shared_state := st, channel := channel sv @ msgs\<rparr>"
    obtain r where r: "conn_serve L H G E ?c ?sv = (r, [], ?c, ?sv)"
      "r = Inr () \<and> config_decode H (10 # buf) = (Inr None, 10 # buf) \<or>
       r = Inl (Panicked UnwrapFailed) \<and> config_decode H (10 # buf) = (Inl (Panicked UnwrapFailed), 10 # buf)"
      using decode_after_newline [of H buf] by (subst (asm) conn_serve.simps) (auto simp: conn_serve.simps [of _ _ _ _ ?c ?sv])
    show ?thesis using d 3 rest h r by (intro one) (simp_all add: conn_serve.simps [of _ _ _ _ c])
  qed
qed

text \<open>A read that gives a fresh connection one whole command.\<close>

lemma conn_receive_command:
  assumes "config_decode H buf = (Inr (Some command), [10])" and "conn_open c" and "conn_buf c @ chunk = buf"
    and "handle_command H (crypto_lib L) (router_lib L) G (e_now E) (e_wall E) command (shared_state sv) = (reply, msgs, st)"
  shows "conn_receive L H G E chunk c sv =
    (Pending, [command], c\<lparr>conn_buf := [10], conn_out := config_encode reply (conn_out c)\<rparr>,
     sv\<lparr>shared_state := st, channel := channel sv @ msgs\<rparr>)"
proof -
  have "config_decode H [10] = (Inr None, [10])"
    using from_utf8_ascii [of "[newline]"] by (simp add: config_decode_def as_bytes_def)
  then show ?thesis
    using assms
    by (simp add: conn_receive_def conn_serve.simps [of _ _ _ _ "c\<lparr>conn_buf := buf\<rparr>"]
        conn_serve.simps [of _ _ _ _ "c\<lparr>conn_buf := [10], conn_out := _\<rparr>"] outcome_of_def)
qed

section \<open>Commands that arrive in pieces\<close>

lemma split_blank_line_append:
  "split_blank_line s = Some (before, after) \<Longrightarrow> split_blank_line (s @ t) = Some (before, after @ t)"
  by (induction s arbitrary: before rule: split_blank_line.induct) (auto split: if_splits)

text \<open>The decoder waits as long as the text of a command is not complete.\<close>

lemma decode_prefix:
  assumes "items \<noteq> []" and "list_all plain_item items" and "as_bytes (lines_text items @ [newline]) = buf @ later" and "later \<noteq> []"
  shows "config_decode H buf = (Inr None, buf)"
proof -
  let ?text = "lines_text items @ [newline]"
  obtain blob where whole: "split_blank_line ?text = Some (blob, [])" using lines_text_split [OF assms(1,2), of "[]"] by metis
  have "take (length buf) (as_bytes ?text) = buf" unfolding assms(3) by simp
  then have buf: "buf = as_bytes (take (length buf) ?text)" unfolding as_bytes_def take_map by simp
  have short: "length buf < length ?text"
    using arg_cong [OF assms(3), of length] assms(4) by (cases later) (simp_all add: as_bytes_def)
  have "split_blank_line (take (length buf) ?text) = None"
  proof (rule ccontr)
    assume "split_blank_line (take (length buf) ?text) \<noteq> None"
    then obtain before after where "split_blank_line (take (length buf) ?text) = Some (before, after)" by auto
    from split_blank_line_append [OF this, of "drop (length buf) ?text"] whole have "drop (length buf) ?text = []"
      unfolding append_take_drop_id by simp
    with short show False by simp
  qed
  moreover have "ascii (take (length buf) ?text)"
    using ascii_lines_text [OF assms(2)] unfolding ascii_def by (auto simp: list_all_iff dest: in_set_takeD)
  ultimately have "config_decode H (as_bytes (take (length buf) ?text)) = (Inr None, as_bytes (take (length buf) ?text))"
    by (simp add: config_decode_def del: take_append)
  then show ?thesis unfolding buf [symmetric] .
qed

lemma conn_reads_append:
  "conn_reads L H G env (xs @ ys) n c sv =
     (let (out, commands, c, sv) = conn_reads L H G env xs n c sv in
      if out = Pending then
        (let (out, commands', c, sv) = conn_reads L H G env ys (n + length xs) c sv in (out, commands @ commands', c, sv))
      else (out, commands, c, sv))"
  by (induction xs arbitrary: n c sv) (auto simp: Let_def split: prod.split)

lemma conn_reads_waits:
  assumes "items \<noteq> []" and "list_all plain_item items" and "as_bytes (lines_text items @ [newline]) = conn_buf c @ concat chunks @ later"
    and "later \<noteq> []" and "conn_open c"
  shows "conn_reads L H G env chunks n c sv = (Pending, [], c\<lparr>conn_buf := conn_buf c @ concat chunks\<rparr>, sv)"
  using assms(3,5)
proof (induction chunks arbitrary: n c)
  case (Cons chunk chunks)
  let ?c = "c\<lparr>conn_buf := conn_buf c @ chunk\<rparr>"
  have "config_decode H (conn_buf ?c) = (Inr None, conn_buf ?c)"
    by (rule decode_prefix [OF assms(1,2), where later = "concat chunks @ later"]) (use Cons.prems(1) assms(4) in simp_all)
  then have "conn_receive L H G (env n) chunk c sv = (Pending, [], ?c, sv)"
    using Cons.prems(2) by (simp add: conn_receive_def conn_serve.simps [of _ _ _ _ ?c] outcome_of_def)
  then show ?case using Cons.IH [of ?c "Suc n"] Cons.prems by simp
qed simp

section \<open>Properties\<close>



end
