(* ===== verification/Lifecycle.thy ===== *)
theory Lifecycle
  imports Config PeerServer
begin

text \<open>
  Starting and ending the program: the socket file of the configuration service (\<open>get_path\<close>, \<open>new\<close>,
  \<open>poll\<close> and \<open>drop\<close> of \<open>ConfigurationService\<close> in \<open>src/interface/config.rs\<close>), the watcher that ends the
  device (\<open>src/interface/grim_reaper.rs\<close>) and the checks of \<open>src/main.rs\<close>.

  The file system is the parameter \<open>F\<close> with states \<open>'f\<close>. A path is the list of its components below the
  root, and the name of an interface is a single component other than \<open>.\<close> and \<open>..\<close>.
\<close>

section \<open>Paths\<close>

type_synonym path = "string list"

record 'f fs_ops =
  path_exists :: "path \<Rightarrow> 'f \<Rightarrow> bool"
  create_dir :: "path \<Rightarrow> 'f \<Rightarrow> unit result \<times> 'f"
  set_permissions :: "path \<Rightarrow> nat \<Rightarrow> 'f \<Rightarrow> unit result \<times> 'f"
  remove_file :: "path \<Rightarrow> 'f \<Rightarrow> unit result \<times> 'f"
  file_create :: "path \<Rightarrow> 'f \<Rightarrow> unit result \<times> 'f"
  write_all :: "path \<Rightarrow> bytes \<Rightarrow> 'f \<Rightarrow> unit result \<times> 'f"
  unix_bind :: "path \<Rightarrow> 'f \<Rightarrow> unit result \<times> 'f"

text \<open>\<open>Path::file_stem\<close>: the name up to its last dot, unless the dot is the first character.\<close>

definition file_stem :: "string \<Rightarrow> string" where
  "file_stem name =
     (let stem = rev (drop 1 (dropWhile (\<lambda>c. c \<noteq> CHR ''.'') (rev name)))
      in if CHR ''.'' \<notin> set name \<or> stem = [] then name else stem)"

definition get_run_path :: "'f fs_ops \<Rightarrow> 'f \<Rightarrow> path" where
  "get_run_path F f = (if path_exists F [''run''] f then [''run''] else [''var'', ''run''])"

text \<open>\<open>push\<close> of the interface name, then \<open>set_extension("sock")\<close>.\<close>

definition socket_path :: "path \<Rightarrow> string \<Rightarrow> path" where
  "socket_path dir interface_name = dir @ [file_stem interface_name @ ''.sock'']"

definition chmod :: "'f fs_ops \<Rightarrow> path \<Rightarrow> nat \<Rightarrow> 'f \<Rightarrow> unit result \<times> 'f" where
  "chmod F path perms f = set_permissions F path perms f"

definition get_path :: "'f fs_ops \<Rightarrow> string \<Rightarrow> 'f \<Rightarrow> path result \<times> 'f" where
  "get_path F interface_name f =
     (let dir = get_run_path F f @ [''wireguard''] in
      and_then (if path_exists F dir f then (Inr (), f) else create_dir F dir f) (\<lambda>_ f.
      and_then (chmod F dir 0x1C0 f) (\<lambda>_ f.
        let sock = socket_path dir interface_name in
        and_then (if path_exists F sock f then remove_file F sock f else (Inr (), f)) (\<lambda>_ f. (Inr sock, f)))))"

section \<open>The configuration service\<close>

record config_service =
  cs_interface_name :: string

text \<open>The file named by \<open>WG_TUN_NAME_FILE\<close>. The mode is the source's \<open>0400\<close>, a decimal literal.\<close>

definition write_tun_name :: "'f fs_ops \<Rightarrow> path option \<Rightarrow> string \<Rightarrow> 'f \<Rightarrow> unit result \<times> 'f" where
  "write_tun_name F name_file interface_name f =
     (case name_file of
        None \<Rightarrow> (Inr (), f)
      | Some name \<Rightarrow>
          and_then (file_create F name f) (\<lambda>_ f.
          and_then (set_permissions F name 400 f) (\<lambda>_ f.
          and_then (write_all F name (as_bytes interface_name) f) (\<lambda>_ f.
            write_all F name (as_bytes [newline]) f))))"

text \<open>\<open>spawned\<close> is the answer of \<open>GrimReaper::spawn\<close>, which starts a thread and registers signals.\<close>

definition config_service_new ::
  "'f fs_ops \<Rightarrow> path option \<Rightarrow> unit result \<Rightarrow> string \<Rightarrow> 'f \<Rightarrow> config_service result \<times> 'f" where
  "config_service_new F name_file spawned interface_name f =
     and_then (write_tun_name F name_file interface_name f) (\<lambda>_ f.
     and_then (unwrap_result (get_path F interface_name f)) (\<lambda>config_path f.
     and_then (unwrap_result (unix_bind F config_path f)) (\<lambda>_ f.
     and_then (unwrap_result (spawned, f)) (\<lambda>_ f.
       (Inr \<lparr>cs_interface_name = interface_name\<rparr>, f)))))"

definition config_service_poll :: "(unit + unit poll) \<Rightarrow> (unit + unit poll) \<Rightarrow> unit poll result" where
  "config_service_poll config_server reaper =
     (if config_server \<noteq> Inr NotReady then Inl (Err ''config_server broken'')
      else if reaper \<noteq> Inr NotReady then Inl (Err ''reaper triggered, closing ConfigurationService stream.'')
      else Inr NotReady)"

definition config_service_drop :: "'f fs_ops \<Rightarrow> config_service \<Rightarrow> 'f \<Rightarrow> 'f" where
  "config_service_drop F s f =
     (let sock = socket_path (get_run_path F f @ [''wireguard'']) (cs_interface_name s)
      in if path_exists F sock f then snd (remove_file F sock f) else f)"

section \<open>The watcher\<close>

datatype fs_event = Removed | OtherOp | WatchError

text \<open>The watching thread: it sends and panics when the socket is removed, and panics without sending at an
  error of the watcher. In both cases the receiver is no longer \<open>NotReady\<close>.\<close>

fun reaper_watch :: "fs_event list \<Rightarrow> unit + unit poll" where
  "reaper_watch [] = Inr NotReady"
| "reaper_watch (Removed # evs) = Inr (Ready ())"
| "reaper_watch (WatchError # evs) = Inl ()"
| "reaper_watch (OtherOp # evs) = reaper_watch evs"

text \<open>The thread up to its loop: without a watcher, or if the socket cannot be watched, it panics and the sender
  is dropped.\<close>

definition reaper_thread :: "unit result \<Rightarrow> unit result \<Rightarrow> fs_event list \<Rightarrow> unit + unit poll" where
  "reaper_thread watcher watching evs = (if isl watcher \<or> isl watching then Inl () else reaper_watch evs)"

definition reaper_poll :: "(unit + unit poll) \<Rightarrow> (unit + unit poll) \<Rightarrow> unit + unit poll" where
  "reaper_poll rx signal =
     (if rx \<noteq> Inr NotReady then Inl ()
      else if signal \<noteq> Inr NotReady then Inl ()
      else Inr NotReady)"

section \<open>The main program\<close>

text \<open>The options, which \<open>structopt\<close> parses. The program reads only \<open>foreground\<close> and \<open>interface\<close>.\<close>

record opt =
  opt_debug :: bool
  opt_foreground :: bool
  opt_interface :: string
  opt_output :: "string option"

text \<open>\<open>warning()\<close> ends the process unless the variable \<open>WG_I_PREFER_BUGGY_USERSPACE_TO_POLISHED_KMOD\<close> is 1.\<close>

definition warning_quits :: "string option \<Rightarrow> bool" where
  "warning_quits var = (case var of Some val \<Rightarrow> val \<noteq> ''1'' | None \<Rightarrow> True)"

text \<open>The arguments of its \<open>println!\<close>s.\<close>

definition warning_text :: "bool \<Rightarrow> bool \<Rightarrow> string list" where
  "warning_text linux should_quit =
     [[newline] @ ''WARNING WARNING WARNING WARNING WARNING WARNING WARNING'',
         ''W                                                     G'',
         ''W   This is alpha software. It will very likely not   G'',
         ''W   do what it is supposed to do, and things may go   G'',
         ''W   horribly wrong. You have been warned. Proceed     G'',
         ''W   at your own risk.                                 G''] @
     (if linux then
        [''W                                                     G'',
         ''W   Furthermore, you are running this software on a   G'',
         ''W   Linux kernel, which is probably unnecessary and   G'',
         ''W   foolish. This is because the Linux kernel has     G'',
         ''W   built-in first class support for WireGuard, and   G'',
         ''W   this support is much more refined than this       G'',
         ''W   program. For more information on installing the   G'',
         ''W   kernel module, please visit:                      G'',
         ''W           https://www.wireguard.com/install         G'']
      else []) @
     (if should_quit then
        [''W                                                     G'',
         ''W   If you still want to use this program, against    G'',
         ''W   the sage advice here, please first export this    G'',
         ''W   environment variable:                             G'',
         ''W   WG_I_PREFER_BUGGY_USERSPACE_TO_POLISHED_KMOD=1    G'']
      else []) @
     [''W                                                     G'',
         ''WARNING WARNING WARNING WARNING WARNING WARNING WARNING'' @ [newline]]"

text \<open>The format of a log line and its colours. The time as text and the coloured name of a level, which the crates
  \<open>chrono\<close> and \<open>fern\<close> make, are arguments.\<close>

datatype level = LError | LWarn | LInfo | LDebug | LTrace
datatype color = Magenta | BrightBlue | BrightYellow | BrightRed | DefaultColor

definition level_color :: "level \<Rightarrow> color" where
  "level_color l =
     (case l of LDebug \<Rightarrow> Magenta | LInfo \<Rightarrow> BrightBlue | LWarn \<Rightarrow> BrightYellow | LError \<Rightarrow> BrightRed | LTrace \<Rightarrow> DefaultColor)"

definition log_line :: "(color \<Rightarrow> level \<Rightarrow> string) \<Rightarrow> string \<Rightarrow> string \<Rightarrow> level \<Rightarrow> string \<Rightarrow> string" where
  "log_line paint now interface l message =
     (let pad = l = LWarn \<or> l = LInfo in
      now @ '' '' @ interface @ ''  '' @ paint (level_color l) l @ (if pad then '' '' else []) @ ''  '' @ message)"

text \<open>The padding makes up for the shorter names, so that messages start in one column.\<close>

lemma log_line_column:
  assumes "\<And>c l. length (paint c l) = k + (case l of LWarn \<Rightarrow> 4 | LInfo \<Rightarrow> 4 | _ \<Rightarrow> 5)"
  shows "length (log_line paint now interface l message) = length now + length interface + length message + k + 10"
  using assms by (cases l) (simp_all add: log_line_def Let_def)

definition daemonize :: "bool \<Rightarrow> unit result \<Rightarrow> unit result" where
  "daemonize is_root started =
     (if \<not> is_root then Inl (Err ''This must be run as root to initialize the tunnel.'') else started)"

text \<open>\<open>logger\<close> is the answer of \<open>apply\<close> of the logging crate, \<open>daemon\<close> that of the \<open>daemonize\<close> crate, and
  \<open>start\<close> is \<open>Interface::start\<close>, whose error is only logged. The result has the lines of the warning.\<close>

datatype 'a main_outcome = Exit nat | Crashed wg_error | Returned "'a result"

definition main_run ::
  "bool \<Rightarrow> string option \<Rightarrow> unit result \<Rightarrow> bool \<Rightarrow> unit result \<Rightarrow> (string \<Rightarrow> 'f \<Rightarrow> 'a result \<times> 'f) \<Rightarrow> opt \<Rightarrow> 'f \<Rightarrow>
     'a main_outcome \<times> string list \<times> 'f" where
  "main_run linux var logger is_root daemon start opts f =
     (let lines = warning_text linux (warning_quits var) in
      if warning_quits var then (Exit 1, lines, f)
      else if isl logger then (Crashed (Panicked UnwrapFailed), lines, f)
      else if \<not> opt_foreground opts \<and> isl (daemonize is_root daemon) then (Exit 1, lines, f)
      else let (r, f) = start (opt_interface opts) f in (Returned r, lines, f))"

text \<open>Nothing is started without the variable, nor, in the background, without root.\<close>

lemma main_run_starts:
  assumes "main_run linux var logger is_root daemon start opts f = (Returned r, lines, f')"
  shows "start (opt_interface opts) f = (r, f')" "var = Some ''1''" "opt_foreground opts \<or> is_root"
  using assms by (auto simp: main_run_def warning_quits_def daemonize_def Let_def split: if_splits prod.splits option.splits)

lemma main_run_not_started:
  assumes "main_run linux var logger is_root daemon start opts f = (out, lines, f')" and "\<And>r. out \<noteq> Returned r"
  shows "f' = f"
  using assms by (auto simp: main_run_def Let_def split: if_splits prod.splits)

section \<open>Properties\<close>

text \<open>What the file system promises: an operation on one path does not make another appear or vanish,
  changing permissions creates nothing, an existing file can be removed and is gone then, and a socket is
  bound only where there was no file.\<close>

definition lawful_fs :: "'f fs_ops \<Rightarrow> bool" where
  "lawful_fs F \<longleftrightarrow>
     (\<forall>p q m f. path_exists F q (snd (set_permissions F p m f)) = path_exists F q f) \<and>
     (\<forall>p q f. q \<noteq> p \<longrightarrow> path_exists F q (snd (create_dir F p f)) = path_exists F q f) \<and>
     (\<forall>p q f. q \<noteq> p \<longrightarrow> path_exists F q (snd (remove_file F p f)) = path_exists F q f) \<and>
     (\<forall>p q f. q \<noteq> p \<longrightarrow> path_exists F q (snd (unix_bind F p f)) = path_exists F q f) \<and>
     (\<forall>p f. path_exists F p f \<longrightarrow> fst (remove_file F p f) = Inr () \<and> \<not> path_exists F p (snd (remove_file F p f))) \<and>
     (\<forall>p f f'. unix_bind F p f = (Inr (), f') \<longrightarrow> path_exists F p f' \<and> \<not> path_exists F p f)"

lemma lawful_fsD:
  assumes "lawful_fs F"
  shows "path_exists F q (snd (set_permissions F p m f)) = path_exists F q f"
    "q \<noteq> p \<Longrightarrow> path_exists F q (snd (create_dir F p f)) = path_exists F q f"
    "q \<noteq> p \<Longrightarrow> path_exists F q (snd (remove_file F p f)) = path_exists F q f"
    "q \<noteq> p \<Longrightarrow> path_exists F q (snd (unix_bind F p f)) = path_exists F q f"
    "path_exists F p f \<Longrightarrow> \<not> path_exists F p (snd (remove_file F p f))"
    "unix_bind F p f = (Inr (), f') \<Longrightarrow> path_exists F p f'"
  using assms unfolding lawful_fs_def by simp_all

text \<open>The sockets and their directory are below the run directory, so handling them does not move it.\<close>

lemma run_path_kept:
  assumes "lawful_fs F"
  shows "get_run_path F (snd (set_permissions F p m f)) = get_run_path F f"
    "length p > 1 \<Longrightarrow> get_run_path F (snd (create_dir F p f)) = get_run_path F f"
    "length p > 1 \<Longrightarrow> get_run_path F (snd (remove_file F p f)) = get_run_path F f"
    "length p > 1 \<Longrightarrow> get_run_path F (snd (unix_bind F p f)) = get_run_path F f"
proof -
  have "[''run''] \<noteq> p" if "length p > 1" using that by auto
  note laws = lawful_fsD(1) [OF assms, of "[''run'']" p] lawful_fsD(2-4) [OF assms this, of f]
  show "get_run_path F (snd (set_permissions F p m f)) = get_run_path F f" by (simp add: get_run_path_def laws(1))
  show "get_run_path F (snd (create_dir F p f)) = get_run_path F f" if "length p > 1"
    using laws(2) [OF that] by (simp add: get_run_path_def)
  show "get_run_path F (snd (remove_file F p f)) = get_run_path F f" if "length p > 1"
    using laws(3) [OF that] by (simp add: get_run_path_def)
  show "get_run_path F (snd (unix_bind F p f)) = get_run_path F f" if "length p > 1"
    using laws(4) [OF that] by (simp add: get_run_path_def)
qed

lemma run_path_length: "length (get_run_path F f) \<ge> 1"
  by (simp add: get_run_path_def)

lemma get_path_result:
  assumes "lawful_fs F" and "get_path F name f = (Inr sock, f')"
  shows "sock = socket_path (get_run_path F f' @ [''wireguard'']) name"
proof -
  let ?dir = "get_run_path F f @ [''wireguard'']"
  have len: "length ?dir > 1" "length (socket_path ?dir name) > 1" using run_path_length [of F f] by (auto simp: socket_path_def)
  from assms(2) obtain f1 f2 where "(if path_exists F ?dir f then (Inr (), f) else create_dir F ?dir f) = (Inr (), f1)"
    "set_permissions F ?dir 0x1C0 f1 = (Inr (), f2)" and sock: "sock = socket_path ?dir name"
    "(if path_exists F sock f2 then remove_file F sock f2 else (Inr (), f2)) = (Inr (), f')"
    unfolding get_path_def chmod_def Let_def by (auto elim!: and_then_InrE)
  then have "get_run_path F f1 = get_run_path F f" "get_run_path F f2 = get_run_path F f1" "get_run_path F f' = get_run_path F f2"
    using run_path_kept(2) [OF assms(1) len(1), where f = f] run_path_kept(1) [OF assms(1), where p = ?dir and m = "0x1C0" and f = f1]
      run_path_kept(3) [OF assms(1) len(2), where f = f2]
    by (auto split: if_splits)
  then show ?thesis using sock(1) by simp
qed

lemma unwrap_result_Inr: "unwrap_result r = (Inr x, s) \<longleftrightarrow> r = (Inr x, s)"
  by (auto simp: unwrap_result_def split: prod.splits sum.splits wg_error.splits)

text \<open>The names up to the last dot decide the socket: two interfaces that differ only after it share one.\<close>

lemma socket_path_collision:
  assumes "stem \<noteq> []" and "CHR ''.'' \<notin> set x"
  shows "socket_path dir (stem @ CHR ''.'' # x) = dir @ [stem @ ''.sock'']"
proof -
  have "dropWhile (\<lambda>c. c \<noteq> CHR ''.'') (rev x @ ys) = dropWhile (\<lambda>c. c \<noteq> CHR ''.'') ys" for ys
    by (rule dropWhile_append2) (use assms(2) in auto)
  then show ?thesis using assms(1) by (simp add: socket_path_def file_stem_def Let_def)
qed

text \<open>A configuration service that starts has its socket file at \<open>wireguard/<name>.sock\<close> below the run
  directory, and dropping it removes the file.\<close>

lemma config_service_new_socket:
  assumes "lawful_fs F" and "config_service_new F name_file spawned name f = (Inr s, f')"
  shows "cs_interface_name s = name" "path_exists F (socket_path (get_run_path F f' @ [''wireguard'']) name) f'"
proof -
  from assms(2) obtain f0 fa sock where path: "get_path F name f0 = (Inr sock, fa)" and bind: "unix_bind F sock fa = (Inr (), f')"
    and s: "cs_interface_name s = name"
    unfolding config_service_new_def by (auto elim!: and_then_InrE simp: unwrap_result_Inr)
  note sock = get_path_result [OF assms(1) path]
  have "length sock > 1" using run_path_length [of F fa] by (simp add: sock socket_path_def)
  from run_path_kept(4) [OF assms(1) this] bind have "get_run_path F f' = get_run_path F fa" by (metis snd_conv)
  with lawful_fsD(6) [OF assms(1) bind] sock show "path_exists F (socket_path (get_run_path F f' @ [''wireguard'']) name) f'" by simp
  show "cs_interface_name s = name" by (rule s)
qed

lemma config_service_drop_removes:
  assumes "lawful_fs F"
  shows "\<not> path_exists F (socket_path (get_run_path F (config_service_drop F s f) @ [''wireguard'']) (cs_interface_name s))
    (config_service_drop F s f)"
proof -
  let ?sock = "socket_path (get_run_path F f @ [''wireguard'']) (cs_interface_name s)"
  have "length ?sock > 1" using run_path_length [of F f] by (simp add: socket_path_def)
  note kept = run_path_kept(3) [OF assms this, of f]
  show ?thesis
  proof (cases "path_exists F ?sock f")
    case True
    then have "config_service_drop F s f = snd (remove_file F ?sock f)" by (simp add: config_service_drop_def Let_def)
    then show ?thesis using lawful_fsD(5) [OF assms True] kept by simp
  next
    case False
    then have "config_service_drop F s f = f" by (simp add: config_service_drop_def Let_def)
    then show ?thesis using False by simp
  qed
qed

text \<open>An instance of the file system: the list of the existing paths.\<close>

definition test_fs :: "path list fs_ops" where
  "test_fs =
     \<lparr>path_exists = \<lambda>p f. p \<in> set f,
      create_dir = \<lambda>p f. (Inr (), p # f),
      set_permissions = \<lambda>p m f. (Inr (), f),
      remove_file = \<lambda>p f. if p \<in> set f then (Inr (), removeAll p f) else (Inl (Err ''no such file''), f),
      file_create = \<lambda>p f. (Inr (), p # f),
      write_all = \<lambda>p bs f. (Inr (), f),
      unix_bind = \<lambda>p f. if p \<in> set f then (Inl (Err ''address in use''), f) else (Inr (), p # f)\<rparr>"

lemma lawful_test_fs: "lawful_fs test_fs"
  unfolding lawful_fs_def test_fs_def by (intro conjI allI impI; auto split: if_splits)

end
