(* ===== verification/ServerProperties.thy ===== *)
theory ServerProperties
  imports DeviceRun
begin

text \<open>
  Properties of single handlers of the peer server: what reaches the tunnel, what handshake messages are
  let through under load, how long a search for an unused index takes, and that polling empties the queues.
\<close>

section \<open>The configuration is not touched\<close>

definition configuration where
  "configuration sv =
     (pubkey_map (shared_state sv), router (shared_state sv), interface_info (shared_state sv),
      next_ref (shared_state sv), (\<lambda>q. config_of (peer_at sv q)))"

lemma configuration_simps [simp]:
  "configuration (insert_index i r sv) = configuration sv"
  "configuration (remove_indices ix sv) = configuration sv"
  "configuration (sv\<lparr>udp := u\<rparr>) = configuration sv"
  "configuration (sv\<lparr>udp := u, port := pn\<rparr>) = configuration sv"
  "configuration (sv\<lparr>timer := t\<rparr>) = configuration sv"
  "configuration (sv\<lparr>cookie := c\<rparr>) = configuration sv"
  "configuration (sv\<lparr>rate_limiter := rl\<rparr>) = configuration sv"
  "configuration (sv\<lparr>under_load_until := tm\<rparr>) = configuration sv"
  "configuration (sv\<lparr>tunnel_tx := tx\<rparr>) = configuration sv"
  "configuration (sv\<lparr>handshakes := hs\<rparr>) = configuration sv"
  by (simp_all add: configuration_def peer_at_def insert_index_def remove_indices_def)

lemma configuration_set_peer: "config_of p = config_of (peer_at sv r) \<Longrightarrow> configuration (set_peer r p sv) = configuration sv"
  by (auto simp: configuration_def set_peer_def put_peer_def peer_at_def fun_eq_iff)

lemma configuration_call:
  assumes "\<And>p x p'. op p = (x, p') \<Longrightarrow> config_of p' = config_of p"
  shows "configuration (snd (peer_call r op sv)) = configuration sv"
  using assms by (auto simp: peer_call_def split: prod.split intro!: configuration_set_peer)

lemma configuration_block:
  assumes "\<And>p x p'. op p = (x, p') \<Longrightarrow> config_of p' = config_of p" and "\<And>x s. configuration (snd (k x s)) = configuration s"
  shows "configuration (snd (and_then (peer_call r op sv) k)) = configuration sv"
  by (rule and_then_inv [where P = "\<lambda>s. configuration s = configuration sv"])
    (simp_all add: assms(2) configuration_call [OF assms(1)])

lemma configuration_steps:
  "configuration (snd (peer_call r (handle_outgoing_transport N pk t) sv)) = configuration sv"
  "configuration (snd (open_session L E key i r sv)) = configuration sv"
  "configuration (snd (accept_session L E addr i h r sv)) = configuration sv"
  "configuration (snd (complete_session L E addr resp r sv)) = configuration sv"
  "configuration (snd (receive_transport L E addr tr r sv)) = configuration sv"
  "configuration (wipe_sessions_of r sv) = configuration sv"
proof -
  show "configuration (snd (peer_call r (handle_outgoing_transport N pk t) sv)) = configuration sv"
    by (rule configuration_call) (rule outgoing.config_kept)
  show "configuration (snd (open_session L E key i r sv)) = configuration sv"
    unfolding open_session_def by (rule configuration_block, erule initiate.config_kept) (simp add: split_beta Let_def)
  show "configuration (snd (accept_session L E addr i h r sv)) = configuration sv"
    unfolding accept_session_def by (rule configuration_block, erule complete.config_kept) (simp add: split_beta Let_def)
  show "configuration (snd (complete_session L E addr resp r sv)) = configuration sv"
    unfolding complete_session_def by (rule configuration_block, erule response.config_kept) simp
  show "configuration (snd (receive_transport L E addr tr r sv)) = configuration sv"
    unfolding receive_transport_def
    by (rule configuration_block, erule incoming.config_kept) (simp add: split_beta split: session_transition.split)
  show "configuration (wipe_sessions_of r sv) = configuration sv"
    by (auto simp: wipe_sessions_of_def split_beta Let_def config_of_def intro!: configuration_set_peer)
qed

interpretation unconfigured: server_full_contract L E "\<lambda>sv. configuration sv = c" "\<lambda>_. True" "\<lambda>_. True"
  by unfold_locales (auto simp: holds_def configuration_steps config_of_def intro!: configuration_set_peer)

lemma handlers_configuration:
  "configuration (snd (handle_timer L E message sv)) = configuration sv"
  "configuration (snd (handle_incoming_event L E event sv)) = configuration sv"
  "configuration (snd (handle_ingress_handshake L E addr hs sv)) = configuration sv"
  "configuration (snd (handle_egress_packet L E packet sv)) = configuration sv"
  "configuration (snd (handle_ingress_packet L E addr dgram sv)) = configuration sv"
proof -
  show "configuration (snd (handle_timer L E message sv)) = configuration sv"
    using unconfigured.handle_timer [of sv "configuration sv" L E message] by (simp add: holds_def)
  show "configuration (snd (handle_incoming_event L E event sv)) = configuration sv"
    using unconfigured.handle_incoming_event [of sv "configuration sv" event L E] by (simp add: holds_def)
  show "configuration (snd (handle_egress_packet L E packet sv)) = configuration sv"
    using unconfigured.handle_egress_packet [of sv "configuration sv" L E packet] by (simp add: holds_def)
  show "configuration (snd (handle_ingress_packet L E addr dgram sv)) = configuration sv"
    using unconfigured.handle_ingress_packet [of sv "configuration sv" dgram L E addr] by (simp add: holds_def)
  show "configuration (snd (handle_ingress_handshake L E addr hs sv)) = configuration sv"
  proof (cases "\<exists>p. hs = Transport p")
    case True
    then show ?thesis by (auto simp: handle_ingress_handshake_def under_load_def Let_def)
  next
    case False
    then show ?thesis using unconfigured.handle_ingress_handshake [of sv "configuration sv" hs L E addr] by (simp add: holds_def)
  qed
qed

text \<open>The loops of \<open>poll\<close> only run handlers.\<close>

lemma proceed_configuration:
  assumes "configuration (snd (snd x)) = c" and "\<And>n s. x = (Pending, n, s) \<Longrightarrow> configuration s = c \<Longrightarrow> configuration (snd (snd (k n s))) = c"
  shows "configuration (snd (snd (proceed x k))) = c"
  using assms by (cases x) (auto simp: proceed_def)

lemma configuration_queues [simp]:
  "configuration (sv\<lparr>channel := ch\<rparr>) = configuration sv" "configuration (sv\<lparr>outgoing := og\<rparr>) = configuration sv"
  by (simp_all add: configuration_def peer_at_def)

lemma call_configuration [simp]: "configuration (snd (snd (call n r))) = configuration (snd r)"
  by (simp add: call_def)

lemma poll_channel_configuration: "configuration (snd (snd (poll_channel L env n sv))) = configuration sv"
proof (induction L env n sv rule: poll_channel.induct)
  case (1 L env n sv)
  then show ?case
    by (subst poll_channel.simps)
      (auto simp: handlers_configuration split: list.split intro!: proceed_configuration)
qed

lemma poll_timer_configuration: "configuration (snd (snd (poll_timer L env n sv))) = configuration sv"
proof (induction L env n sv rule: poll_timer.induct)
  case (1 L env n sv)
  then show ?case
    by (subst poll_timer.simps)
      (auto simp: handlers_configuration split: prod.split option.split intro!: proceed_configuration)
qed

lemma poll_outgoing_configuration: "configuration (snd (snd (poll_outgoing L env n sv))) = configuration sv"
proof (induction L env n sv rule: poll_outgoing.induct)
  case (1 L env n sv)
  then show ?case
    by (subst poll_outgoing.simps)
      (auto simp: handlers_configuration split: list.split intro!: proceed_configuration)
qed

lemma poll_ingress_configuration: "configuration (snd (snd (poll_ingress L env n sv))) = configuration sv"
proof (induction L env n sv rule: poll_ingress.induct)
  case (1 L env n sv)
  then show ?case
    by (subst poll_ingress.simps)
      (auto simp: handlers_configuration split: option.split list.split sum.split intro!: proceed_configuration)
qed

lemma server_poll_configuration: "configuration (snd (snd (server_poll L env n sv))) = configuration sv"
proof -
  have "configuration (snd (snd (poll_handshake L env n sv))) = configuration sv" for n sv
    by (auto simp: poll_handshake_def handlers_configuration split: list.split)
  then show ?thesis unfolding server_poll_def
    by (auto simp: poll_channel_configuration poll_timer_configuration poll_ingress_configuration poll_outgoing_configuration
        intro!: proceed_configuration)
qed

section \<open>What reaches the tunnel\<close>

lemma ingress_transport_source:
  assumes "ingress_transport L E addr packet sv = (Inr (r, raw), sv')"
  obtains t p' where "map_of (index_map (shared_state sv)) (transport_our_index packet) = Some r"
    and "handle_incoming_transport (noise_lib L) (ip_lib L) addr packet (e_now E) (peer_at sv r) = (Inr (raw, t), p')"
  using assms
  by (auto simp: ingress_transport_def receive_transport_def peer_call_def split: option.splits prod.splits elim!: and_then_InrE)

lemma handshake_keeps_queues: "all_queues (snd (handle_ingress_handshake L E addr message sv)) = all_queues sv"
proof (cases "\<exists>p. message = Transport p")
  case True
  then show ?thesis by (auto simp: handle_ingress_handshake_def under_load_def Let_def)
next
  case False
  then show ?thesis using queues.handle_ingress_handshake [of sv "all_queues sv" message L E addr] by (simp add: holds_def)
qed

lemma ingress_transport_keeps:
  assumes "ingress_transport L E addr packet sv = (x, sv')"
  shows "tunnel_tx sv' = tunnel_tx sv" "router (shared_state sv') = router (shared_state sv)"
    "pub_key (info (peer_at sv' q)) = pub_key (info (peer_at sv q))"
proof -
  show "tunnel_tx sv' = tunnel_tx sv"
    using handlers_keep_queues(3) [of L E addr packet sv] assms by (simp add: all_queues_def inner_queues_def)
  have "configuration sv' = configuration sv"
    using unconfigured.ingress_transport [of sv "configuration sv" L E addr packet] assms by (simp add: holds_def)
  then show "router (shared_state sv') = router (shared_state sv)"
    "pub_key (info (peer_at sv' q)) = pub_key (info (peer_at sv q))"
    by (auto simp: configuration_def config_of_def dest: fun_cong)
qed

text \<open>A packet \<open>raw\<close> that peer \<open>r\<close> sent in the datagram \<open>packet\<close>, and whose source address is routed to that peer.\<close>

definition authentic ::
  "('n, 't4, 't6) libs \<Rightarrow> (net \<Rightarrow> peer_ref option) \<Rightarrow> env \<Rightarrow> endpoint \<Rightarrow> transport \<Rightarrow> ('n, 't4, 't6) server \<Rightarrow> bytes \<Rightarrow> bool" where
  "authentic L routes E addr packet sv raw \<longleftrightarrow>
     (\<exists>r t p' ip q.
        map_of (index_map (shared_state sv)) (transport_our_index packet) = Some r \<and>
        handle_incoming_transport (noise_lib L) (ip_lib L) addr packet (e_now E) (peer_at sv r) = (Inr (raw, t), p') \<and>
        ip_packet_new (ip_lib L) raw = Some ip \<and> longest_route routes (ip_source ip) = Some q \<and>
        pub_key (info (peer_at sv q)) = pub_key (info (peer_at sv r)))"

lemma handle_ingress_transport_tunnel:
  assumes R: "lawful_router (router_lib L) V4 V6" and step: "handle_ingress_transport L E addr packet sv = (x, sv')"
  shows "tunnel_tx sv' = tunnel_tx sv \<or>
    (\<exists>raw. tunnel_tx sv' = tunnel_tx sv @ [raw] \<and>
      authentic L (router_view V4 V6 (router (shared_state sv))) E addr packet sv raw)"
proof -
  obtain y s where y: "ingress_transport L E addr packet sv = (y, s)" by fastforce
  note kept = ingress_transport_keeps [OF y]
  show ?thesis
  proof (cases y)
    case (Inl e)
    then show ?thesis using step kept(1) by (simp add: handle_ingress_transport_def y)
  next
    case (Inr rw)
    obtain r raw where rw: "rw = (r, raw)" by (cases rw)
    let ?check = "validate_source (ip_lib L) (router_lib L) (\<lambda>a b. peer_eq (peer_at s a) (peer_at s b)) (router (shared_state s)) raw r"
    show ?thesis
    proof (cases "raw \<noteq> [] \<and> ?check = Inr () \<and> e_tunnel_open E")
      case False
      then have "tunnel_tx sv' = tunnel_tx s"
        using step by (cases ?check) (auto simp: handle_ingress_transport_def y Inr rw send_to_tunnel_def split: if_splits)
      then show ?thesis using kept(1) by simp
    next
      case True
      then have tx: "tunnel_tx sv' = tunnel_tx sv @ [raw]"
        using step kept(1) by (simp add: handle_ingress_transport_def y Inr rw send_to_tunnel_def split: if_splits) auto
      obtain ip q where "ip_packet_new (ip_lib L) raw = Some ip" "get_peer_from_ip (router_lib L) (router (shared_state s)) (ip_source ip) = Some q"
        and "peer_eq (peer_at s q) (peer_at s r)"
        using True by (auto simp: validate_source_def split: option.splits if_splits)
      moreover obtain t p' where "map_of (index_map (shared_state sv)) (transport_our_index packet) = Some r"
        "handle_incoming_transport (noise_lib L) (ip_lib L) addr packet (e_now E) (peer_at sv r) = (Inr (raw, t), p')"
        using ingress_transport_source [OF y [unfolded Inr rw]] .
      ultimately have "authentic L (router_view V4 V6 (router (shared_state sv))) E addr packet sv raw"
        unfolding authentic_def get_peer_route [OF R] kept(2) by (auto simp: peer_eq_def kept(3))
      then show ?thesis using tx by blast
    qed
  qed
qed

section \<open>Handshake messages under load\<close>

text \<open>What a handshake message needs when the server is under load.\<close>

definition admitted :: "('n, 't4, 't6) libs \<Rightarrow> env \<Rightarrow> endpoint \<Rightarrow> bytes \<Rightarrow> ('n, 't4, 't6) server \<Rightarrow> bool" where
  "admitted L E addr packet sv \<longleftrightarrow>
     (if fst (under_load E sv)
      then verify_mac2 (crypto_lib L) (cookie sv) packet (ip_octets (endpoint_ip addr)) (e_now E) = Inr () \<and>
        fst (allow (e_now E) (e_now E) (endpoint_ip addr) (rate_limiter sv))
      else True)"

lemma send_to_peer_state [simp]: "shared_state (snd (send_to_peer m sv)) = shared_state sv"
  by (simp add: send_to_peer_def split: option.split)

lemma check_load_cases:
  assumes "check_load L E addr packet mac1 i msg sv = (x, s)"
  shows "shared_state s = shared_state sv" "x = Inr () \<Longrightarrow> admitted L E addr packet sv"
proof -
  have reply: "shared_state (snd (send_cookie_reply L E addr mac1 i s0)) = shared_state s0" for s0
    by (auto simp: send_cookie_reply_def split: prod.split and_then_splits)
  have load: "shared_state (snd (under_load E sv)) = shared_state sv" "cookie (snd (under_load E sv)) = cookie sv"
    "rate_limiter (snd (under_load E sv)) = rate_limiter sv"
    by (simp_all add: under_load_def Let_def)
  obtain b s1 where u: "under_load E sv = (b, s1)" by fastforce
  have "shared_state (snd (check_load L E addr packet mac1 i msg sv)) = shared_state sv \<and>
      (fst (check_load L E addr packet mac1 i msg sv) = Inr () \<longrightarrow> admitted L E addr packet sv)"
    using load reply [of s1]
    by (auto simp: check_load_def admitted_def u Let_def and_then_def split: prod.split sum.splits)
  then show "shared_state s = shared_state sv" "x = Inr () \<Longrightarrow> admitted L E addr packet sv" using assms by simp_all
qed

section \<open>Draining the queues\<close>

text \<open>The queues that one poll empties.\<close>

definition pending where
  "pending sv = (channel sv, t_rx (timer sv), outgoing sv, map_option ingress (udp sv))"

lemma handlers_keep_pending:
  "pending (snd (handle_timer L E message sv)) = pending sv"
  "pending (snd (handle_egress_packet L E packet sv)) = pending sv"
  "pending (snd (handle_ingress_handshake L E addr hs sv)) = pending sv"
  using handlers_keep_queues(1) [of L E message sv] handlers_keep_queues(2) [of L E packet sv]
    handshake_keeps_queues [of L E addr hs sv]
  by (simp_all add: all_queues_def inner_queues_def pending_def)

lemma ingress_keeps_pending: "pending (snd (handle_ingress_packet L E addr dgram sv)) = pending sv"
proof -
  have "pending (snd (ingress_transport L E addr tr sv)) = pending sv" for tr
    using handlers_keep_queues(3) [of L E addr tr sv] by (simp add: all_queues_def inner_queues_def pending_def)
  then have "pending (snd (handle_ingress_transport L E addr tr sv)) = pending sv" for tr
    unfolding handle_ingress_transport_def
    by (rule and_then_inv [where P = "\<lambda>s. pending s = pending sv"])
      (auto simp: send_to_tunnel_def pending_def split: prod.splits and_then_splits)
  then show ?thesis
    by (auto simp: handle_ingress_packet_def pending_def split: and_then_splits message.splits)
qed

lemma poll_channel_drains: "poll_channel L env n sv = (Pending, n', sv') \<Longrightarrow> channel sv' = []"
proof (induction "channel sv" arbitrary: n sv)
  case Nil
  then show ?case by (subst (asm) poll_channel.simps) auto
next
  case (Cons event rest)
  let ?sv = "sv\<lparr>channel := rest\<rparr>"
  obtain b n1 s1 where c: "call n (handle_incoming_event L (env n) event ?sv) = (b, n1, s1)" using prod_cases3 by blast
  have "poll_channel L env n1 s1 = (Pending, n', sv')"
    using Cons.prems by (subst (asm) poll_channel.simps) (auto simp: Cons.hyps(2) [symmetric] c proceed_def split: if_splits)
  then show ?case using Cons.hyps(1) [of s1] calls_keep_queues(1) [OF c] by simp
qed

lemma poll_timer_drains:
  "poll_timer L env n sv = (Pending, n', sv') \<Longrightarrow>
     t_rx (timer sv') = [] \<and> channel sv' = channel sv"
proof (induction "t_rx (timer sv)" arbitrary: n sv)
  case Nil
  then have "timer_poll (timer sv) = (None, timer sv)" by (simp add: timer_poll_def)
  then show ?case using Nil by (subst (asm) poll_timer.simps) auto
next
  case (Cons m ms)
  let ?sv = "sv\<lparr>timer := (timer sv)\<lparr>t_rx := ms\<rparr>\<rparr>"
  obtain b n1 s1 where c: "call n (handle_timer L (env n) m ?sv) = (b, n1, s1)" using prod_cases3 by blast
  have t: "timer_poll (timer sv) = (Some m, (timer sv)\<lparr>t_rx := ms\<rparr>)" by (simp add: timer_poll_def Cons.hyps(2) [symmetric])
  have "poll_timer L env n1 s1 = (Pending, n', sv')"
    using Cons.prems by (subst (asm) poll_timer.simps) (auto simp: t c proceed_def split: if_splits)
  moreover have "pending s1 = pending ?sv" using handlers_keep_pending(1) [of L "env n" m ?sv] c by (auto simp: call_def)
  ultimately show ?case using Cons.hyps(1) [of s1] by (simp add: pending_def)
qed

lemma poll_ingress_drains:
  "poll_ingress L env n sv = (Pending, n', sv') \<Longrightarrow> udp sv = Some u \<Longrightarrow>
     map_option ingress (udp sv') = Some [] \<and> channel sv' = channel sv \<and> t_rx (timer sv') = t_rx (timer sv)"
proof (induction "ingress u" arbitrary: n sv u)
  case Nil
  then show ?case by (subst (asm) poll_ingress.simps) auto
next
  case (Cons d ds)
  let ?sv = "sv\<lparr>udp := Some (u\<lparr>ingress := ds\<rparr>)\<rparr>"
  obtain addr packet where d: "d = Inr (addr, packet)"
    using Cons.prems by (subst (asm) poll_ingress.simps) (auto simp: Cons.hyps(2) [symmetric] split: sum.splits)
  obtain b n1 s1 where c: "call n (handle_ingress_packet L (env n) addr packet ?sv) = (b, n1, s1)" using prod_cases3 by blast
  have p: "poll_ingress L env n1 s1 = (Pending, n', sv')"
    using Cons.prems by (subst (asm) poll_ingress.simps) (auto simp: Cons.hyps(2) [symmetric] d c proceed_def split: if_splits)
  have s1: "pending s1 = pending ?sv" using ingress_keeps_pending [of L "env n" addr packet ?sv] c by (auto simp: call_def)
  then obtain u1 where "udp s1 = Some u1" "ds = ingress u1" by (auto simp: pending_def)
  from Cons.hyps(1) [OF this(2) p this(1)] s1 show ?case by (simp add: pending_def)
qed

lemma poll_outgoing_drains:
  "poll_outgoing L env n sv = (Pending, n', sv') \<Longrightarrow>
     outgoing sv' = [] \<and> channel sv' = channel sv \<and> t_rx (timer sv') = t_rx (timer sv) \<and>
     map_option ingress (udp sv') = map_option ingress (udp sv)"
proof (induction "outgoing sv" arbitrary: n sv)
  case Nil
  then show ?case by (subst (asm) poll_outgoing.simps) auto
next
  case (Cons packet rest)
  let ?sv = "sv\<lparr>outgoing := rest\<rparr>"
  obtain b n1 s1 where c: "call n (handle_egress_packet L (env n) packet ?sv) = (b, n1, s1)" using prod_cases3 by blast
  have "poll_outgoing L env n1 s1 = (Pending, n', sv')"
    using Cons.prems by (subst (asm) poll_outgoing.simps) (auto simp: Cons.hyps(2) [symmetric] c proceed_def split: if_splits)
  moreover have "pending s1 = pending ?sv" using handlers_keep_pending(2) [of L "env n" packet ?sv] c by (auto simp: call_def)
  ultimately show ?case using Cons.hyps(1) [of s1] by (simp add: pending_def)
qed

lemma proceed_Pending:
  assumes "proceed x k = (Pending, n', s')"
  obtains n s where "x = (Pending, n, s)" "k n s = (Pending, n', s')"
  using assms by (cases x) (auto simp: proceed_def split: if_splits)

lemma poll_handshake_pending: "poll_handshake L env n sv = (b, n', sv') \<Longrightarrow> pending sv' = pending sv"
  by (auto simp: poll_handshake_def call_def handlers_keep_pending(3) split: list.splits) (simp_all add: pending_def)

section \<open>Properties\<close>

datatype handler_call =
    TimerCall timer_message
  | EventCall channel_message
  | HandshakeCall endpoint message
  | EgressCall utun_packet
  | DatagramCall endpoint bytes

fun run_handler ::
  "('n, 't4, 't6) libs \<Rightarrow> env \<Rightarrow> handler_call \<Rightarrow> ('n, 't4, 't6) server \<Rightarrow> unit result \<times> ('n, 't4, 't6) server" where
  "run_handler L E (TimerCall message) sv = handle_timer L E message sv"
| "run_handler L E (EventCall event) sv = handle_incoming_event L E event sv"
| "run_handler L E (HandshakeCall addr message) sv = handle_ingress_handshake L E addr message sv"
| "run_handler L E (EgressCall packet) sv = handle_egress_packet L E packet sv"
| "run_handler L E (DatagramCall addr dgram) sv = handle_ingress_packet L E addr dgram sv"

text \<open>C2: a packet reaches the local tunnel only from a datagram that is a transport message, decrypts in the
  session its receiver index names, and carries a packet whose source address is routed, by longest
  prefix, to the peer of that session. No other handler writes to the tunnel, and no handler takes
  anything back from it.\<close>

theorem tunnel_source_checked:
  assumes "lawful_router (router_lib L) V4 V6" and "run_handler L E c sv = (x, sv')"
  shows "tunnel_tx sv' = tunnel_tx sv \<or>
    (\<exists>addr dgram packet raw. c = DatagramCall addr dgram \<and> message_try_from dgram = Inr (Transport packet) \<and>
       tunnel_tx sv' = tunnel_tx sv @ [raw] \<and>
       authentic L (router_view V4 V6 (router (shared_state sv))) E addr packet sv raw)"
proof (cases c)
  case (TimerCall message)
  then show ?thesis using assms(2) handlers_keep_queues(1) [of L E message sv] by (simp add: all_queues_def inner_queues_def)
next
  case (EventCall event)
  then show ?thesis using assms(2) handlers_keep_queues(4) [of L E event sv] by (simp add: inner_queues_def)
next
  case (HandshakeCall addr message)
  then show ?thesis using assms(2) handshake_keeps_queues [of L E addr message sv] by (simp add: all_queues_def inner_queues_def)
next
  case (EgressCall packet)
  then show ?thesis using assms(2) handlers_keep_queues(2) [of L E packet sv] by (simp add: all_queues_def inner_queues_def)
next
  case (DatagramCall addr dgram)
  show ?thesis
  proof (cases "\<exists>packet. message_try_from dgram = Inr (Transport packet)")
    case True
    then obtain packet where p: "message_try_from dgram = Inr (Transport packet)" by blast
    then have "handle_ingress_transport L E addr packet sv = (x, sv')"
      using assms(2) by (simp add: DatagramCall handle_ingress_packet_def)
    from handle_ingress_transport_tunnel [OF assms(1) this] show ?thesis using DatagramCall p by blast
  next
    case False
    then show ?thesis using assms(2)
      by (cases "message_try_from dgram") (auto simp: DatagramCall handle_ingress_packet_def split: message.splits)
  qed
qed

theorem tunnel_source_checked_witness:
  "let sv = interface_start test_libs 0; dgram = 4 # replicate 31 0;
       sv' = snd (run_handler test_libs (test_env 0) (DatagramCall (endpoint_from (SocketAddrV4 1 2)) dgram) sv)
   in tunnel_tx sv' = tunnel_tx sv \<or>
      (\<exists>packet raw. message_try_from dgram = Inr (Transport packet) \<and> tunnel_tx sv' = tunnel_tx sv @ [raw] \<and>
        authentic test_libs (router_view map_of map_of (router (shared_state sv))) (test_env 0)
          (endpoint_from (SocketAddrV4 1 2)) packet sv raw)"
  using tunnel_source_checked [OF lawful_libsD(3) [OF lawful_test_libs] surjective_pairing,
      of "test_env 0" "DatagramCall (endpoint_from (SocketAddrV4 1 2)) (4 # replicate 31 0)" "interface_start test_libs 0"]
  unfolding Let_def by blast

text \<open>C31: no handler of the peer server and no poll, which runs any number of them, changes the configuration:
  the peers, their keys, preshared keys, keepalive intervals and allowed networks, the routing table and
  the interface settings change only through the configuration service.\<close>

theorem handlers_keep_configuration:
  "configuration (snd (run_handler L E c sv)) = configuration sv \<and>
   configuration (snd (snd (server_poll L env n sv))) = configuration sv"
  by (cases c) (simp_all add: handlers_configuration server_poll_configuration)

text \<open>C4: a handshake initiation or response has an effect on the peers and their sessions only if its mac1 is
  right and, when the server is under load, its mac2 proves that the sender receives at its address and
  the rate limiter admits that address.\<close>

theorem handshakes_admitted:
  "(shared_state (snd (handle_ingress_handshake_init L E addr ini sv)) = shared_state sv \<or>
      verify_mac1 (crypto_lib L) (cookie sv) (take 116 ini) (take 16 (drop 116 ini)) = Inr () \<and> admitted L E addr ini sv) \<and>
   (shared_state (snd (handle_ingress_handshake_resp L E addr resp sv)) = shared_state sv \<or>
      verify_mac1 (crypto_lib L) (cookie sv) (take 60 resp) (take 16 (drop 60 resp)) = Inr () \<and> admitted L E addr resp sv)"
proof -
  have gate: "shared_state (snd (and_then (m, sv) (\<lambda>_ s. and_then (check_load L E addr packet mac1 i msg s) k))) = shared_state sv \<or>
      m = Inr () \<and> admitted L E addr packet sv" for m :: "unit result" and packet mac1 i msg and k :: "unit \<Rightarrow> _ \<Rightarrow> unit result \<times> _"
  proof -
    obtain x s where c: "check_load L E addr packet mac1 i msg sv = (x, s)" by fastforce
    show ?thesis using check_load_cases [OF c] by (cases m; cases x) (auto simp: c)
  qed
  show ?thesis unfolding handle_ingress_handshake_init_def handle_ingress_handshake_resp_def by (intro conjI gate)
qed

text \<open>C30: the search for an unused receiver index ends as soon as the draws have more values than the index map
  has entries, with a drawn value that is not in the map.\<close>

theorem unused_index_returns:
  assumes "length (index_map st) < card (set draws)"
  shows "\<exists>i. unused_index draws st = Inr i \<and> i \<in> set draws \<and> map_of (index_map st) i = None"
proof -
  have "card (fst ` set (index_map st)) \<le> length (index_map st)"
    by (metis card_length length_map set_map)
  then have "\<not> set draws \<subseteq> fst ` set (index_map st)"
    using assms card_mono [of "fst ` set (index_map st)" "set draws"] by auto
  then have "\<exists>i \<in> set draws. map_of (index_map st) i = None" by (auto simp: map_of_eq_None_iff)
  then show ?thesis by (induction draws) (auto split: if_splits)
qed

theorem unused_index_returns_witness:
  "\<exists>i. unused_index [7, 9] ((state_default test_crypto alist_router)\<lparr>index_map := [(7, 0)]\<rparr>) = Inr i \<and>
     i \<in> {7, 9 :: u32} \<and> map_of [(7 :: u32, 0 :: nat)] i = None"
  using unused_index_returns [of "(state_default test_crypto alist_router)\<lparr>index_map := [(7, 0)]\<rparr>" "[7, 9]"] by simp

text \<open>C29: a poll that is not cut short has handled everything that was queued: configuration events, expired
  timers, datagrams and packets of the local tunnel. Each of its loops ends, whatever the handlers do.\<close>

theorem poll_drains_queues:
  assumes "server_poll L env n sv = (Pending, n', sv')"
  shows "channel sv' = [] \<and> t_rx (timer sv') = [] \<and> outgoing sv' = [] \<and> (\<forall>u. udp sv' = Some u \<longrightarrow> ingress u = [])"
proof -
  from assms [unfolded server_poll_def] obtain n1 s1 where 1: "poll_channel L env n sv = (Pending, n1, s1)"
    and r1: "proceed (poll_timer L env n1 s1) (\<lambda>n sv. proceed (if udp sv \<noteq> None then poll_ingress L env n sv else (Pending, n, sv))
      (\<lambda>n sv. proceed (poll_outgoing L env n sv) (poll_handshake L env))) = (Pending, n', sv')"
    by (rule proceed_Pending)
  from r1 obtain n2 s2 where 2: "poll_timer L env n1 s1 = (Pending, n2, s2)"
    and r2: "proceed (if udp s2 \<noteq> None then poll_ingress L env n2 s2 else (Pending, n2, s2))
      (\<lambda>n sv. proceed (poll_outgoing L env n sv) (poll_handshake L env)) = (Pending, n', sv')"
    by (rule proceed_Pending)
  from r2 obtain n3 s3 where 3: "(if udp s2 \<noteq> None then poll_ingress L env n2 s2 else (Pending, n2, s2)) = (Pending, n3, s3)"
    and r3: "proceed (poll_outgoing L env n3 s3) (poll_handshake L env) = (Pending, n', sv')"
    by (rule proceed_Pending)
  from r3 obtain n4 s4 where 4: "poll_outgoing L env n3 s3 = (Pending, n4, s4)"
    and 5: "poll_handshake L env n4 s4 = (Pending, n', sv')"
    by (rule proceed_Pending)
  have "channel s2 = []" "t_rx (timer s2) = []" using poll_channel_drains [OF 1] poll_timer_drains [OF 2] by auto
  moreover have "channel s3 = channel s2 \<and> t_rx (timer s3) = t_rx (timer s2) \<and> (\<forall>u. udp s3 = Some u \<longrightarrow> ingress u = [])"
  proof (cases "udp s2")
    case None
    then show ?thesis using 3 by simp
  next
    case (Some u)
    then have "poll_ingress L env n2 s2 = (Pending, n3, s3)" using 3 by simp
    from poll_ingress_drains [OF this Some] show ?thesis by auto
  qed
  moreover note poll_outgoing_drains [OF 4] poll_handshake_pending [OF 5]
  ultimately show ?thesis by (cases "udp s3") (auto simp: pending_def)
qed

theorem poll_drains_queues_witness:
  "let sv = (interface_start test_libs 0)\<lparr>channel := [NewListenPort 5], outgoing := [Inet4 []]\<rparr>;
       (out, n', sv') = server_poll test_libs test_env 0 sv
   in out = Pending \<and> n' = 2 \<and> channel sv' = [] \<and> outgoing sv' = []"
proof -
  let ?sv = "(interface_start test_libs 0)\<lparr>channel := [NewListenPort 5], outgoing := [Inet4 []]\<rparr>"
  let ?fin = "interface_start test_libs 0"
  have start: "udp ?fin = None" "port ?fin = None" "channel ?fin = []" "outgoing ?fin = []" "handshakes ?fin = []"
    "timer_poll (timer ?fin) = (None, timer ?fin)" "if_private_key (interface_info (shared_state ?fin)) = None"
    by (simp_all add: interface_start_def peer_server_new_def timer_poll_def timer_new_def state_default_def interface_info_default_def)
  have "?fin\<lparr>channel := [], outgoing := [Inet4 []], udp := None, port := None\<rparr> = ?fin\<lparr>outgoing := [Inet4 []]\<rparr>"
    "?fin\<lparr>outgoing := []\<rparr> = ?fin"
    by (simp_all add: interface_start_def peer_server_new_def)
  then have poll: "server_poll test_libs test_env 0 ?sv = (Pending, 2, ?fin)"
    by (simp add: server_poll_def poll_channel.simps poll_timer.simps poll_outgoing.simps poll_handshake_def proceed_def call_def
        handle_incoming_event_def rebind_def outcome_of_def handle_egress_packet_def start)
  from poll_drains_queues [OF this] show ?thesis by (simp add: poll)
qed

end
