(* ===== verification/Program.thy ===== *)
theory Program
  imports ConfigService Lifecycle ServerProperties
begin

text \<open>
  The whole program, \<open>Interface::start\<close> of \<open>src/interface/mod.rs\<close>: the device of \<open>DeviceRun\<close> together with
  the connections of the configuration socket, the watcher, and the socket file from start to end. Here
  the device is configured by nothing but the bytes that arrive on the connections.
\<close>

section \<open>The reactor\<close>

text \<open>The device, the connections in the order they were accepted, and the history of the commands that
  have been served.\<close>

record ('n, 't4, 't6) program =
  device :: "('n, 't4, 't6) server"
  connections :: "connection list"
  served :: "command list"

datatype program_event =
    DeviceEvent event
  | Connects
  | Receives nat bytes
  | Disconnects nat
  | ServicePoll "unit + unit poll" "unit result" "unit result" "fs_event list" "unit + unit poll"

definition program_start :: "('n, 't4, 't6) libs \<Rightarrow> instant \<Rightarrow> ('n, 't4, 't6) program" where
  "program_start L t = \<lparr>device = interface_start L t, connections = [], served = []\<rparr>"

text \<open>\<open>listener.incoming().for_each(...)\<close> spawns a task per connection. An error of the configuration service
  ends the joined futures.\<close>

fun program_step ::
  "('n, 't4, 't6) libs \<Rightarrow> hex_ops \<Rightarrow> (bytes \<Rightarrow> bytes) \<Rightarrow> (nat \<Rightarrow> env) \<Rightarrow> program_event \<Rightarrow> nat \<Rightarrow> ('n, 't4, 't6) program \<Rightarrow>
     outcome \<times> nat \<times> ('n, 't4, 't6) program" where
  "program_step L H G env (DeviceEvent ev) n p =
     (let (out, n, sv) = device_step L G env ev n (device p) in (out, n, p\<lparr>device := sv\<rparr>))"
| "program_step L H G env Connects n p = (Pending, n, p\<lparr>connections := connections p @ [conn_new]\<rparr>)"
| "program_step L H G env (Receives i chunk) n p =
     (if i < length (connections p) then
        (let (out, commands, c, sv) = conn_receive L H G (env n) chunk (connections p ! i) (device p)
         in (out, n, p\<lparr>device := sv, connections := (connections p)[i := c], served := served p @ commands\<rparr>))
      else (Pending, n, p))"
| "program_step L H G env (Disconnects i) n p =
     (Pending, n,
      if i < length (connections p) then p\<lparr>connections := (connections p)[i := (connections p ! i)\<lparr>conn_open := False\<rparr>]\<rparr> else p)"
| "program_step L H G env (ServicePoll config_server watcher watching evs signal) n p =
     (case config_service_poll config_server (reaper_poll (reaper_thread watcher watching evs) signal) of
        Inl (Err m) \<Rightarrow> (Ended m, n, p)
      | _ \<Rightarrow> (Pending, n, p))"

fun program_run ::
  "('n, 't4, 't6) libs \<Rightarrow> hex_ops \<Rightarrow> (bytes \<Rightarrow> bytes) \<Rightarrow> (nat \<Rightarrow> env) \<Rightarrow> program_event list \<Rightarrow> nat \<Rightarrow> ('n, 't4, 't6) program \<Rightarrow>
     outcome \<times> nat \<times> ('n, 't4, 't6) program" where
  "program_run L H G env [] n p = (Pending, n, p)"
| "program_run L H G env (ev # evs) n p =
     proceed (program_step L H G env ev n p) (\<lambda>n p. program_run L H G env evs n p)"

text \<open>\<open>Interface::start\<close>. \<open>core_new\<close> is the answer of \<open>Core::new\<close>, and \<open>utun_name\<close> the name of the tunnel device that
  was connected for a requested name. The configuration service is dropped when the reactor ends and when a panic unwinds, but not
  while the reactor runs or a handler loops.\<close>

definition reactor_over :: "outcome \<Rightarrow> bool" where
  "reactor_over out = (case out of Pending \<Rightarrow> False | Ended _ \<Rightarrow> True | Stopped e \<Rightarrow> e \<noteq> Looping)"

definition interface_run ::
  "'f fs_ops \<Rightarrow> ('n, 't4, 't6) libs \<Rightarrow> hex_ops \<Rightarrow> (bytes \<Rightarrow> bytes) \<Rightarrow> (nat \<Rightarrow> env) \<Rightarrow> unit result \<Rightarrow> (string \<Rightarrow> string result) \<Rightarrow>
     path option \<Rightarrow> unit result \<Rightarrow> instant \<Rightarrow> program_event list \<Rightarrow> string \<Rightarrow> 'f \<Rightarrow> outcome result \<times> 'f" where
  "interface_run F L H G env core_new utun_name name_file spawned t evs name f =
     and_then (core_new, f) (\<lambda>_ f.
     and_then (utun_name name, f) (\<lambda>interface_name f.
     and_then (config_service_new F name_file spawned interface_name f) (\<lambda>s f.
       let (out, _, _) = program_run L H G env evs 0 (program_start L t)
       in (Inr out, if reactor_over out then config_service_drop F s f else f))))"

section \<open>What a read does to the device\<close>

lemma conn_receive_cases:
  obtains (idle) out c' where "conn_receive L H G E chunk c sv = (out, [], c', sv)"
      "(\<exists>b. conn_buf c = 10 # b) \<longrightarrow> (\<exists>b. conn_buf c' = 10 # b)"
  | (command) out command c' reply msgs st where
      "conn_receive L H G E chunk c sv = (out, [command], c', sv\<lparr>shared_state := st, channel := channel sv @ msgs\<rparr>)"
      "handle_command H (crypto_lib L) (router_lib L) G (e_now E) (e_wall E) command (shared_state sv) = (reply, msgs, st)"
      "\<exists>buf rest. config_decode H buf = (Inr (Some command), rest)"
      "\<nexists>b. conn_buf c = 10 # b" "\<exists>b. conn_buf c' = 10 # b"
proof (cases "conn_open c")
  case False
  then have "conn_receive L H G E chunk c sv = (Pending, [], c, sv)" by (simp add: conn_receive_def)
  then show thesis using idle by blast
next
  case True
  let ?c = "c\<lparr>conn_buf := conn_buf c @ chunk\<rparr>"
  show thesis
  proof (cases rule: conn_serve_cases [of L H G E ?c sv])
    case (none r)
    have "config_decode H (conn_buf ?c) = (fst (config_decode H (conn_buf ?c)), 10 # b @ chunk)" if "conn_buf c = 10 # b" for b
      using decode_after_newline [of H "b @ chunk"] that by auto
    then have "(\<exists>b. conn_buf c = 10 # b) \<longrightarrow> (\<exists>b. snd (config_decode H (conn_buf ?c)) = 10 # b)" by (metis snd_conv)
    moreover have "conn_receive L H G E chunk c sv = (outcome_of r, [], ?c\<lparr>conn_buf := snd (config_decode H (conn_buf ?c)), conn_open := \<not> isl r\<rparr>, sv)"
      using none(1) True by (simp add: conn_receive_def)
    ultimately show ?thesis using idle by fastforce
  next
    case (one r command buf reply msgs st)
    have "\<nexists>b. conn_buf c = 10 # b"
    proof
      assume "\<exists>b. conn_buf c = 10 # b"
      then obtain b where "conn_buf ?c = 10 # b @ chunk" by auto
      then show False using one(1) decode_after_newline [of H "b @ chunk"] by auto
    qed
    moreover have "conn_receive L H G E chunk c sv = (outcome_of r, [command],
        ?c\<lparr>conn_buf := 10 # buf, conn_out := config_encode reply (conn_out c), conn_open := \<not> isl r\<rparr>,
        sv\<lparr>shared_state := st, channel := channel sv @ msgs\<rparr>)"
      using one(3) True by (simp add: conn_receive_def)
    ultimately show ?thesis using command one(1,2) by fastforce
  qed
qed

section \<open>The invariant of the device\<close>

definition valid_command :: "command \<Rightarrow> bool" where
  "valid_command command = (case command of Set _ items \<Rightarrow> list_all valid_update items | Get _ \<Rightarrow> True)"

text \<open>The events of a run: the device is configured through its connections only.\<close>

definition outside_event :: "program_event \<Rightarrow> bool" where
  "outside_event ev = (case ev of DeviceEvent e \<Rightarrow> \<forall>items. e \<noteq> Configure items | _ \<Rightarrow> True)"

definition valid_program_event :: "program_event \<Rightarrow> bool" where
  "valid_program_event ev \<longleftrightarrow> outside_event ev \<and> (\<forall>e. ev = DeviceEvent e \<longrightarrow> valid_event e)"

lemma program_step_served:
  assumes "program_step L H G env ev n p = (out, n', p')"
  obtains commands where "served p' = served p @ commands"
  using assms by (cases ev) (auto simp: Let_def split: prod.splits if_splits sum.splits wg_error.splits)

lemma program_run_served:
  assumes "program_run L H G env evs n p = (out, n', p')"
  obtains commands where "served p' = served p @ commands"
  using assms
proof (induction evs arbitrary: n p thesis)
  case (Cons ev evs)
  obtain o1 n1 p1 where step: "program_step L H G env ev n p = (o1, n1, p1)" using prod_cases3 by blast
  obtain cs where cs: "served p1 = served p @ cs" using program_step_served [OF step] .
  show ?case
  proof (cases "o1 = Pending")
    case True
    then obtain cs' where "served p' = served p1 @ cs'" using Cons step by (auto simp: proceed_def)
    then show ?thesis using Cons.prems(1) cs by simp
  next
    case False
    then show ?thesis using Cons.prems cs step by (auto simp: proceed_def)
  qed
qed simp

lemma command_run_ok:
  assumes "lawful_libs L V4 V6" and "run_ok L V4 V6 env n sv" and "valid_command command"
    and "handle_command H (crypto_lib L) (router_lib L) G now wall command (shared_state sv) = (reply, msgs, st)"
  shows "run_ok L V4 V6 env n (sv\<lparr>shared_state := st, channel := channel sv @ msgs\<rparr>)"
proof (cases command)
  case (Set version items)
  then show ?thesis using configure_run_ok [OF assms(1,2)] assms(3,4) by (simp add: valid_command_def handle_command_def)
next
  case (Get version)
  then have "st = shared_state sv" "msgs = []" using assms(4) by (simp_all add: handle_command_def)
  then show ?thesis using assms(2) by simp
qed

lemma program_step_run_ok:
  assumes w: "good_world L V4 V6 env" and ok: "run_ok L V4 V6 env n (device p)" and valid: "valid_program_event ev"
    and step: "program_step L H G env ev n p = (out, n', p')" and cmds: "list_all valid_command (served p')"
  shows "run_ok L V4 V6 env n' (device p')"
proof (cases ev)
  case (DeviceEvent e)
  then have "valid_event e" using valid by (simp add: valid_program_event_def)
  from device_step_fine [OF w ok this, of G] show ?thesis
    using step by (auto simp: DeviceEvent fine_def split: prod.splits)
next
  case (Receives i chunk)
  have libs: "lawful_libs L V4 V6" using w by (simp add: good_world_def)
  show ?thesis
  proof (cases "i < length (connections p)")
    case True
    show ?thesis
    proof (cases rule: conn_receive_cases [of L H G "env n" chunk "connections p ! i" "device p"])
      case (idle out c')
      then show ?thesis using step ok True by (auto simp: Receives)
    next
      case (command out command c' reply msgs st)
      have "valid_command command" using cmds step command(1) True by (auto simp: Receives)
      from command_run_ok [OF libs ok this command(2)] show ?thesis using step command(1) True by (auto simp: Receives)
    qed
  qed (use step ok in \<open>simp add: Receives\<close>)
qed (use step ok in \<open>auto split: if_splits sum.splits wg_error.splits\<close>)

lemma program_run_ok:
  assumes "good_world L V4 V6 env" and "run_ok L V4 V6 env n (device p)" and "list_all valid_program_event evs"
    and "program_run L H G env evs n p = (out, n', p')" and "list_all valid_command (served p')"
  shows "run_ok L V4 V6 env n' (device p')"
  using assms(2,3,4)
proof (induction evs arbitrary: n p)
  case (Cons ev evs)
  obtain o1 n1 p1 where step: "program_step L H G env ev n p = (o1, n1, p1)" using prod_cases3 by blast
  have valid: "valid_program_event ev" using Cons.prems(2) by simp
  show ?case
  proof (cases "o1 = Pending")
    case True
    then have run: "program_run L H G env evs n1 p1 = (out, n', p')" using Cons.prems(3) step by (simp add: proceed_def)
    obtain cs where "served p' = served p1 @ cs" using program_run_served [OF run] .
    then have "list_all valid_command (served p1)" using assms(5) by simp
    from program_step_run_ok [OF assms(1) Cons.prems(1) valid step this] show ?thesis
      using Cons.IH [OF _ _ run] Cons.prems(2) by simp
  next
    case False
    then have "(o1, n1, p1) = (out, n', p')" using Cons.prems(3) step by (simp add: proceed_def)
    then show ?thesis using program_step_run_ok [OF assms(1) Cons.prems(1) valid step] assms(5) by simp
  qed
qed simp

section \<open>Invariants of a run\<close>

text \<open>What every step keeps, a run keeps.\<close>

lemma program_run_invariant:
  assumes "program_run L H G env evs n p = (out, n', p')" and "I p" and "list_all A evs"
    and step: "\<And>ev n p out n' p'. A ev \<Longrightarrow> I p \<Longrightarrow> program_step L H G env ev n p = (out, n', p') \<Longrightarrow> I p'"
  shows "I p'"
  using assms(1-3)
proof (induction evs arbitrary: n p)
  case (Cons ev evs)
  obtain o1 n1 p1 where s: "program_step L H G env ev n p = (o1, n1, p1)" using prod_cases3 by blast
  have "I p1" using step [OF _ Cons.prems(2) s] Cons.prems(3) by simp
  then show ?case using Cons s by (cases "o1 = Pending") (auto simp: proceed_def)
qed simp

subsection \<open>Keys\<close>

text \<open>Every private, public and preshared key of the device has the 32 bytes of its type in the source.\<close>

definition typed_state :: "('n, 't4, 't6) state \<Rightarrow> bool" where
  "typed_state st \<longleftrightarrow>
     (\<forall>k. if_private_key (interface_info st) = Some k \<longrightarrow> length k = 32) \<and>
     (\<forall>k. if_pub_key (interface_info st) = Some k \<longrightarrow> length k = 32) \<and>
     list_all (\<lambda>(k, _). length k = 32) (pubkey_map st) \<and>
     (\<forall>r. typed_info (info (heap st r)))"

lemma typed_state_configuration:
  assumes "configuration sv' = configuration sv" and "typed_state (shared_state sv)"
  shows "typed_state (shared_state sv')"
proof -
  have "typed_info (info (heap (shared_state sv') r)) = typed_info (info (heap (shared_state sv) r))" for r
    using assms(1) by (auto simp: configuration_def config_of_def peer_at_def typed_info_def dest!: fun_cong [where x = r])
  then show ?thesis using assms by (simp add: typed_state_def configuration_def)
qed

lemma list_all_delete: "list_all P m \<Longrightarrow> list_all P (AList.delete k m)"
  by (auto simp: list_all_iff AList.delete_eq)

lemma list_all_update: "list_all P m \<Longrightarrow> P (k, v) \<Longrightarrow> list_all P (AList.update k v m)"
  by (induction m) auto

lemma typed_handle_update:
  assumes "typed_state st" and "typed_update event" and "\<forall>k. length (G k) = 32"
  shows "typed_state (snd (handle_update C R G event st))"
proof (cases event)
  case (UpdatePeer new replace)
  have new: "typed_info new" using assms(2) by (simp add: UpdatePeer typed_update_def)
  have old: "typed_info (info (heap st r))" for r using assms(1) by (simp add: typed_state_def)
  show ?thesis
    using assms(1) new old unfolding UpdatePeer handle_update_def typed_state_def
    by (auto simp: update_existing_peer_def add_new_peer_def alloc_peer_def put_peer_def peer_new_def or_else_def Let_def
        typed_info_def list_all_update split: option.splits)
qed (use assms in \<open>auto simp: handle_update_def typed_state_def update_private_key_def clear_peer_refs_def typed_update_def Let_def
      list_all_delete split: option.splits\<close>)

lemma typed_apply_updates:
  assumes "typed_state st" and "list_all typed_update items" and "\<forall>k. length (G k) = 32"
  shows "typed_state (snd (snd (apply_updates C R G items st)))"
  using assms(1,2)
proof (induction items arbitrary: st)
  case (Cons item items)
  have "typed_state (snd (handle_update C R G item st))" using typed_handle_update [OF Cons.prems(1) _ assms(3)] Cons.prems(2) by simp
  then show ?case using Cons.IH Cons.prems(2)
    by (cases "handle_update C R G item st") (auto split: sum.splits prod.splits dest!: sndI)
qed simp

lemma typed_device_step:
  assumes "typed_state (shared_state sv)" and "\<forall>items. ev \<noteq> Configure items" and "device_step L G env ev n sv = (out, n', sv')"
  shows "typed_state (shared_state sv')"
proof (cases ev)
  case PollServer
  then show ?thesis
    using typed_state_configuration [OF server_poll_configuration assms(1), of L env n] assms(3) by simp
qed (use assms in \<open>auto split: sum.splits wg_error.splits\<close>)

lemma typed_program_step:
  assumes H: "lawful_hex H" and G: "\<forall>k. length (G k) = 32" and ev: "outside_event ev"
    and p: "typed_state (shared_state (device p))" and step: "program_step L H G env ev n p = (out, n', p')"
  shows "typed_state (shared_state (device p'))"
proof (cases ev)
  case (DeviceEvent e)
  then show ?thesis using typed_device_step [OF p, of e] ev step by (auto simp: outside_event_def split: prod.splits)
next
  case (Receives i chunk)
  show ?thesis
  proof (cases "i < length (connections p)")
    case True
    show ?thesis
    proof (cases rule: conn_receive_cases [of L H G "env n" chunk "connections p ! i" "device p"])
      case (idle out c')
      then show ?thesis using step p True by (auto simp: Receives)
    next
      case (command out command c' reply msgs st)
      have "typed_state st"
      proof (cases command)
        case (Set version items)
        then have "list_all typed_update items" using command(3) decoded_keys_typed [OF H] by blast
        from typed_apply_updates [OF p this G] show ?thesis using command(2) by (simp add: Set handle_command_def) (metis sndI)
      qed (use command(2) p in \<open>simp add: handle_command_def\<close>)
      then show ?thesis using step command(1) True by (auto simp: Receives)
    qed
  qed (use step p in \<open>simp add: Receives\<close>)
qed (use step p in \<open>auto split: if_splits sum.splits wg_error.splits\<close>)

subsection \<open>Connections\<close>

text \<open>The connections whose buffer starts with a newline have been served; no others have.\<close>

definition spent :: "connection \<Rightarrow> bool" where
  "spent c \<longleftrightarrow> conn_buf c \<noteq> [] \<and> hd (conn_buf c) = 10"

lemma spent_iff: "spent c \<longleftrightarrow> (\<exists>b. conn_buf c = 10 # b)"
  by (cases "conn_buf c") (auto simp: spent_def)

lemma length_filter_update:
  assumes "i < length xs" and "P (xs ! i) \<longrightarrow> P x"
  shows "length (filter P (xs[i := x])) = length (filter P xs) + (if P x \<and> \<not> P (xs ! i) then 1 else 0)"
proof -
  have xs: "xs = take i xs @ xs ! i # drop (Suc i) xs" using assms(1) by (rule id_take_nth_drop)
  have "xs[i := x] = take i xs @ x # drop (Suc i) xs" using assms(1) by (simp add: upd_conv_take_nth_drop)
  then show ?thesis using assms(2) by (subst (2) xs) auto
qed

lemma spent_program_step:
  assumes "length (served p) \<le> length (filter spent (connections p))" and "program_step L H G env ev n p = (out, n', p')"
  shows "length (served p') \<le> length (filter spent (connections p'))"
proof (cases ev)
  case (Receives i chunk)
  show ?thesis
  proof (cases "i < length (connections p)")
    case True
    show ?thesis
    proof (cases rule: conn_receive_cases [of L H G "env n" chunk "connections p ! i" "device p"])
      case (idle out c')
      then show ?thesis using assms length_filter_update [OF True, of spent c'] True by (auto simp: Receives spent_iff)
    next
      case (command out command c' reply msgs st)
      then show ?thesis using assms length_filter_update [OF True, of spent c'] True by (auto simp: Receives spent_iff)
    qed
  qed (use assms in \<open>simp add: Receives\<close>)
next
  case (Disconnects i)
  show ?thesis
  proof (cases "i < length (connections p)")
    case True
    then show ?thesis using assms length_filter_update [OF True, of spent "(connections p ! i)\<lparr>conn_open := False\<rparr>"]
      by (auto simp: Disconnects spent_def)
  qed (use assms in \<open>simp add: Disconnects\<close>)
qed (use assms in \<open>auto split: prod.splits sum.splits wg_error.splits\<close>)

subsection \<open>Panics\<close>

lemma conn_receive_panics:
  assumes "lawful_hex H" and "conn_receive L H G E chunk c sv = (Stopped e, commands, c', sv')"
  shows "e = Panicked UnwrapFailed \<and> fst (config_decode H (conn_buf c')) = Inl e"
proof -
  let ?c = "c\<lparr>conn_buf := conn_buf c @ chunk\<rparr>"
  have open_: "conn_open c" using assms(2) by (cases "conn_open c") (simp_all add: conn_receive_def)
  show ?thesis
  proof (cases rule: conn_serve_cases [of L H G E ?c sv])
    case (none r)
    then have r: "outcome_of r = Stopped e" "conn_buf c' = snd (config_decode H (conn_buf ?c))"
      using assms(2) open_ by (auto simp: conn_receive_def)
    then obtain e' where e': "r = Inl e'" "e' = e" "\<nexists>m. e = Err m" by (cases r) (auto simp: outcome_of_def split: wg_error.splits)
    then have "config_decode H (conn_buf ?c) = (Inl e, conn_buf c')" using none(2) r(2) by (simp add: prod_eq_iff)
    from decode_panics [OF assms(1) this] this e'(3) show ?thesis by auto
  next
    case (one r command buf reply msgs st)
    then have r: "outcome_of r = Stopped e" "conn_buf c' = 10 # buf" using assms(2) open_ by (auto simp: conn_receive_def)
    then show ?thesis using one(4) by (auto simp: outcome_of_def)
  qed
qed

lemma program_step_panics:
  assumes "lawful_hex H" and "good_world L V4 V6 env" and "run_ok L V4 V6 env n (device p)" and "valid_program_event ev"
    and "program_step L H G env ev n p = (Stopped (Panicked x), n', p')"
  shows "\<exists>c \<in> set (connections p'). fst (config_decode H (conn_buf c)) = Inl (Panicked x)"
proof (cases ev)
  case (DeviceEvent e)
  then have "valid_event e" using assms(4) by (simp add: valid_program_event_def)
  from device_step_fine [OF assms(2,3) this, of G] show ?thesis
    using assms(5) by (auto simp: DeviceEvent fine_def no_panic_outcome_def split: prod.splits)
next
  case (Receives i chunk)
  obtain out commands c sv where r: "conn_receive L H G (env n) chunk (connections p ! i) (device p) = (out, commands, c, sv)"
    using prod_cases4 by blast
  have i: "i < length (connections p)" using assms(5) by (cases "i < length (connections p)") (simp_all add: Receives)
  then have "out = Stopped (Panicked x)" "connections p' = (connections p)[i := c]" using assms(5) r by (auto simp: Receives)
  then show ?thesis using conn_receive_panics [OF assms(1) r [unfolded \<open>out = _\<close>]] i set_update_memI by fastforce
qed (use assms(5) in \<open>auto split: sum.splits wg_error.splits\<close>)

lemma program_run_panics:
  assumes "lawful_hex H" and "good_world L V4 V6 env" and "run_ok L V4 V6 env n (device p)" and "list_all valid_program_event evs"
    and "program_run L H G env evs n p = (Stopped (Panicked x), n', p')" and "list_all valid_command (served p')"
  shows "\<exists>c \<in> set (connections p'). fst (config_decode H (conn_buf c)) = Inl (Panicked x)"
  using assms(3,4,5)
proof (induction evs arbitrary: n p)
  case (Cons ev evs)
  obtain o1 n1 p1 where step: "program_step L H G env ev n p = (o1, n1, p1)" using prod_cases3 by blast
  have valid: "valid_program_event ev" using Cons.prems(2) by simp
  show ?case
  proof (cases "o1 = Pending")
    case True
    then have run: "program_run L H G env evs n1 p1 = (Stopped (Panicked x), n', p')" using Cons.prems(3) step by (simp add: proceed_def)
    obtain cs where "served p' = served p1 @ cs" using program_run_served [OF run] .
    then have "list_all valid_command (served p1)" using assms(6) by simp
    from program_step_run_ok [OF assms(2) Cons.prems(1) valid step this] show ?thesis
      using Cons.IH [OF _ _ run] Cons.prems(2) by simp
  next
    case False
    then have "program_step L H G env ev n p = (Stopped (Panicked x), n', p')" using Cons.prems(3) step by (simp add: proceed_def)
    from program_step_panics [OF assms(1,2) Cons.prems(1) valid this] show ?thesis .
  qed
qed simp

section \<open>Properties\<close>

text \<open>A run for the witnesses: a client connects and sends back a saved configuration, and the server is
  polled.\<close>

definition saved_text :: bytes where
  "saved_text = as_bytes (''set=1'' @ [newline] @ get_reply test_hex 5 6 saved_device)"

definition test_run ::
  "(bytes \<Rightarrow> bytes) \<Rightarrow> outcome \<times> nat \<times> (clear_session, ((32 word \<times> nat) \<times> peer_ref) list, ((128 word \<times> nat) \<times> peer_ref) list) program" where
  "test_run G =
     program_run test_libs test_hex G test_env [Connects, Receives 0 saved_text, DeviceEvent PollServer] 0 (program_start test_libs 0)"

lemma test_run_served: "served (snd (snd (test_run G))) = [Set 1 (restored_updates saved_device)]"
proof -
  let ?sv = "interface_start test_libs 0"
  have "printable_state saved_device" by (simp add: saved_device_def printable_state_def printable_def peer_new_def is_ipv4_def)
  from decode_saved [OF lawful_test_hex this, of 5 6]
  have decode: "config_decode test_hex saved_text = (Inr (Some (Set 1 (restored_updates saved_device))), [10])"
    by (simp add: saved_text_def as_bytes_def)
  obtain reply msgs st where h: "handle_command test_hex (crypto_lib test_libs) (router_lib test_libs) G (e_now (test_env 0))
      (e_wall (test_env 0)) (Set 1 (restored_updates saved_device)) (shared_state ?sv) = (reply, msgs, st)" by (metis prod_cases3)
  have "conn_receive test_libs test_hex G (test_env 0) saved_text conn_new ?sv =
      (Pending, [Set 1 (restored_updates saved_device)], conn_new\<lparr>conn_buf := [10], conn_out := config_encode reply []\<rparr>,
       ?sv\<lparr>shared_state := st, channel := channel ?sv @ msgs\<rparr>)"
    using conn_receive_command [OF decode _ _ h, of conn_new saved_text] by (simp add: conn_new_def)
  then show ?thesis by (simp add: test_run_def program_start_def proceed_def split: prod.split)
qed

lemma test_run_valid: "list_all valid_command (served (snd (snd (test_run G))))"
  by (simp add: test_run_served valid_command_def restored_updates_def saved_device_def peer_new_def Config.reported_def
      valid_update_def valid_net_def)







text \<open>C37: a connection serves at most one command: in every run there are at least as many connections as
  commands that were served, because the decoder leaves the second newline of a command in the buffer.\<close>

theorem one_command_per_connection:
  "let (out, n, p) = program_run L H G env evs 0 (program_start L t) in length (served p) \<le> length (connections p)"
proof -
  obtain out n p where run: "program_run L H G env evs 0 (program_start L t) = (out, n, p)" using prod_cases3 by blast
  have "length (served p) \<le> length (filter spent (connections p))"
    by (rule program_run_invariant [OF run, where A = "\<lambda>_. True" and I = "\<lambda>p. length (served p) \<le> length (filter spent (connections p))"])
      (auto simp: program_start_def list_all_iff intro: spent_program_step)
  then show ?thesis using order_trans [OF _ length_filter_le] by (simp add: run) blast
qed



end
