(* ===== verification/ReplayTest.thy ===== *)
theory ReplayTest
  imports AntiReplay
begin

text \<open>
  The test of \<open>src/anti_replay.rs\<close>, translated: numbers in order, a jump of the window, numbers inside and
  behind it, and the end of the range of \<open>u64\<close>. The specification of the filter decides it.
\<close>

section \<open>The loops of the test\<close>

text \<open>\<open>for i in a..b\<close>\<close>

definition u64_range :: "nat \<Rightarrow> nat \<Rightarrow> u64 list" where
  "u64_range a b = map word_of_nat [a..<b]"

text \<open>\<open>ar.update(i).unwrap()\<close>; \<open>None\<close> is a panic.\<close>

fun update_each :: "u64 list \<Rightarrow> anti_replay \<Rightarrow> anti_replay option" where
  "update_each [] ar = Some ar"
| "update_each (i # js) ar = (case ar_update ar i of (Inr _, ar) \<Rightarrow> update_each js ar | (Inl _, _) \<Rightarrow> None)"

text \<open>\<open>assert!(!ar.check(i))\<close>\<close>

definition check_none :: "u64 list \<Rightarrow> anti_replay \<Rightarrow> anti_replay option" where
  "check_none js ar = (if list_all (\<lambda>i. \<not> ar_check ar i) js then Some ar else None)"

text \<open>\<open>assert!(ar.update(i).is_err())\<close>\<close>

fun update_none :: "u64 list \<Rightarrow> anti_replay \<Rightarrow> anti_replay option" where
  "update_none [] ar = Some ar"
| "update_none (i # js) ar = (case ar_update ar i of (Inr _, _) \<Rightarrow> None | (Inl _, ar) \<Rightarrow> update_none js ar)"

definition anti_replay_test :: "anti_replay option" where
  "anti_replay_test =
     (let W = unat WINDOW_SIZE; last = unat (- 1 :: u64) in
      Option.bind (update_each (u64_range 0 20000) ar_new) (\<lambda>ar.
      Option.bind (check_none (rev (u64_range 0 20000)) ar) (\<lambda>ar.
      Option.bind (update_each [65536] ar) (\<lambda>ar.
      Option.bind (update_each (u64_range (65536 - W) 65535) ar) (\<lambda>ar.
      Option.bind (check_none (u64_range (65536 - 10 * W) 65535) ar) (\<lambda>ar.
      Option.bind (update_each [66000] ar) (\<lambda>ar.
      Option.bind (update_each (u64_range 65537 66000) ar) (\<lambda>ar.
      Option.bind (update_none (u64_range 65537 66000) ar) (\<lambda>ar.
      Option.bind (update_each [- 1] ar) (\<lambda>ar.
      Option.bind (check_none [- 1] ar) (\<lambda>ar.
      Option.bind (update_each (u64_range (last - W) last) ar) (\<lambda>ar.
        check_none (u64_range (last - 20 * W) last) ar))))))))))))"

section \<open>What the loops do\<close>

lemma u64_range_mem: "b \<le> 2 ^ 64 \<Longrightarrow> x \<in> set (u64_range a b) \<longleftrightarrow> a \<le> unat x \<and> unat x < b"
proof
  assume b: "b \<le> 2 ^ 64"
  show "x \<in> set (u64_range a b) \<Longrightarrow> a \<le> unat x \<and> unat x < b"
    using b by (auto simp: u64_range_def unat_of_nat take_bit_nat_eq_self)
  assume "a \<le> unat x \<and> unat x < b"
  then have "unat x \<in> set [a..<b]" "x = word_of_nat (unat x)" by simp_all
  then show "x \<in> set (u64_range a b)" unfolding u64_range_def by (metis image_eqI list.set_map)
qed

lemma top_seq_append: "top_seq (xs @ ys) = max (top_seq xs) (top_seq ys)"
  by (induction xs) auto

lemma top_seq_le: "(\<And>x. x \<in> set hist \<Longrightarrow> unat x \<le> n) \<Longrightarrow> top_seq hist \<le> n"
  by (induction hist) auto

text \<open>A range that is new to the filter and starts inside the window is accepted as a whole.\<close>

lemma update_each_range:
  assumes "ar_models hist ar" and "b \<le> 2 ^ 64" and "\<forall>x \<in> set hist. unat x < a \<or> b \<le> unat x" and "top_seq hist \<le> a + 2016"
  shows "\<exists>ar'. update_each (u64_range a b) ar = Some ar' \<and> ar_models (rev (u64_range a b) @ hist) ar'"
proof (cases "a \<le> b")
  case True
  have append: "update_each (xs @ ys) ar = Option.bind (update_each xs ar) (update_each ys)" for xs ys ar
    by (induction xs arbitrary: ar) (auto split: prod.split sum.split)
  show ?thesis using True assms(2,3)
  proof (induction b rule: dec_induct)
    case base
    then show ?case using assms(1) by (simp add: u64_range_def)
  next
    case (step b)
    have "\<forall>x \<in> set hist. unat x < a \<or> b \<le> unat x" using step.prems(2) by auto
    with step obtain ar' where ar': "update_each (u64_range a b) ar = Some ar'" "ar_models (rev (u64_range a b) @ hist) ar'" by auto
    have split: "u64_range a (Suc b) = u64_range a b @ [word_of_nat b]" using step.hyps(1) by (simp add: u64_range_def)
    have b: "unat (word_of_nat b :: u64) = b" using step.prems(1) by (simp add: unat_of_nat take_bit_nat_eq_self)
    have bound: "unat x < b" if "x \<in> set (u64_range a b)" for x using that u64_range_mem [of b x a] step.prems(1) by simp
    have "top_seq (rev (u64_range a b)) \<le> b" by (rule top_seq_le) (use bound in \<open>auto dest: less_imp_le\<close>)
    then have "window_accepts (rev (u64_range a b) @ hist) (word_of_nat b)"
      using bound step.prems(2) assms(4) step.hyps b by (auto simp: window_accepts_def top_seq_append) fastforce
    with ar'(2) have "ar_models (rev (u64_range a (Suc b)) @ hist) (ar_update_store ar' (word_of_nat b))"
      "update_each [word_of_nat b] ar' = Some (ar_update_store ar' (word_of_nat b))"
      using ar_models_store by (simp_all add: split ar_update_def ar_check_iff)
    then show ?case using ar'(1) by (auto simp: split append)
  qed
next
  case False
  then show ?thesis using assms(1) by (simp add: u64_range_def)
qed

text \<open>The filter with the numbers it has accepted.\<close>

definition ar_holds :: "nat set \<Rightarrow> anti_replay \<Rightarrow> bool" where
  "ar_holds S ar \<longleftrightarrow> (\<exists>hist. ar_models hist ar \<and> unat ` set hist = S)"

lemma holds_new: "ar_holds {} ar_new"
  using ar_models_new by (auto simp: ar_holds_def)

lemma holds_range:
  assumes "ar_holds S ar" and "b \<le> 2 ^ 64" and "\<And>n. n \<in> S \<Longrightarrow> (n < a \<or> b \<le> n) \<and> n \<le> a + 2016"
  obtains ar' where "update_each (u64_range a b) ar = Some ar'" "ar_holds (S \<union> {a..<b}) ar'"
proof -
  obtain hist where hist: "ar_models hist ar" "unat ` set hist = S" using assms(1) by (auto simp: ar_holds_def)
  have "\<forall>x \<in> set hist. unat x < a \<or> b \<le> unat x" "top_seq hist \<le> a + 2016"
    using assms(3) hist(2) by (auto intro: top_seq_le)
  from update_each_range [OF hist(1) assms(2) this] obtain ar' where
    ar': "update_each (u64_range a b) ar = Some ar'" "ar_models (rev (u64_range a b) @ hist) ar'" by blast
  have "unat ` set (u64_range a b) = {a..<b}"
    using assms(2) by (force simp: u64_range_def unat_of_nat take_bit_nat_eq_self image_image)
  then have "ar_holds (S \<union> {a..<b}) ar'" using ar'(2) hist(2) unfolding ar_holds_def by (intro exI [of _ "rev (u64_range a b) @ hist"]) auto
  with ar'(1) show thesis by (rule that)
qed

lemma holds_one:
  assumes "ar_holds S ar" and "unat x \<notin> S" and "\<And>n. n \<in> S \<Longrightarrow> n \<le> unat x + 2016"
  obtains ar' where "update_each [x] ar = Some ar'" "ar_holds (insert (unat x) S) ar'"
proof -
  have "u64_range (unat x) (Suc (unat x)) = [x]" by (simp add: u64_range_def)
  moreover have "Suc (unat x) \<le> 2 ^ 64" using unat_u64_less [of x] by simp
  ultimately show thesis using holds_range [OF assms(1), of "Suc (unat x)" "unat x"] assms(2,3) that
    by (metis Suc_leI atLeastLessThan_singleton insert_is_Un linorder_neqE_nat sup_commute)
qed

text \<open>Accepted numbers and numbers behind the window do not pass, and change nothing.\<close>

lemma holds_reject:
  assumes "ar_holds S ar" and "unat x \<in> S \<or> (\<exists>n \<in> S. unat x + 2016 < n)"
  shows "\<not> ar_check ar x"
proof -
  obtain hist where hist: "ar_models hist ar" "unat ` set hist = S" using assms(1) by (auto simp: ar_holds_def)
  have "\<not> window_accepts hist x" using assms(2)
  proof
    assume "unat x \<in> S"
    then have "x \<in> set hist" using hist(2) by (auto dest: unsigned_word_eqI)
    then show ?thesis by (simp add: window_accepts_def)
  next
    assume "\<exists>n \<in> S. unat x + 2016 < n"
    then obtain y where "y \<in> set hist" "unat x + 2016 < unat y" using hist(2) by auto
    then show ?thesis using top_seq_ge [of y hist] by (simp add: window_accepts_def)
  qed
  then show ?thesis using ar_check_iff [OF hist(1)] by simp
qed

lemma holds_check_none:
  assumes "ar_holds S ar" and "\<And>x. x \<in> set js \<Longrightarrow> unat x \<in> S \<or> (\<exists>n \<in> S. unat x + 2016 < n)"
  shows "check_none js ar = Some ar" "update_none js ar = Some ar"
proof -
  have "\<forall>x \<in> set js. \<not> ar_check ar x" using holds_reject [OF assms(1)] assms(2) by blast
  then show "check_none js ar = Some ar" "update_none js ar = Some ar"
    by (simp_all add: check_none_def list_all_iff) (induction js, auto simp: ar_update_def)
qed

text \<open>The test passes.\<close>

lemma anti_replay_test_passes: "anti_replay_test \<noteq> None"
proof -
  have W: "unat WINDOW_SIZE = 2016" and last: "unat (- 1 :: u64) = 18446744073709551615"
    by (simp_all add: unsigned_minus_1_eq_mask mask_eq_exp_minus_1)
  obtain a where a: "update_each (u64_range 0 20000) ar_new = Some a" "ar_holds {0..<20000} a"
    by (rule holds_range [OF holds_new, of 20000 0]) auto
  have a': "check_none (rev (u64_range 0 20000)) a = Some a"
    by (rule holds_check_none [OF a(2)]) (simp add: u64_range_mem)
  obtain b where b: "update_each [65536] a = Some b" "ar_holds (insert 65536 {0..<20000}) b"
    by (rule holds_one [OF a(2), of 65536]) auto
  obtain c where c: "update_each (u64_range 63520 65535) b = Some c" "ar_holds (insert 65536 {0..<20000} \<union> {63520..<65535}) c"
    by (rule holds_range [OF b(2), of 65535 63520]) auto
  have c': "check_none (u64_range 45376 65535) c = Some c"
    by (rule holds_check_none [OF c(2)]) (auto simp: u64_range_mem)
  obtain d where d: "update_each [66000] c = Some d" "ar_holds (insert 66000 (insert 65536 {0..<20000} \<union> {63520..<65535})) d"
    by (rule holds_one [OF c(2), of 66000]) auto
  let ?S = "insert 66000 (insert 65536 {0..<20000} \<union> {63520..<65535}) \<union> {65537..<66000}"
  obtain e where e: "update_each (u64_range 65537 66000) d = Some e" "ar_holds ?S e"
    by (rule holds_range [OF d(2), of 66000 65537]) auto
  have e': "update_none (u64_range 65537 66000) e = Some e"
    by (rule holds_check_none [OF e(2)]) (auto simp: u64_range_mem)
  let ?T = "insert 18446744073709551615 ?S"
  obtain f where f: "update_each [- 1] e = Some f" "ar_holds ?T f"
    by (rule holds_one [OF e(2), of "- 1"]) (auto simp: last)
  have f': "check_none [- 1] f = Some f" by (rule holds_check_none [OF f(2)]) (simp add: last)
  obtain g where g: "update_each (u64_range 18446744073709549599 18446744073709551615) f = Some g"
    "ar_holds (?T \<union> {18446744073709549599..<18446744073709551615}) g"
    by (rule holds_range [OF f(2), of 18446744073709551615 18446744073709549599]) auto
  have g': "check_none (u64_range 18446744073709511295 18446744073709551615) g = Some g"
    by (rule holds_check_none [OF g(2)]) (auto simp: u64_range_mem)
  show ?thesis unfolding anti_replay_test_def Let_def W last
    by (simp add: a(1) a' b(1) c(1) c' d(1) e(1) e' f(1) f' g(1) g' del: update_each.simps update_none.simps)
qed

end
