(* ===== verification/ChaChaPoly.thy ===== *)
theory ChaChaPoly
  imports XChaCha
begin

text \<open>
  The tests of \<open>src/xchacha20poly1305.rs\<close>. The AEAD of the crate is a parameter of the development; here it is
  instantiated with ChaCha20-Poly1305 as RFC 8439 defines it, and the vectors of the test are evaluated. The
  rounds are evaluated on lists of bits, for which the simplifier needs one rewrite step a bit.
\<close>

section \<open>ChaCha20-Poly1305 of RFC 8439\<close>

definition chacha20_block :: "bytes \<Rightarrow> nat \<Rightarrow> bytes \<Rightarrow> bytes" where
  "chacha20_block key counter nonce =
     (let s = words_of (sigma @ key @ le_bytes 4 counter @ nonce)
      in concat (map2 (\<lambda>x y. le_bytes 4 (unat (x + y))) ((double_round ^^ 10) s) s))"

definition chacha20_stream :: "bytes \<Rightarrow> bytes \<Rightarrow> nat \<Rightarrow> bytes" where
  "chacha20_stream key nonce n = concat (map (\<lambda>i. chacha20_block key (Suc i) nonce) [0..<(n + 63) div 64])"

definition chacha20 :: "bytes \<Rightarrow> bytes \<Rightarrow> bytes \<Rightarrow> bytes" where
  "chacha20 key nonce input = map2 (XOR) input (chacha20_stream key nonce (length input))"

text \<open>The message in blocks of 16 bytes, each with a final 1, as the coefficients of a polynomial in \<open>r\<close>.\<close>

function poly1305_acc :: "nat \<Rightarrow> nat \<Rightarrow> bytes \<Rightarrow> nat" where
  "poly1305_acc r acc msg =
     (if msg = [] then acc
      else poly1305_acc r ((acc + le_val (take 16 msg @ [1])) * r mod (2 ^ 130 - 5)) (drop 16 msg))"
  by pat_completeness auto
termination
  by (relation "measure (\<lambda>(r, acc, msg). length msg)") auto

declare poly1305_acc.simps [simp del]

definition poly1305 :: "bytes \<Rightarrow> bytes \<Rightarrow> bytes" where
  "poly1305 key msg =
     le_bytes 16 (poly1305_acc (le_val (take 16 key) AND 0x0ffffffc0ffffffc0ffffffc0fffffff) 0 msg + le_val (drop 16 key))"

definition pad16 :: "bytes \<Rightarrow> bytes" where
  "pad16 bs = bs @ replicate ((16 - length bs mod 16) mod 16) 0"

definition aead_tag :: "bytes \<Rightarrow> bytes \<Rightarrow> bytes \<Rightarrow> bytes \<Rightarrow> bytes" where
  "aead_tag key nonce aad ct =
     poly1305 (take 32 (chacha20_block key 0 nonce))
       (pad16 aad @ pad16 ct @ le_bytes 8 (length aad) @ le_bytes 8 (length ct))"

definition rfc_enc :: aead_enc where
  "rfc_enc key nonce aad pt = (let ct = chacha20 key nonce pt in (ct, aead_tag key nonce aad ct))"

definition rfc_dec :: aead_dec where
  "rfc_dec key nonce aad ct tag = (if aead_tag key nonce aad ct = tag then Some (chacha20 key nonce ct) else None)"

text \<open>It is a lawful AEAD.\<close>

lemma length_words_of: "length (words_of bs) = 16"
  by (simp add: words_of_def)

lemma length_qround [simp]: "length (qround_at i j k l s) = length s"
  by (simp add: qround_at_def split_beta)

lemma length_double_rounds: "length ((double_round ^^ n) s) = length s"
  by (induction n) (simp_all add: double_round_def Let_def)

lemma length_block: "length (chacha20_block key counter nonce) = 64"
proof -
  have "map length (map2 (\<lambda>x y. le_bytes 4 (unat (x + y))) xs ys) = replicate (length xs) 4"
    if "length xs = length ys" for xs ys :: "u32 list" using that by (induction xs ys rule: list_induct2) simp_all
  from this [of "(double_round ^^ 10) (words_of (sigma @ key @ le_bytes 4 counter @ nonce))"
      "words_of (sigma @ key @ le_bytes 4 counter @ nonce)"]
  show ?thesis
    by (simp add: chacha20_block_def Let_def length_concat length_double_rounds length_words_of sum_list_replicate del: map_map funpow.simps)
qed

lemma length_stream: "n \<le> length (chacha20_stream key nonce n)"
proof -
  have "length (concat (map (\<lambda>i. chacha20_block key (Suc i) nonce) [0..<m])) = 64 * m" for m
    by (induction m) (simp_all add: length_block)
  then have "length (chacha20_stream key nonce n) = 64 * ((n + 63) div 64)" unfolding chacha20_stream_def .
  then show ?thesis by simp
qed

lemma length_chacha20: "length (chacha20 key nonce pt) = length pt"
  using length_stream [of "length pt" key nonce] by (simp add: chacha20_def)

lemma chacha20_involution: "chacha20 key nonce (chacha20 key nonce pt) = pt"
proof -
  have xor: "length xs \<le> length ks \<Longrightarrow> map2 (XOR) (map2 (XOR) xs ks) ks = xs" for xs ks :: bytes
  proof (induction xs arbitrary: ks)
    case (Cons x xs)
    then show ?case by (cases ks) (simp_all add: xor.assoc)
  qed simp
  have "chacha20 key nonce (chacha20 key nonce pt) = map2 (XOR) (chacha20 key nonce pt) (chacha20_stream key nonce (length pt))"
    by (simp only: chacha20_def [of key nonce "chacha20 key nonce pt"] length_chacha20)
  also have "\<dots> = pt" unfolding chacha20_def by (rule xor) (rule length_stream)
  finally show ?thesis .
qed

lemma lawful_rfc: "lawful_aead rfc_enc rfc_dec"
  unfolding lawful_aead_def rfc_enc_def rfc_dec_def Let_def prod.inject
  by (auto simp only: length_chacha20 chacha20_involution aead_tag_def poly1305_def length_le_bytes if_True simp_thms)

section \<open>The rounds on bits\<close>

text \<open>A word as the list of its bits, the least significant first.\<close>

definition word_of_bits :: "bool list \<Rightarrow> u32" where
  "word_of_bits bs = horner_sum of_bool 2 bs"

fun xor_bits :: "bool list \<Rightarrow> bool list \<Rightarrow> bool list" where
  "xor_bits (x # xs) (y # ys) = (x \<noteq> y) # xor_bits xs ys"
| "xor_bits _ _ = []"

fun add_bits :: "bool \<Rightarrow> bool list \<Rightarrow> bool list \<Rightarrow> bool list" where
  "add_bits c (x # xs) (y # ys) = ((x \<noteq> y) \<noteq> c) # add_bits (x \<and> y \<or> c \<and> (x \<or> y)) xs ys"
| "add_bits c _ _ = []"

definition rot_bits :: "nat \<Rightarrow> bool list \<Rightarrow> bool list" where
  "rot_bits k bs = drop (32 - k) bs @ take (32 - k) bs"

fun nat_bits :: "nat \<Rightarrow> nat \<Rightarrow> bool list" where
  "nat_bits 0 n = []"
| "nat_bits (Suc k) n = odd n # nat_bits k (n div 2)"

lemma length_bits [simp]:
  "length (xor_bits xs ys) = min (length xs) (length ys)" "length (add_bits c xs ys) = min (length xs) (length ys)"
  "k \<le> 32 \<Longrightarrow> length bs = 32 \<Longrightarrow> length (rot_bits k bs) = 32" "length (nat_bits k n) = k"
proof -
  show "length (xor_bits xs ys) = min (length xs) (length ys)" by (induction xs ys rule: xor_bits.induct) simp_all
  show "length (add_bits c xs ys) = min (length xs) (length ys)" by (induction c xs ys rule: add_bits.induct) simp_all
  show "length (nat_bits k n) = k" by (induction k n rule: nat_bits.induct) simp_all
qed (simp add: rot_bits_def)

lemma xor_bits_word:
  assumes "length xs = length ys"
  shows "word_of_bits (xor_bits xs ys) = word_of_bits xs XOR word_of_bits ys"
proof -
  have nth: "xor_bits xs ys ! n = (xs ! n \<noteq> ys ! n)" if "n < length xs" for n
    using assms that by (induction xs ys arbitrary: n rule: xor_bits.induct) (auto simp: nth_Cons split: nat.split)
  show ?thesis
    by (rule bit_word_eqI) (auto simp: word_of_bits_def bit_horner_sum_bit_iff bit_xor_iff nth assms)
qed

lemma add_bits_carry:
  fixes c :: bool
  assumes "length xs = length ys"
  shows "\<exists>k. horner_sum of_bool 2 xs + horner_sum of_bool 2 ys + of_bool c =
    (horner_sum of_bool 2 (add_bits c xs ys) + k * 2 ^ length xs :: u32)"
  using assms
proof (induction c xs ys rule: add_bits.induct)
  case (1 c x xs y ys)
  let ?h = "horner_sum of_bool 2 :: bool list \<Rightarrow> u32"
  let ?c = "x \<and> y \<or> c \<and> (x \<or> y)"
  obtain k where k: "?h xs + ?h ys + of_bool ?c = ?h (add_bits ?c xs ys) + k * 2 ^ length xs" using 1 by auto
  have "?h (x # xs) + ?h (y # ys) + of_bool c = of_bool ((x \<noteq> y) \<noteq> c) + 2 * (?h xs + ?h ys + of_bool ?c)"
    by (cases x; cases y; cases c) (simp_all add: algebra_simps)
  also have "\<dots> = ?h (add_bits c (x # xs) (y # ys)) + k * 2 ^ length (x # xs)" unfolding k by (simp add: algebra_simps)
  finally show ?case by blast
qed (auto intro: exI [of _ "of_bool c" for c])

lemma add_bits_word:
  assumes "length xs = 32" and "length ys = 32"
  shows "word_of_bits (add_bits False xs ys) = word_of_bits xs + word_of_bits ys"
proof -
  have "length xs = length ys" using assms by simp
  from add_bits_carry [OF this, of False] obtain k :: u32 where
    k: "word_of_bits xs + word_of_bits ys = word_of_bits (add_bits False xs ys) + k * 2 ^ 32"
    using assms by (auto simp: word_of_bits_def)
  have "(2 :: u32) ^ 32 = 0" using word_exp_length_eq_0 [where ?'a = 32] by simp
  then show ?thesis using k by (simp only: mult_zero_right add_0_right)
qed

lemma rot_bits_word:
  assumes "length bs = 32" and "0 < k" and "k < 32"
  shows "word_of_bits (rot_bits k bs) = rotl32 k (word_of_bits bs)"
proof (rule bit_word_eqI)
  fix n
  assume "n < LENGTH(32)"
  then have n: "n < 32" by simp
  show "bit (word_of_bits (rot_bits k bs)) n = bit (rotl32 k (word_of_bits bs)) n"
    using assms n
    by (auto simp: word_of_bits_def rot_bits_def rotl32_def bit_horner_sum_bit_iff bit_or_iff bit_push_bit_iff bit_drop_bit_eq nth_append)
qed

lemma nat_bits_word: "word_of_bits (nat_bits 32 n) = word_of_nat n"
proof -
  have "\<exists>k. word_of_nat n = (horner_sum of_bool 2 (nat_bits m n) + k * 2 ^ m :: u32)" for m n
  proof (induction m n rule: nat_bits.induct)
    case (2 m n)
    then obtain k :: u32 where k: "word_of_nat (n div 2) = horner_sum of_bool 2 (nat_bits m (n div 2)) + k * 2 ^ m" by blast
    have "n = of_bool (odd n) + 2 * (n div 2)" by (cases "odd n") (auto elim!: oddE evenE)
    then have "(word_of_nat n :: u32) = of_bool (odd n) + 2 * word_of_nat (n div 2)"
      by (metis of_nat_add of_nat_mult of_nat_numeral of_nat_of_bool)
    then show ?case unfolding k by (auto simp: algebra_simps)
  qed auto
  from this [of n 32] obtain k :: u32 where "word_of_nat n = (horner_sum of_bool 2 (nat_bits 32 n) + k * 2 ^ 32 :: u32)" by blast
  moreover have "(2 :: u32) ^ 32 = 0" using word_exp_length_eq_0 [where ?'a = 32] by simp
  ultimately show ?thesis by (simp only: word_of_bits_def mult_zero_right add_0_right)
qed

text \<open>The quarter round, one operation after the other.\<close>

definition qbits7 :: "bool list \<Rightarrow> bool list \<Rightarrow> bool list \<Rightarrow> bool list \<Rightarrow> bool list \<times> bool list \<times> bool list \<times> bool list" where
  "qbits7 a b c d = (a, rot_bits 7 (xor_bits b c), c, d)"
definition qbits6 where "qbits6 a b c d = qbits7 a b (add_bits False c d) d"
definition qbits5 where "qbits5 a b c d = qbits6 a b c (rot_bits 8 (xor_bits d a))"
definition qbits4 where "qbits4 a b c d = qbits5 (add_bits False a b) b c d"
definition qbits3 where "qbits3 a b c d = qbits4 a (rot_bits 12 (xor_bits b c)) c d"
definition qbits2 where "qbits2 a b c d = qbits3 a b (add_bits False c d) d"
definition qbits1 where "qbits1 a b c d = qbits2 a b c (rot_bits 16 (xor_bits d a))"
definition quarter_bits where "quarter_bits a b c d = qbits1 (add_bits False a b) b c d"

lemmas quarter_bits_defs = quarter_bits_def qbits1_def qbits2_def qbits3_def qbits4_def qbits5_def qbits6_def qbits7_def

definition qround_bits :: "nat \<Rightarrow> nat \<Rightarrow> nat \<Rightarrow> nat \<Rightarrow> bool list list \<Rightarrow> bool list list" where
  "qround_bits i j k l S = (case quarter_bits (S ! i) (S ! j) (S ! k) (S ! l) of (a, b, c, d) \<Rightarrow> S[i := a,
    j := b, k := c, l := d])"

definition double_bits :: "bool list list \<Rightarrow> bool list list" where
  "double_bits S =
     qround_bits 3 4 9 14 (qround_bits 2 7 8 13 (qround_bits 1 6 11 12 (qround_bits 0 5 10 15
       (qround_bits 3 7 11 15 (qround_bits 2 6 10 14 (qround_bits 1 5 9 13 (qround_bits 0 4 8 12 S)))))))"

definition state_bits :: "bool list list \<Rightarrow> bool" where
  "state_bits S \<longleftrightarrow> length S = 16 \<and> (\<forall>bs \<in> set S. length bs = 32)"

lemma quarter_bits_word:
  assumes "length a = 32" and "length b = 32" and "length c = 32" and "length d = 32"
  shows "case quarter_bits a b c d of (a', b', c', d') \<Rightarrow>
    length a' = 32 \<and> length b' = 32 \<and> length c' = 32 \<and> length d' = 32 \<and>
    quarter_round (word_of_bits a) (word_of_bits b) (word_of_bits c) (word_of_bits d) =
      (word_of_bits a', word_of_bits b', word_of_bits c', word_of_bits d')"
proof -
  let ?w = word_of_bits
  define a1 where "a1 = add_bits False a b"
  define d1 where "d1 = rot_bits 16 (xor_bits d a1)"
  define c1 where "c1 = add_bits False c d1"
  define b1 where "b1 = rot_bits 12 (xor_bits b c1)"
  define a2 where "a2 = add_bits False a1 b1"
  define d2 where "d2 = rot_bits 8 (xor_bits d1 a2)"
  define c2 where "c2 = add_bits False c1 d2"
  define b2 where "b2 = rot_bits 7 (xor_bits b1 c2)"
  note defs = a1_def d1_def c1_def b1_def a2_def d2_def c2_def b2_def
  have a1: "length a1 = 32" "?w a1 = ?w a + ?w b" using assms by (simp_all add: a1_def add_bits_word)
  have d1: "length d1 = 32" "?w d1 = rotl32 16 (?w d XOR ?w a1)" using assms a1 by (simp_all add: d1_def rot_bits_word xor_bits_word)
  have c1: "length c1 = 32" "?w c1 = ?w c + ?w d1" using assms d1 by (simp_all add: c1_def add_bits_word)
  have b1: "length b1 = 32" "?w b1 = rotl32 12 (?w b XOR ?w c1)" using assms c1 by (simp_all add: b1_def rot_bits_word xor_bits_word)
  have a2: "length a2 = 32" "?w a2 = ?w a1 + ?w b1" using a1 b1 by (simp_all add: a2_def add_bits_word)
  have d2: "length d2 = 32" "?w d2 = rotl32 8 (?w d1 XOR ?w a2)" using a2 d1 by (simp_all add: d2_def rot_bits_word xor_bits_word)
  have c2: "length c2 = 32" "?w c2 = ?w c1 + ?w d2" using c1 d2 by (simp_all add: c2_def add_bits_word)
  have b2: "length b2 = 32" "?w b2 = rotl32 7 (?w b1 XOR ?w c2)" using b1 c2 by (simp_all add: b2_def rot_bits_word xor_bits_word)
  have "quarter_bits a b c d = (a2, b2, c2, d2)" unfolding quarter_bits_defs defs [symmetric] ..
  moreover have "quarter_round (?w a) (?w b) (?w c) (?w d) = (?w a2, ?w b2, ?w c2, ?w d2)"
    unfolding quarter_round_eval Let_def a1(2) [symmetric] d1(2) [symmetric] c1(2) [symmetric] b1(2) [symmetric]
      a2(2) [symmetric] d2(2) [symmetric] c2(2) [symmetric] b2(2) [symmetric] ..
  ultimately show ?thesis using a2(1) b2(1) c2(1) d2(1) by simp
qed

lemma qround_bits_word:
  assumes "state_bits S" and "i < 16" "j < 16" "k < 16" "l < 16"
  shows "state_bits (qround_bits i j k l S)" "qround_at i j k l (map word_of_bits S) = map word_of_bits (qround_bits i j k l S)"
proof -
  have len: "length S = 16" "length (S ! i) = 32" "length (S ! j) = 32" "length (S ! k) = 32" "length (S ! l) = 32"
    using assms by (auto simp: state_bits_def)
  obtain a b c d where q: "quarter_bits (S ! i) (S ! j) (S ! k) (S ! l) = (a, b, c, d)" using prod_cases4 by blast
  note word = quarter_bits_word [OF len(2-5), unfolded q prod.case]
  show "state_bits (qround_bits i j k l S)"
    using assms(1) word by (auto simp: state_bits_def qround_bits_def q dest!: subsetD [OF set_update_subset_insert])
  show "qround_at i j k l (map word_of_bits S) = map word_of_bits (qround_bits i j k l S)"
    using word assms(2-5) len(1) by (simp add: qround_at_def qround_bits_def q map_update)
qed

lemma double_bits_word:
  assumes "state_bits S"
  shows "state_bits (double_bits S)" "double_round (map word_of_bits S) = map word_of_bits (double_bits S)"
  using assms unfolding double_bits_def double_round_def Let_def by (simp_all add: qround_bits_word)

fun rounds_bits :: "nat \<Rightarrow> bool list list \<Rightarrow> bool list list" where
  "rounds_bits 0 S = S"
| "rounds_bits (Suc n) S = rounds_bits n (double_bits S)"

lemma rounds_bits_word: "state_bits S \<Longrightarrow> (double_round ^^ n) (map word_of_bits S) = map word_of_bits (rounds_bits n S)"
  by (induction n arbitrary: S) (simp_all add: double_bits_word funpow_Suc_right del: funpow.simps)

text \<open>What the simplifier evaluates: the numbers of the state before and after ten double rounds.\<close>

lemma rounds_eval:
  assumes "rounds_bits 10 (map (nat_bits 32) ns) = map (nat_bits 32) ms" and "length ns = 16"
  shows "(double_round ^^ 10) (map word_of_nat ns) = map word_of_nat ms"
proof -
  have words: "map word_of_nat xs = map word_of_bits (map (nat_bits 32) xs)" for xs by (simp add: nat_bits_word)
  have "state_bits (map (nat_bits 32) ns)" using assms(2) by (auto simp: state_bits_def)
  from rounds_bits_word [OF this, of 10] show ?thesis unfolding words assms(1) .
qed

section \<open>Rules for evaluation\<close>

lemma nat_bits_rules:
  "nat_bits (Suc k) 0 = False # nat_bits k 0"
  "nat_bits (Suc k) 1 = True # nat_bits k 0"
  "nat_bits (Suc k) (numeral Num.One) = True # nat_bits k 0"
  "nat_bits (Suc k) (numeral (Num.Bit0 n)) = False # nat_bits k (numeral n)"
  "nat_bits (Suc k) (numeral (Num.Bit1 n)) = True # nat_bits k (numeral n)"
  by simp_all

lemma add_bits_rules:
  "add_bits False (False # xs) (False # ys) = False # add_bits False xs ys"
  "add_bits False (False # xs) (True # ys) = True # add_bits False xs ys"
  "add_bits False (True # xs) (False # ys) = True # add_bits False xs ys"
  "add_bits False (True # xs) (True # ys) = False # add_bits True xs ys"
  "add_bits True (False # xs) (False # ys) = True # add_bits False xs ys"
  "add_bits True (False # xs) (True # ys) = False # add_bits True xs ys"
  "add_bits True (True # xs) (False # ys) = False # add_bits True xs ys"
  "add_bits True (True # xs) (True # ys) = True # add_bits True xs ys"
  "add_bits c [] [] = []"
  by simp_all

lemma xor_bits_rules:
  "xor_bits (False # xs) (False # ys) = False # xor_bits xs ys"
  "xor_bits (False # xs) (True # ys) = True # xor_bits xs ys"
  "xor_bits (True # xs) (False # ys) = True # xor_bits xs ys"
  "xor_bits (True # xs) (True # ys) = False # xor_bits xs ys"
  "xor_bits [] [] = []"
  by simp_all

lemma rot_bits_rules:
  "rot_bits 7
     [x00, x01, x02, x03, x04, x05, x06, x07, x08, x09, x10, x11, x12, x13, x14, x15,
      x16, x17, x18, x19, x20, x21, x22, x23, x24, x25, x26, x27, x28, x29, x30, x31] =
     [x25, x26, x27, x28, x29, x30, x31, x00, x01, x02, x03, x04, x05, x06, x07, x08, x09, x10, x11, x12, x13, x14, x15,
       x16, x17, x18, x19, x20, x21, x22, x23, x24]"
  "rot_bits 8
     [x00, x01, x02, x03, x04, x05, x06, x07, x08, x09, x10, x11, x12, x13, x14, x15,
      x16, x17, x18, x19, x20, x21, x22, x23, x24, x25, x26, x27, x28, x29, x30, x31] =
     [x24, x25, x26, x27, x28, x29, x30, x31, x00, x01, x02, x03, x04, x05, x06, x07, x08, x09, x10, x11, x12, x13, x14,
       x15, x16, x17, x18, x19, x20, x21, x22, x23]"
  "rot_bits 12
     [x00, x01, x02, x03, x04, x05, x06, x07, x08, x09, x10, x11, x12, x13, x14, x15,
      x16, x17, x18, x19, x20, x21, x22, x23, x24, x25, x26, x27, x28, x29, x30, x31] =
     [x20, x21, x22, x23, x24, x25, x26, x27, x28, x29, x30, x31, x00, x01, x02, x03, x04, x05, x06, x07, x08, x09, x10,
       x11, x12, x13, x14, x15, x16, x17, x18, x19]"
  "rot_bits 16
     [x00, x01, x02, x03, x04, x05, x06, x07, x08, x09, x10, x11, x12, x13, x14, x15,
      x16, x17, x18, x19, x20, x21, x22, x23, x24, x25, x26, x27, x28, x29, x30, x31] =
     [x16, x17, x18, x19, x20, x21, x22, x23, x24, x25, x26, x27, x28, x29, x30, x31, x00, x01, x02, x03, x04, x05, x06,
       x07, x08, x09, x10, x11, x12, x13, x14, x15]"
  by (simp_all add: rot_bits_def)

lemma qround_bits_rules:
  "qround_bits 0 4 8 12 [s00, s01, s02, s03, s04, s05, s06, s07, s08, s09, s10, s11, s12, s13, s14, s15] =
     (case quarter_bits s00 s04 s08 s12 of (a, b, c, d) \<Rightarrow> [a, s01, s02, s03, b, s05, s06, s07, c, s09, s10,
       s11, d, s13, s14, s15])"
  "qround_bits 1 5 9 13 [s00, s01, s02, s03, s04, s05, s06, s07, s08, s09, s10, s11, s12, s13, s14, s15] =
     (case quarter_bits s01 s05 s09 s13 of (a, b, c, d) \<Rightarrow> [s00, a, s02, s03, s04, b, s06, s07, s08, c, s10,
       s11, s12, d, s14, s15])"
  "qround_bits 2 6 10 14 [s00, s01, s02, s03, s04, s05, s06, s07, s08, s09, s10, s11, s12, s13, s14, s15] =
     (case quarter_bits s02 s06 s10 s14 of (a, b, c, d) \<Rightarrow> [s00, s01, a, s03, s04, s05, b, s07, s08, s09, c,
       s11, s12, s13, d, s15])"
  "qround_bits 3 7 11 15 [s00, s01, s02, s03, s04, s05, s06, s07, s08, s09, s10, s11, s12, s13, s14, s15] =
     (case quarter_bits s03 s07 s11 s15 of (a, b, c, d) \<Rightarrow> [s00, s01, s02, a, s04, s05, s06, b, s08, s09, s10,
       c, s12, s13, s14, d])"
  "qround_bits 0 5 10 15 [s00, s01, s02, s03, s04, s05, s06, s07, s08, s09, s10, s11, s12, s13, s14, s15] =
     (case quarter_bits s00 s05 s10 s15 of (a, b, c, d) \<Rightarrow> [a, s01, s02, s03, s04, b, s06, s07, s08, s09, c,
       s11, s12, s13, s14, d])"
  "qround_bits 1 6 11 12 [s00, s01, s02, s03, s04, s05, s06, s07, s08, s09, s10, s11, s12, s13, s14, s15] =
     (case quarter_bits s01 s06 s11 s12 of (a, b, c, d) \<Rightarrow> [s00, a, s02, s03, s04, s05, b, s07, s08, s09, s10,
       c, d, s13, s14, s15])"
  "qround_bits 2 7 8 13 [s00, s01, s02, s03, s04, s05, s06, s07, s08, s09, s10, s11, s12, s13, s14, s15] =
     (case quarter_bits s02 s07 s08 s13 of (a, b, c, d) \<Rightarrow> [s00, s01, a, s03, s04, s05, s06, b, c, s09, s10,
       s11, s12, d, s14, s15])"
  "qround_bits 3 4 9 14 [s00, s01, s02, s03, s04, s05, s06, s07, s08, s09, s10, s11, s12, s13, s14, s15] =
     (case quarter_bits s03 s04 s09 s14 of (a, b, c, d) \<Rightarrow> [s00, s01, s02, a, b, s05, s06, s07, s08, c, s10,
       s11, s12, s13, d, s15])"
  by (simp_all add: qround_bits_def)

lemma rounds_bits_10: "rounds_bits 10 S = rounds_bits (Suc (Suc (Suc (Suc (Suc (Suc (Suc (Suc (Suc (Suc 0)))))))))) S"
  by (rule arg_cong [of _ _ "\<lambda>n. rounds_bits n S"]) simp

lemma nat_bits_32:
  "nat_bits 32 n = nat_bits (Suc (Suc (Suc (Suc (Suc (Suc (Suc (Suc (Suc (Suc (Suc (Suc (Suc (Suc (Suc (Suc (Suc (Suc (Suc (Suc (Suc (Suc (Suc (Suc (Suc (Suc (Suc (Suc (Suc (Suc (Suc (Suc 0)))))))))))))))))))))))))))))))) n"
proof -
  have "32 = Suc (31 :: nat)" by simp
  also have "31 = Suc (Suc (Suc (Suc (Suc (Suc (Suc (Suc (Suc (Suc (Suc (Suc (Suc (Suc (Suc (Suc (Suc (Suc (Suc (Suc (Suc (Suc (Suc (Suc (Suc (Suc (Suc (Suc (Suc (Suc (Suc 0))))))))))))))))))))))))))))))" by simp
  finally show ?thesis by (rule arg_cong [of _ _ "\<lambda>k. nat_bits k n"])
qed

lemmas eval_rules = rounds_bits_10 rounds_bits.simps double_bits_def qround_bits_rules quarter_bits_defs prod.case
  rot_bits_rules xor_bits_rules add_bits_rules nat_bits_32 nat_bits_rules nat_bits.simps(1) list.map

section \<open>The vectors of the test\<close>

lemma block_eval:
  assumes "words_of (sigma @ key @ le_bytes 4 counter @ nonce) = map word_of_nat ns" and "length ns = 16"
    and "rounds_bits 10 (map (nat_bits 32) ns) = map (nat_bits 32) ms"
  shows "chacha20_block key counter nonce = concat (map2 (\<lambda>m n. le_bytes 4 ((m + n) mod 2 ^ 32)) ms ns)"
proof -
  have sum: "unat (word_of_nat m + word_of_nat n :: u32) = (m + n) mod 2 ^ 32" for m n
    using unat_of_nat [where ?'a = 32, of "m + n"] by simp
  show ?thesis
    unfolding chacha20_block_def Let_def assms(1) rounds_eval [OF assms(3,2)] zip_map_map map_map comp_def case_prod_beta
    by (simp add: sum del: of_nat_add)
qed

lemma derived_key_eval:
  assumes "length key = 32" and "length nonce = 24" and "words_of (sigma @ key @ take 16 nonce) = map word_of_nat ns" and "length ns = 16"
    and "rounds_bits 10 (map (nat_bits 32) ns) = map (nat_bits 32) ms"
  shows "derived_key key nonce = concat (map (\<lambda>m. le_bytes 4 (m mod 2 ^ 32)) (take 4 ms @ drop 12 ms))"
proof -
  have word: "unat (word_of_nat m :: u32) = m mod 2 ^ 32" for m using unat_of_nat [where ?'a = 32, of m] by simp
  have "derived_key key nonce = hchacha20_ref key (take 16 nonce)"
    unfolding derived_key_def using hchacha20_is_ref [of key "take 16 nonce"] assms(1,2) by (simp add: slice_def)
  also have "\<dots> = concat (map (\<lambda>w. le_bytes 4 (unat w)) (take 4 (map word_of_nat ms) @ drop 12 (map word_of_nat ms :: u32 list)))"
    unfolding hchacha20_ref_def Let_def assms(3) rounds_eval [OF assms(5,4)] ..
  also have "\<dots> = concat (map (\<lambda>m. le_bytes 4 (m mod 2 ^ 32)) (take 4 ms @ drop 12 ms))"
    by (simp only: take_map drop_map map_append [symmetric] map_map comp_def word)
  finally show ?thesis .
qed

lemma le_bytes_4: "le_bytes 4 v = [word_of_nat (v mod 256), word_of_nat (v div 256 mod 256),
  word_of_nat (v div 65536 mod 256), word_of_nat (v div 16777216 mod 256)]"
proof -
  have four: "4 = Suc (Suc (Suc (Suc 0)))" by simp
  show ?thesis unfolding four by (simp add: div_mult2_eq [symmetric])
qed

lemmas words_rules = words_of_unfold read_u32_def sigma_bytes le_bytes_4

lemma vector1_key:
  "derived_key
     [0, 0, 0, 0, 0, 0, 0, 0, 0, 0, 0, 0, 0, 0, 0, 0, 0, 0, 0, 0, 0, 0, 0, 0, 0, 0, 0, 0, 0, 0, 0, 0]
     [0, 0, 0, 0, 0, 0, 0, 0, 0, 0, 0, 0, 0, 0, 0, 0, 0, 0, 0, 0, 0, 0, 0, 0] =
     [17, 64, 112, 76, 50, 141, 29, 93, 14, 48, 8, 108, 223, 32, 157, 189, 106, 67, 184, 244, 21, 24, 161, 28, 195, 135,
       182, 105, 178, 238, 101, 134]"
  by (subst derived_key_eval [where ns = "[1634760805, 857760878, 2036477234, 1797285236, 0, 0, 0, 0, 0, 0, 0, 0, 0, 0, 0, 0]"
      and ms = "[1282424849, 1562217778, 1812475918, 3181191391, 3088700093, 451775904, 3438229160, 3339548555, 2086224346,
        2370328401, 1071654007, 927652024, 4105716586, 480319509, 1773569987, 2254827186]"])
    (simp_all only: eval_rules, simp_all add: words_rules)

lemma vector1_mac:
  "chacha20_block
     [17, 64, 112, 76, 50, 141, 29, 93, 14, 48, 8, 108, 223, 32, 157, 189, 106, 67, 184, 244, 21, 24, 161, 28, 195, 135,
       182, 105, 178, 238, 101, 134]
     0 [0, 0, 0, 0, 0, 0, 0, 0, 0, 0, 0, 0] =
     [188, 208, 42, 24, 191, 63, 1, 209, 146, 146, 222, 48, 167, 168, 253, 172, 164, 182, 94, 80, 166, 0, 44, 199, 44, 214,
       210, 247, 201, 26, 195, 213, 114, 143, 131, 224, 170, 210, 191, 207, 154, 189, 45, 45, 181, 143, 174, 221, 101, 1,
       93, 216, 63, 192, 155, 19, 30, 39, 16, 67, 1, 158, 142, 15]"
  by (subst block_eval [where ns = "[1634760805, 857760878, 2036477234, 1797285236, 1282424849, 1562217778, 1812475918,
    3181191391, 4105716586, 480319509, 1773569987, 2254827186, 0, 0, 0, 0]"
      and ms = "[3065665623, 2648759121, 3078382944, 1105019699, 65959571, 1779331956, 2345313822, 405141994, 3955969032,
        3005135509, 3279369687, 1464377603, 3629973861, 328974399, 1125132062, 261004801]"])
    (simp_all only: eval_rules, simp_all add: words_rules)

lemma vector1_stream:
  "chacha20_block
     [17, 64, 112, 76, 50, 141, 29, 93, 14, 48, 8, 108, 223, 32, 157, 189, 106, 67, 184, 244, 21, 24, 161, 28, 195, 135,
       182, 105, 178, 238, 101, 134]
     (Suc 0) [0, 0, 0, 0, 0, 0, 0, 0, 0, 0, 0, 0] =
     [120, 158, 150, 137, 229, 32, 141, 127, 217, 225, 243, 197, 181, 52, 31, 72, 239, 24, 161, 62, 65, 137, 152, 173, 218,
       221, 151, 163, 105, 58, 152, 127, 142, 130, 236, 213, 193, 67, 59, 254, 209, 175, 73, 117, 12, 15, 31, 242, 156, 65,
       116, 160, 91, 17, 154, 163, 169, 232, 51, 56, 18, 224, 192, 254]"
  by (subst block_eval [where ns = "[1634760805, 857760878, 2036477234, 1797285236, 1282424849, 1562217778, 1812475918,
    3181191391, 4105716586, 480319509, 1773569987, 2254827186, 1, 0, 0, 0]"
      and ms = "[673588755, 1282194551, 1284617383, 3707686721, 4063287518, 1350237199, 932163020, 3254458762, 3778297636,
        3784977324, 194193422, 1807294554, 2691973531, 2744783195, 942925993, 4274053138]"])
    (simp_all only: eval_rules, simp_all add: words_rules)

lemma vector2_key:
  "derived_key
     [15, 15, 15, 15, 15, 15, 15, 15, 15, 15, 15, 15, 15, 15, 15, 15, 15, 15, 15, 15, 15, 15, 15, 15, 15, 15, 15, 15, 15,
       15, 15, 15]
     [15, 15, 15, 15, 15, 15, 15, 15, 15, 15, 15, 15, 15, 15, 15, 15, 15, 15, 15, 15, 15, 15, 15, 15] =
     [21, 150, 131, 14, 224, 12, 84, 219, 211, 166, 82, 124, 139, 42, 13, 15, 19, 92, 221, 5, 196, 157, 29, 66, 13, 143,
       52, 48, 245, 90, 104, 197]"
  by (subst derived_key_eval [where ns = "[1634760805, 857760878, 2036477234, 1797285236, 252645135, 252645135, 252645135,
    252645135, 252645135, 252645135, 252645135, 252645135, 252645135, 252645135, 252645135, 252645135]"
      and ms = "[243504661, 3679718624, 2085791443, 252521099, 1243569883, 3328406447, 2092851946, 1138249245, 2773563860,
        1204286335, 3095385108, 1380034339, 98393107, 1109237188, 808750861, 3311950581]"])
    (simp_all only: eval_rules, simp_all add: words_rules)

lemma vector2_mac:
  "chacha20_block
     [21, 150, 131, 14, 224, 12, 84, 219, 211, 166, 82, 124, 139, 42, 13, 15, 19, 92, 221, 5, 196, 157, 29, 66, 13, 143,
       52, 48, 245, 90, 104, 197]
     0 [0, 0, 0, 0, 15, 15, 15, 15, 15, 15, 15, 15] =
     [225, 49, 175, 242, 1, 123, 63, 203, 127, 252, 159, 142, 44, 53, 230, 109, 210, 78, 82, 30, 219, 5, 155, 15, 222, 228,
       195, 219, 2, 101, 80, 51, 82, 61, 75, 89, 217, 154, 41, 187, 186, 48, 16, 237, 218, 249, 97, 249, 65, 100, 220, 230,
       70, 11, 110, 254, 207, 92, 64, 113, 94, 131, 73, 73]"
  by (subst block_eval [where ns = "[1634760805, 857760878, 2036477234, 1797285236, 243504661, 3679718624, 2085791443,
    252521099, 98393107, 1109237188, 808750861, 3311950581, 0, 0, 252645135, 252645135]"
      and ms = "[2436807036, 2552174227, 356372301, 46518200, 265205949, 877066491, 1601256971, 608385655, 1399710015,
        2030828821, 3168510381, 871997157, 3873203265, 4268624710, 1647398336, 976909391]"])
    (simp_all only: eval_rules, simp_all add: words_rules)

lemma vector2_stream:
  "chacha20_block
     [21, 150, 131, 14, 224, 12, 84, 219, 211, 166, 82, 124, 139, 42, 13, 15, 19, 92, 221, 5, 196, 157, 29, 66, 13, 143,
       52, 48, 245, 90, 104, 197]
     (Suc 0) [0, 0, 0, 0, 15, 15, 15, 15, 15, 15, 15, 15] =
     [238, 175, 73, 165, 112, 126, 237, 160, 132, 143, 185, 79, 132, 32, 215, 220, 172, 95, 40, 131, 154, 111, 62, 180, 70,
       61, 71, 111, 173, 72, 38, 182, 210, 72, 55, 180, 74, 174, 24, 188, 199, 192, 69, 107, 218, 94, 129, 94, 61, 225,
       131, 34, 86, 219, 72, 210, 222, 152, 78, 14, 45, 242, 155, 157]"
  by (subst block_eval [where ns = "[1634760805, 857760878, 2036477234, 1797285236, 243504661, 3679718624, 2085791443,
    252521099, 98393107, 1109237188, 808750861, 3311950581, 1, 0, 252645135, 252645135]"
      and ms = "[1138309001, 1842158082, 3596051026, 1907800848, 1956956567, 3639239354, 4076115571, 2803441186,
        2925128895, 2046496902, 990982586, 2568553445, 579068220, 3527990102, 4282354127, 2391597854]"])
    (simp_all only: eval_rules, simp_all add: words_rules)

lemma vector3_key:
  "derived_key
     [151, 145, 150, 219, 215, 133, 38, 242, 245, 132, 247, 83, 77, 179, 245, 130, 77, 140, 207, 168, 88, 202, 126, 9, 189,
       211, 101, 110, 205, 54, 3, 60]
     [217, 168, 33, 62, 138, 105, 117, 8, 128, 92, 44, 23, 26, 213, 68, 135, 234, 217, 227, 224, 45, 130, 213, 188] =
     [74, 76, 117, 161, 219, 70, 106, 154, 227, 146, 175, 128, 33, 245, 126, 220, 121, 70, 34, 172, 148, 20, 157, 113, 138,
       234, 179, 117, 207, 189, 2, 225]"
  by (subst derived_key_eval [where ns = "[1634760805, 857760878, 2036477234, 1797285236, 3684077975, 4062610903,
    1408730357, 2197140301, 2832174157, 159304280, 1852167101, 1006843597, 1042393305, 141912458, 388783232, 2269435162]"
      and ms = "[2708819018, 2590656219, 2158990051, 3699307809, 3731026737, 1889745361, 2021044401, 1452392954,
        2229529271, 2075365235, 1907178913, 3673138874, 2887927417, 1906119828, 1974725258, 3775053263]"])
    (simp_all only: eval_rules, simp_all add: words_rules)

lemma vector3_mac:
  "chacha20_block
     [74, 76, 117, 161, 219, 70, 106, 154, 227, 146, 175, 128, 33, 245, 126, 220, 121, 70, 34, 172, 148, 20, 157, 113, 138,
       234, 179, 117, 207, 189, 2, 225]
     0 [0, 0, 0, 0, 234, 217, 227, 224, 45, 130, 213, 188] =
     [88, 253, 198, 35, 196, 2, 102, 163, 51, 108, 146, 29, 78, 99, 196, 40, 97, 207, 103, 128, 102, 34, 106, 175, 141, 6,
       85, 102, 103, 229, 165, 159, 38, 119, 64, 117, 49, 149, 136, 14, 190, 16, 171, 157, 2, 14, 84, 36, 212, 218, 196,
       160, 191, 126, 70, 2, 4, 110, 103, 160, 57, 109, 111, 147]"
  by (subst block_eval [where ns = "[1634760805, 857760878, 2036477234, 1797285236, 2708819018, 2590656219, 2158990051,
    3699307809, 2887927417, 1906119828, 1974725258, 3775053263, 0, 0, 3773028842, 3168109101]"
      and ms = "[3260450035, 1883610710, 2754625281, 3181641178, 3740435223, 352312203, 3852825514, 3274108998, 3374198957,
        2632679581, 670508596, 1129402419, 2697255636, 38174399, 3213071386, 3600411404]"])
    (simp_all only: eval_rules, simp_all add: words_rules)

lemma vector3_stream:
  "chacha20_block
     [74, 76, 117, 161, 219, 70, 106, 154, 227, 146, 175, 128, 33, 245, 126, 220, 121, 70, 34, 172, 148, 20, 157, 113, 138,
       234, 179, 117, 207, 189, 2, 225]
     (Suc 0) [0, 0, 0, 0, 234, 217, 227, 224, 45, 130, 213, 188] =
     [16, 13, 133, 220, 188, 158, 163, 76, 137, 12, 3, 240, 214, 115, 142, 30, 99, 162, 140, 198, 72, 196, 242, 67, 81, 1,
       9, 71, 14, 171, 163, 78, 26, 84, 165, 106, 204, 170, 97, 231, 71, 62, 92, 76, 69, 56, 160, 14, 169, 199, 82, 239,
       185, 70, 112, 99, 30, 51, 41, 186, 216, 190, 84, 177]"
  by (subst block_eval [where ns = "[1634760805, 857760878, 2036477234, 1797285236, 2708819018, 2590656219, 2158990051,
    3699307809, 2887927417, 1906119828, 1974725258, 3775053263, 1, 0, 3773028842, 3168109101]"
      and ms = "[2064946347, 428030542, 1990254423, 3010334306, 622286361, 2844294509, 3327749742, 1915008493, 3196259745,
        1975817784, 3601355709, 765295222, 4015179688, 1668302521, 3645200692, 4101979307]"])
    (simp_all only: eval_rules, simp_all add: words_rules)

text \<open>The rules for what is left: bytes of numbers, the single block of a short message, and the polynomial.\<close>

lemma le_bytes_numeral: "le_bytes (numeral k) v = word_of_nat (v mod 256) # le_bytes (pred_numeral k) (v div 256)"
  by (simp only: numeral_eq_Suc [of k] le_bytes.simps)

lemma chacha20_stream_short: "0 < n \<Longrightarrow> n \<le> 64 \<Longrightarrow> chacha20_stream key nonce n = chacha20_block key (Suc 0) nonce"
proof -
  assume "0 < n" "n \<le> 64"
  then have "(n + 63) div 64 = 1" by (simp add: div_nat_eqI)
  then show ?thesis by (simp add: chacha20_stream_def)
qed

lemma poly1305_acc_end: "poly1305_acc r acc [] = acc"
  by (simp add: poly1305_acc.simps [of r acc])

lemma poly1305_step:
  assumes "(acc + le_val (block @ [1])) * r = q * (2 ^ 130 - 5) + acc'" and "acc' < 2 ^ 130 - 5" and "length block = 16"
  shows "poly1305_acc r acc (block @ rest) = poly1305_acc r acc' rest"
proof -
  have "(acc + le_val (block @ [1])) * r mod (2 ^ 130 - 5) = acc'" unfolding assms(1) using assms(2) by simp
  moreover have "block @ rest \<noteq> []" "take 16 (block @ rest) = block" "drop 16 (block @ rest) = rest" using assms(3) by auto
  ultimately show ?thesis using poly1305_acc.simps [of r acc "block @ rest"] by (simp only: if_False)
qed

text \<open>\<open>sanity\<close> and \<open>wireguard_go_vectors\<close>. A vector is a nonce, a key, a plaintext,
  and the ciphertext with its tag.\<close>

definition xchacha_test :: "aead_enc \<Rightarrow> aead_dec \<Rightarrow> bytes \<Rightarrow> bytes \<Rightarrow> bytes \<Rightarrow> bytes \<Rightarrow> (bytes \<Rightarrow> bool) \<Rightarrow> bool" where
  "xchacha_test enc dec key nonce aad input expected =
     (case xchacha_encrypt enc key nonce input aad (replicate (length input) 0) of
        (Inl _, _) \<Rightarrow> False
      | (Inr tag, ct) \<Rightarrow>
          expected (ct @ tag) \<and>
          (case xchacha_decrypt dec key nonce ct aad tag (replicate (length input) 0) of
             (Inl _, _) \<Rightarrow> False
           | (Inr _, pt) \<Rightarrow> pt = input))"

definition sanity :: "aead_enc \<Rightarrow> aead_dec \<Rightarrow> bool" where
  "sanity enc dec =
     xchacha_test enc dec (replicate 32 1) (replicate 24 2) (replicate 16 3)
       (map of_char ''Readings fluxuated momentarily. It appeared to be a ship, but then it vanished.'') (\<lambda>_. True)"

definition xchacha_vectors :: "(bytes \<times> bytes \<times> bytes \<times> bytes) list" where
  "xchacha_vectors =
     [([0x00, 0x00, 0x00, 0x00, 0x00, 0x00, 0x00, 0x00, 0x00, 0x00, 0x00, 0x00, 0x00, 0x00, 0x00, 0x00,
        0x00, 0x00, 0x00, 0x00, 0x00, 0x00, 0x00, 0x00],
       [0x00, 0x00, 0x00, 0x00, 0x00, 0x00, 0x00, 0x00, 0x00, 0x00, 0x00, 0x00, 0x00, 0x00, 0x00, 0x00,
        0x00, 0x00, 0x00, 0x00, 0x00, 0x00, 0x00, 0x00, 0x00, 0x00, 0x00, 0x00, 0x00, 0x00, 0x00, 0x00],
       [0x00, 0x00, 0x00, 0x00, 0x00, 0x00, 0x00, 0x00, 0x00, 0x00, 0x00, 0x00, 0x00, 0x00, 0x00, 0x00,
        0x00, 0x00, 0x00, 0x00, 0x00, 0x00, 0x00, 0x00, 0x00, 0x00, 0x00, 0x00, 0x00, 0x00, 0x00, 0x00,
        0x00, 0x00, 0x00, 0x00, 0x00, 0x00, 0x00, 0x00, 0x00, 0x00, 0x00, 0x00, 0x00, 0x00, 0x00, 0x00,
        0x00, 0x00, 0x00, 0x00, 0x00, 0x00, 0x00, 0x00, 0x00, 0x00, 0x00, 0x00, 0x00, 0x00, 0x00, 0x00],
       [0x78, 0x9e, 0x96, 0x89, 0xe5, 0x20, 0x8d, 0x7f, 0xd9, 0xe1, 0xf3, 0xc5, 0xb5, 0x34, 0x1f, 0x48,
        0xef, 0x18, 0xa1, 0x3e, 0x41, 0x89, 0x98, 0xad, 0xda, 0xdd, 0x97, 0xa3, 0x69, 0x3a, 0x98, 0x7f,
        0x8e, 0x82, 0xec, 0xd5, 0xc1, 0x43, 0x3b, 0xfe, 0xd1, 0xaf, 0x49, 0x75, 0x0c, 0x0f, 0x1f, 0xf2,
        0x9c, 0x41, 0x74, 0xa0, 0x5b, 0x11, 0x9a, 0xa3, 0xa9, 0xe8, 0x33, 0x38, 0x12, 0xe0, 0xc0, 0xfe,
        0xb1, 0x29, 0x9c, 0x59, 0x49, 0xd8, 0x95, 0xee, 0x01, 0xdb, 0xf5, 0x0f, 0x83, 0x95, 0xdd, 0x84]),
      ([0x0f, 0x0f, 0x0f, 0x0f, 0x0f, 0x0f, 0x0f, 0x0f, 0x0f, 0x0f, 0x0f, 0x0f, 0x0f, 0x0f, 0x0f, 0x0f,
        0x0f, 0x0f, 0x0f, 0x0f, 0x0f, 0x0f, 0x0f, 0x0f],
       [0x0f, 0x0f, 0x0f, 0x0f, 0x0f, 0x0f, 0x0f, 0x0f, 0x0f, 0x0f, 0x0f, 0x0f, 0x0f, 0x0f, 0x0f, 0x0f,
        0x0f, 0x0f, 0x0f, 0x0f, 0x0f, 0x0f, 0x0f, 0x0f, 0x0f, 0x0f, 0x0f, 0x0f, 0x0f, 0x0f, 0x0f, 0x0f],
       [0x0f, 0x0f, 0x0f, 0x0f, 0x0f, 0x0f, 0x0f, 0x0f, 0x0f, 0x0f, 0x0f, 0x0f, 0x0f, 0x0f, 0x0f, 0x0f,
        0x0f, 0x0f, 0x0f, 0x0f],
       [0xe1, 0xa0, 0x46, 0xaa, 0x7f, 0x71, 0xe2, 0xaf, 0x8b, 0x80, 0xb6, 0x40, 0x8b, 0x2f, 0xd8, 0xd3,
        0xa3, 0x50, 0x27, 0x8c, 0xde, 0x79, 0xc9, 0x4d, 0x9e, 0xfa, 0xa4, 0x75, 0xe1, 0x33, 0x9b, 0x3d,
        0xd4, 0x90, 0x12, 0x7b]),
      ([0xd9, 0xa8, 0x21, 0x3e, 0x8a, 0x69, 0x75, 0x08, 0x80, 0x5c, 0x2c, 0x17, 0x1a, 0xd5, 0x44, 0x87,
        0xea, 0xd9, 0xe3, 0xe0, 0x2d, 0x82, 0xd5, 0xbc],
       [0x97, 0x91, 0x96, 0xdb, 0xd7, 0x85, 0x26, 0xf2, 0xf5, 0x84, 0xf7, 0x53, 0x4d, 0xb3, 0xf5, 0x82,
        0x4d, 0x8c, 0xcf, 0xa8, 0x58, 0xca, 0x7e, 0x09, 0xbd, 0xd3, 0x65, 0x6e, 0xcd, 0x36, 0x03, 0x3c],
       [0x43, 0xcc, 0x6d, 0x62, 0x4e, 0x45, 0x1b, 0xbe, 0xd9, 0x52, 0xc3, 0xe0, 0x71, 0xdc, 0x6c, 0x03,
        0x39, 0x2c, 0xe1, 0x1e, 0xb1, 0x43, 0x16, 0xa9, 0x4b, 0x2f, 0xdc, 0x98, 0xb2, 0x2f, 0xed, 0xea],
       [0x53, 0xc1, 0xe8, 0xbe, 0xf2, 0xdb, 0xb8, 0xf2, 0x50, 0x5e, 0xc0, 0x10, 0xa7, 0xaf, 0xe2, 0x1d,
        0x5a, 0x8e, 0x6d, 0xd8, 0xf9, 0x87, 0xe4, 0xea, 0x1a, 0x2e, 0xd5, 0xdf, 0xbc, 0x84, 0x4e, 0xa4,
        0x00, 0xdb, 0x34, 0x49, 0x6f, 0xd2, 0x15, 0x35, 0x26, 0xc6, 0xe8, 0x7c, 0x36, 0x69, 0x42, 0x00])]"

definition wireguard_go_vectors :: "aead_enc \<Rightarrow> aead_dec \<Rightarrow> bool" where
  "wireguard_go_vectors enc dec =
     list_all (\<lambda>(nonce, key, pt, ct). xchacha_test enc dec key nonce [] pt (\<lambda>out. out = ct)) xchacha_vectors"

text \<open>Both tests pass, the first with any lawful AEAD.\<close>

lemma xchacha_test_passes:
  assumes "lawful_aead enc dec" and "length key = 32" and "length nonce = 24"
    and "enc (derived_key key nonce) (derived_nonce nonce) aad input = (ct, tag)" and "expected (ct @ tag)"
  shows "xchacha_test enc dec key nonce aad input expected"
proof -
  note l = lawful_aeadD [OF assms(1,4)]
  have "xchacha_encrypt enc key nonce input aad (replicate (length input) 0) = (Inr tag, ct)"
    using assms l by (simp add: xchacha_encrypt_def put_slice_all)
  moreover have "xchacha_decrypt dec key nonce ct aad tag (replicate (length input) 0) = (Inr (), input)"
    using assms l by (simp add: xchacha_decrypt_def put_slice_all)
  ultimately show ?thesis using assms(5) by (simp add: xchacha_test_def)
qed

lemma sanity_passes: "lawful_aead enc dec \<Longrightarrow> sanity enc dec"
  unfolding sanity_def by (rule xchacha_test_passes [OF _ _ _ surjective_pairing]) simp_all

lemma replicate_12: "replicate 12 (0 :: u8) = [0, 0, 0, 0, 0, 0, 0, 0, 0, 0, 0, 0]"
  by (simp add: numeral_eq_Suc)

lemma vector1_acc:
  "poly1305_acc 17267807493129441338710991179080192188 0
     [120, 158, 150, 137, 229, 32, 141, 127, 217, 225, 243, 197, 181, 52, 31, 72, 239, 24, 161, 62, 65, 137, 152, 173, 218,
       221, 151, 163, 105, 58, 152, 127, 142, 130, 236, 213, 193, 67, 59, 254, 209, 175, 73, 117, 12, 15, 31, 242, 156, 65,
       116, 160, 91, 17, 154, 163, 169, 232, 51, 56, 18, 224, 192, 254, 0, 0, 0, 0, 0, 0, 0, 0, 64, 0, 0, 0, 0, 0, 0, 0] =
     913317121941210796306812670671937434381"
proof -
  have blocks: "[120, 158, 150, 137, 229, 32, 141, 127, 217, 225, 243, 197, 181, 52, 31, 72, 239, 24, 161, 62, 65, 137,
    152, 173, 218, 221, 151, 163, 105, 58, 152, 127, 142, 130, 236, 213, 193, 67, 59, 254, 209, 175, 73, 117, 12, 15, 31,
    242, 156, 65, 116, 160, 91, 17, 154, 163, 169, 232, 51, 56, 18, 224, 192, 254, 0, 0, 0, 0, 0, 0, 0, 0, 64, 0, 0, 0, 0,
    0, 0, 0] =
     ([120, 158, 150, 137, 229, 32, 141, 127, 217, 225, 243, 197, 181, 52, 31, 72] @
     [239, 24, 161, 62, 65, 137, 152, 173, 218, 221, 151, 163, 105, 58, 152, 127] @
     [142, 130, 236, 213, 193, 67, 59, 254, 209, 175, 73, 117, 12, 15, 31, 242] @
     [156, 65, 116, 160, 91, 17, 154, 163, 169, 232, 51, 56, 18, 224, 192, 254] @
     [0, 0, 0, 0, 0, 0, 0, 0, 64, 0, 0, 0, 0, 0, 0, 0] @
     [] :: bytes)"
    by simp
  show ?thesis unfolding blocks
    by ((subst poly1305_step [where q = 5533150165685477069149565555737304412 and acc' = 284284258451338309972418249391223698156],
      simp, simp, simp),
      (subst poly1305_step [where q = 10075130722854903326245178709631786925 and acc' = 1280151066425343737221503760219447722805],
        simp, simp, simp),
      (subst poly1305_step [where q = 24640350942060470857472880386196369198 and acc' = 592808750821752942058549365853123532570],
        simp, simp, simp),
      (subst poly1305_step [where q = 16133480416102402165130675789100985872 and acc' = 1215553496126734718474102320041406917624],
        simp, simp, simp),
      (subst poly1305_step [where q = 19737927075909993931059340391563928009 and acc' = 913317121941210796306812670671937434381],
        simp, simp, simp), rule poly1305_acc_end)
qed

lemma vector1_enc:
  "rfc_enc
     [17, 64, 112, 76, 50, 141, 29, 93, 14, 48, 8, 108, 223, 32, 157, 189, 106, 67, 184, 244, 21, 24, 161, 28, 195, 135,
       182, 105, 178, 238, 101, 134]
     [0, 0, 0, 0, 0, 0, 0, 0, 0, 0, 0, 0] []
     [0, 0, 0, 0, 0, 0, 0, 0, 0, 0, 0, 0, 0, 0, 0, 0, 0, 0, 0, 0, 0, 0, 0, 0, 0, 0, 0, 0, 0, 0, 0, 0, 0, 0, 0, 0, 0, 0, 0,
       0, 0, 0, 0, 0, 0, 0, 0, 0, 0, 0, 0, 0, 0, 0, 0, 0, 0, 0, 0, 0, 0, 0, 0, 0] =
     ([120, 158, 150, 137, 229, 32, 141, 127, 217, 225, 243, 197, 181, 52, 31, 72, 239, 24, 161, 62, 65, 137, 152, 173,
       218, 221, 151, 163, 105, 58, 152, 127, 142, 130, 236, 213, 193, 67, 59, 254, 209, 175, 73, 117, 12, 15, 31, 242,
       156, 65, 116, 160, 91, 17, 154, 163, 169, 232, 51, 56, 18, 224, 192, 254],
      [177, 41, 156, 89, 73, 216, 149, 238, 1, 219, 245, 15, 131, 149, 221, 132])"
proof -
  have cipher: "chacha20
     [17, 64, 112, 76, 50, 141, 29, 93, 14, 48, 8, 108, 223, 32, 157, 189, 106, 67, 184, 244, 21, 24, 161, 28, 195, 135,
       182, 105, 178, 238, 101, 134]
     [0, 0, 0, 0, 0, 0, 0, 0, 0, 0, 0, 0]
     [0, 0, 0, 0, 0, 0, 0, 0, 0, 0, 0, 0, 0, 0, 0, 0, 0, 0, 0, 0, 0, 0, 0, 0, 0, 0, 0, 0, 0, 0, 0, 0, 0, 0, 0, 0, 0, 0, 0,
       0, 0, 0, 0, 0, 0, 0, 0, 0, 0, 0, 0, 0, 0, 0, 0, 0, 0, 0, 0, 0, 0, 0, 0, 0] =
     [120, 158, 150, 137, 229, 32, 141, 127, 217, 225, 243, 197, 181, 52, 31, 72, 239, 24, 161, 62, 65, 137, 152, 173, 218,
       221, 151, 163, 105, 58, 152, 127, 142, 130, 236, 213, 193, 67, 59, 254, 209, 175, 73, 117, 12, 15, 31, 242, 156, 65,
       116, 160, 91, 17, 154, 163, 169, 232, 51, 56, 18, 224, 192, 254]"
    by (simp add: chacha20_def chacha20_stream_short vector1_stream)
  have key: "take 32 (chacha20_block
     [17, 64, 112, 76, 50, 141, 29, 93, 14, 48, 8, 108, 223, 32, 157, 189, 106, 67, 184, 244, 21, 24, 161, 28, 195, 135,
       182, 105, 178, 238, 101, 134] 0
     [0, 0, 0, 0, 0, 0, 0, 0, 0, 0, 0, 0]) =
     [188, 208, 42, 24, 191, 63, 1, 209, 146, 146, 222, 48, 167, 168, 253, 172, 164, 182, 94, 80, 166, 0, 44, 199, 44, 214,
       210, 247, 201, 26, 195, 213]"
    by (simp add: vector1_mac)
  have msg: "pad16 [] @ pad16
     [120, 158, 150, 137, 229, 32, 141, 127, 217, 225, 243, 197, 181, 52, 31, 72, 239, 24, 161, 62, 65, 137, 152, 173, 218,
       221, 151, 163, 105, 58, 152, 127, 142, 130, 236, 213, 193, 67, 59, 254, 209, 175, 73, 117, 12, 15, 31, 242, 156, 65,
       116, 160, 91, 17, 154, 163, 169, 232, 51, 56, 18, 224, 192, 254] @
     le_bytes 8 (length ([] :: bytes)) @ le_bytes 8 (length ([120, 158, 150, 137, 229, 32, 141, 127, 217, 225, 243, 197,
       181, 52, 31, 72, 239, 24, 161, 62, 65, 137, 152, 173, 218, 221, 151, 163, 105, 58, 152, 127, 142, 130, 236, 213,
       193, 67, 59, 254, 209, 175, 73, 117, 12, 15, 31, 242, 156, 65, 116, 160, 91, 17, 154, 163, 169, 232, 51, 56, 18,
       224, 192, 254] :: bytes)) =
     [120, 158, 150, 137, 229, 32, 141, 127, 217, 225, 243, 197, 181, 52, 31, 72, 239, 24, 161, 62, 65, 137, 152, 173, 218,
       221, 151, 163, 105, 58, 152, 127, 142, 130, 236, 213, 193, 67, 59, 254, 209, 175, 73, 117, 12, 15, 31, 242, 156, 65,
       116, 160, 91, 17, 154, 163, 169, 232, 51, 56, 18, 224, 192, 254, 0, 0, 0, 0, 0, 0, 0, 0, 64, 0, 0, 0, 0, 0, 0, 0]"
    by (simp add: pad16_def le_bytes_numeral replicate_12)
  have tag: "poly1305
     [188, 208, 42, 24, 191, 63, 1, 209, 146, 146, 222, 48, 167, 168, 253, 172, 164, 182, 94, 80, 166, 0, 44, 199, 44, 214,
       210, 247, 201, 26, 195, 213]
     [120, 158, 150, 137, 229, 32, 141, 127, 217, 225, 243, 197, 181, 52, 31, 72, 239, 24, 161, 62, 65, 137, 152, 173, 218,
       221, 151, 163, 105, 58, 152, 127, 142, 130, 236, 213, 193, 67, 59, 254, 209, 175, 73, 117, 12, 15, 31, 242, 156, 65,
       116, 160, 91, 17, 154, 163, 169, 232, 51, 56, 18, 224, 192, 254, 0, 0, 0, 0, 0, 0, 0, 0, 64, 0, 0, 0, 0, 0, 0, 0] =
     [177, 41, 156, 89, 73, 216, 149, 238, 1, 219, 245, 15, 131, 149, 221, 132]"
    by (simp add: poly1305_def le_bytes_numeral vector1_acc)
  show ?thesis unfolding rfc_enc_def Let_def cipher aead_tag_def key msg tag ..
qed

lemma vector1_test:
  "xchacha_test rfc_enc rfc_dec
     ([0, 0, 0, 0, 0, 0, 0, 0, 0, 0, 0, 0, 0, 0, 0, 0, 0, 0, 0, 0, 0, 0, 0, 0, 0, 0, 0, 0, 0, 0, 0, 0])
     ([0, 0, 0, 0, 0, 0, 0, 0, 0, 0, 0, 0, 0, 0, 0, 0, 0, 0, 0, 0, 0, 0, 0, 0]) []
     ([0, 0, 0, 0, 0, 0, 0, 0, 0, 0, 0, 0, 0, 0, 0, 0, 0, 0, 0, 0, 0, 0, 0, 0, 0, 0, 0, 0, 0, 0, 0, 0, 0, 0, 0, 0, 0, 0, 0,
       0, 0, 0, 0, 0, 0, 0, 0, 0, 0, 0, 0, 0, 0, 0, 0, 0, 0, 0, 0, 0, 0, 0, 0, 0])
     (\<lambda>out. out = [120, 158, 150, 137, 229, 32, 141, 127, 217, 225, 243, 197, 181, 52, 31, 72, 239, 24, 161, 62,
       65, 137, 152, 173, 218, 221, 151, 163, 105, 58, 152, 127, 142, 130, 236, 213, 193, 67, 59, 254, 209, 175, 73, 117,
       12, 15, 31, 242, 156, 65, 116, 160, 91, 17, 154, 163, 169, 232, 51, 56, 18, 224, 192, 254, 177, 41, 156, 89, 73,
       216, 149, 238, 1, 219, 245, 15, 131, 149, 221, 132])"
proof -
  have nonce: "derived_nonce
     [0, 0, 0, 0, 0, 0, 0, 0, 0, 0, 0, 0, 0, 0, 0, 0, 0, 0, 0, 0, 0, 0, 0, 0] =
     [0, 0, 0, 0, 0, 0, 0, 0, 0, 0, 0, 0]"
    unfolding derived_nonce_def put_slice_def replicate_12 by simp
  have enc: "rfc_enc (derived_key
     [0, 0, 0, 0, 0, 0, 0, 0, 0, 0, 0, 0, 0, 0, 0, 0, 0, 0, 0, 0, 0, 0, 0, 0, 0, 0, 0, 0, 0, 0, 0, 0]
     [0, 0, 0, 0, 0, 0, 0, 0, 0, 0, 0, 0, 0, 0, 0, 0, 0, 0, 0, 0, 0, 0, 0, 0])
     (derived_nonce [0, 0, 0, 0, 0, 0, 0, 0, 0, 0, 0, 0, 0, 0, 0, 0, 0, 0, 0, 0, 0, 0, 0, 0]) []
     [0, 0, 0, 0, 0, 0, 0, 0, 0, 0, 0, 0, 0, 0, 0, 0, 0, 0, 0, 0, 0, 0, 0, 0, 0, 0, 0, 0, 0, 0, 0, 0, 0, 0, 0, 0, 0, 0, 0,
       0, 0, 0, 0, 0, 0, 0, 0, 0, 0, 0, 0, 0, 0, 0, 0, 0, 0, 0, 0, 0, 0, 0, 0, 0] =
     ([120, 158, 150, 137, 229, 32, 141, 127, 217, 225, 243, 197, 181, 52, 31, 72, 239, 24, 161, 62, 65, 137, 152, 173,
       218, 221, 151, 163, 105, 58, 152, 127, 142, 130, 236, 213, 193, 67, 59, 254, 209, 175, 73, 117, 12, 15, 31, 242,
       156, 65, 116, 160, 91, 17, 154, 163, 169, 232, 51, 56, 18, 224, 192, 254],
      [177, 41, 156, 89, 73, 216, 149, 238, 1, 219, 245, 15, 131, 149, 221, 132])"
    unfolding vector1_key nonce by (rule vector1_enc)
  show ?thesis by (rule xchacha_test_passes [OF lawful_rfc _ _ enc]) simp_all
qed

lemma vector2_acc:
  "poly1305_acc 18475270680941262535852836249045774817 0
     [225, 160, 70, 170, 127, 113, 226, 175, 139, 128, 182, 64, 139, 47, 216, 211, 163, 80, 39, 140, 0, 0, 0, 0, 0, 0, 0,
       0, 0, 0, 0, 0, 0, 0, 0, 0, 0, 0, 0, 0, 20, 0, 0, 0, 0, 0, 0, 0] =
     1116230482786679434562836499493346028300"
proof -
  have blocks: "[225, 160, 70, 170, 127, 113, 226, 175, 139, 128, 182, 64, 139, 47, 216, 211, 163, 80, 39, 140, 0, 0, 0, 0,
    0, 0, 0, 0, 0, 0, 0, 0, 0, 0, 0, 0, 0, 0, 0, 0, 20, 0, 0, 0, 0, 0, 0, 0] =
     ([225, 160, 70, 170, 127, 113, 226, 175, 139, 128, 182, 64, 139, 47, 216, 211] @
     [163, 80, 39, 140, 0, 0, 0, 0, 0, 0, 0, 0, 0, 0, 0, 0] @
     [0, 0, 0, 0, 0, 0, 0, 0, 20, 0, 0, 0, 0, 0, 0, 0] @
     [] :: bytes)"
    by simp
  show ?thesis unfolding blocks
    by ((subst poly1305_step [where q = 8440970039810135714266194470409608147 and acc' = 692341333854368677205142201644930695648],
      simp, simp, simp),
      (subst poly1305_step [where q = 14016302516647664659387511920857576974 and acc' = 530156108703091977543086081120630171241],
        simp, simp, simp),
      (subst poly1305_step [where q = 11814883763868571906733831489631617831 and acc' = 1116230482786679434562836499493346028300],
        simp, simp, simp), rule poly1305_acc_end)
qed

lemma vector2_enc:
  "rfc_enc
     [21, 150, 131, 14, 224, 12, 84, 219, 211, 166, 82, 124, 139, 42, 13, 15, 19, 92, 221, 5, 196, 157, 29, 66, 13, 143,
       52, 48, 245, 90, 104, 197]
     [0, 0, 0, 0, 15, 15, 15, 15, 15, 15, 15, 15] []
     [15, 15, 15, 15, 15, 15, 15, 15, 15, 15, 15, 15, 15, 15, 15, 15, 15, 15, 15, 15] =
     ([225, 160, 70, 170, 127, 113, 226, 175, 139, 128, 182, 64, 139, 47, 216, 211, 163, 80, 39, 140],
      [222, 121, 201, 77, 158, 250, 164, 117, 225, 51, 155, 61, 212, 144, 18, 123])"
proof -
  have cipher: "chacha20
     [21, 150, 131, 14, 224, 12, 84, 219, 211, 166, 82, 124, 139, 42, 13, 15, 19, 92, 221, 5, 196, 157, 29, 66, 13, 143,
       52, 48, 245, 90, 104, 197]
     [0, 0, 0, 0, 15, 15, 15, 15, 15, 15, 15, 15]
     [15, 15, 15, 15, 15, 15, 15, 15, 15, 15, 15, 15, 15, 15, 15, 15, 15, 15, 15, 15] =
     [225, 160, 70, 170, 127, 113, 226, 175, 139, 128, 182, 64, 139, 47, 216, 211, 163, 80, 39, 140]"
    by (simp add: chacha20_def chacha20_stream_short vector2_stream)
  have key: "take 32 (chacha20_block
     [21, 150, 131, 14, 224, 12, 84, 219, 211, 166, 82, 124, 139, 42, 13, 15, 19, 92, 221, 5, 196, 157, 29, 66, 13, 143,
       52, 48, 245, 90, 104, 197] 0
     [0, 0, 0, 0, 15, 15, 15, 15, 15, 15, 15, 15]) =
     [225, 49, 175, 242, 1, 123, 63, 203, 127, 252, 159, 142, 44, 53, 230, 109, 210, 78, 82, 30, 219, 5, 155, 15, 222, 228,
       195, 219, 2, 101, 80, 51]"
    by (simp add: vector2_mac)
  have msg: "pad16 [] @ pad16
     [225, 160, 70, 170, 127, 113, 226, 175, 139, 128, 182, 64, 139, 47, 216, 211, 163, 80, 39, 140] @
     le_bytes 8 (length ([] :: bytes)) @ le_bytes 8 (length ([225, 160, 70, 170, 127, 113, 226, 175, 139, 128, 182, 64,
       139, 47, 216, 211, 163, 80, 39, 140] :: bytes)) =
     [225, 160, 70, 170, 127, 113, 226, 175, 139, 128, 182, 64, 139, 47, 216, 211, 163, 80, 39, 140, 0, 0, 0, 0, 0, 0, 0,
       0, 0, 0, 0, 0, 0, 0, 0, 0, 0, 0, 0, 0, 20, 0, 0, 0, 0, 0, 0, 0]"
    by (simp add: pad16_def le_bytes_numeral replicate_12)
  have tag: "poly1305
     [225, 49, 175, 242, 1, 123, 63, 203, 127, 252, 159, 142, 44, 53, 230, 109, 210, 78, 82, 30, 219, 5, 155, 15, 222, 228,
       195, 219, 2, 101, 80, 51]
     [225, 160, 70, 170, 127, 113, 226, 175, 139, 128, 182, 64, 139, 47, 216, 211, 163, 80, 39, 140, 0, 0, 0, 0, 0, 0, 0,
       0, 0, 0, 0, 0, 0, 0, 0, 0, 0, 0, 0, 0, 20, 0, 0, 0, 0, 0, 0, 0] =
     [222, 121, 201, 77, 158, 250, 164, 117, 225, 51, 155, 61, 212, 144, 18, 123]"
    by (simp add: poly1305_def le_bytes_numeral vector2_acc)
  show ?thesis unfolding rfc_enc_def Let_def cipher aead_tag_def key msg tag ..
qed

lemma vector2_test:
  "xchacha_test rfc_enc rfc_dec
     ([15, 15, 15, 15, 15, 15, 15, 15, 15, 15, 15, 15, 15, 15, 15, 15, 15, 15, 15, 15, 15, 15, 15, 15, 15, 15, 15, 15, 15,
       15, 15, 15])
     ([15, 15, 15, 15, 15, 15, 15, 15, 15, 15, 15, 15, 15, 15, 15, 15, 15, 15, 15, 15, 15, 15, 15, 15]) []
     ([15, 15, 15, 15, 15, 15, 15, 15, 15, 15, 15, 15, 15, 15, 15, 15, 15, 15, 15, 15])
     (\<lambda>out. out = [225, 160, 70, 170, 127, 113, 226, 175, 139, 128, 182, 64, 139, 47, 216, 211, 163, 80, 39, 140,
       222, 121, 201, 77, 158, 250, 164, 117, 225, 51, 155, 61, 212, 144, 18, 123])"
proof -
  have nonce: "derived_nonce
     [15, 15, 15, 15, 15, 15, 15, 15, 15, 15, 15, 15, 15, 15, 15, 15, 15, 15, 15, 15, 15, 15, 15, 15] =
     [0, 0, 0, 0, 15, 15, 15, 15, 15, 15, 15, 15]"
    unfolding derived_nonce_def put_slice_def replicate_12 by simp
  have enc: "rfc_enc (derived_key
     [15, 15, 15, 15, 15, 15, 15, 15, 15, 15, 15, 15, 15, 15, 15, 15, 15, 15, 15, 15, 15, 15, 15, 15, 15, 15, 15, 15, 15,
       15, 15, 15]
     [15, 15, 15, 15, 15, 15, 15, 15, 15, 15, 15, 15, 15, 15, 15, 15, 15, 15, 15, 15, 15, 15, 15, 15])
     (derived_nonce [15, 15, 15, 15, 15, 15, 15, 15, 15, 15, 15, 15, 15, 15, 15, 15, 15, 15, 15, 15, 15, 15, 15, 15]) []
     [15, 15, 15, 15, 15, 15, 15, 15, 15, 15, 15, 15, 15, 15, 15, 15, 15, 15, 15, 15] =
     ([225, 160, 70, 170, 127, 113, 226, 175, 139, 128, 182, 64, 139, 47, 216, 211, 163, 80, 39, 140],
      [222, 121, 201, 77, 158, 250, 164, 117, 225, 51, 155, 61, 212, 144, 18, 123])"
    unfolding vector2_key nonce by (rule vector2_enc)
  show ?thesis by (rule xchacha_test_passes [OF lawful_rfc _ _ enc]) simp_all
qed

lemma vector3_acc:
  "poly1305_acc 11653528134643584996494035133296737624 0
     [83, 193, 232, 190, 242, 219, 184, 242, 80, 94, 192, 16, 167, 175, 226, 29, 90, 142, 109, 216, 249, 135, 228, 234, 26,
       46, 213, 223, 188, 132, 78, 164, 0, 0, 0, 0, 0, 0, 0, 0, 32, 0, 0, 0, 0, 0, 0, 0] =
     468700926229096826290822516686107511711"
proof -
  have blocks: "[83, 193, 232, 190, 242, 219, 184, 242, 80, 94, 192, 16, 167, 175, 226, 29, 90, 142, 109, 216, 249, 135,
    228, 234, 26, 46, 213, 223, 188, 132, 78, 164, 0, 0, 0, 0, 0, 0, 0, 0, 32, 0, 0, 0, 0, 0, 0, 0] =
     ([83, 193, 232, 190, 242, 219, 184, 242, 80, 94, 192, 16, 167, 175, 226, 29] @
     [90, 142, 109, 216, 249, 135, 228, 234, 26, 46, 213, 223, 188, 132, 78, 164] @
     [0, 0, 0, 0, 0, 0, 0, 0, 32, 0, 0, 0, 0, 0, 0, 0] @
     [] :: bytes)"
    by simp
  show ?thesis unfolding blocks
    by ((subst poly1305_step [where q = 3253490852540538186802509247443695258 and acc' = 197095707767277868331060649643376921738],
      simp, simp, simp),
      (subst poly1305_step [where q = 6470724411879541780705435974815001930 and acc' = 385219320194602828375440385364635972818],
        simp, simp, simp),
      (subst poly1305_step [where q = 6211498996432505699108615724489314787 and acc' = 468700926229096826290822516686107511711],
        simp, simp, simp), rule poly1305_acc_end)
qed

lemma vector3_enc:
  "rfc_enc
     [74, 76, 117, 161, 219, 70, 106, 154, 227, 146, 175, 128, 33, 245, 126, 220, 121, 70, 34, 172, 148, 20, 157, 113, 138,
       234, 179, 117, 207, 189, 2, 225]
     [0, 0, 0, 0, 234, 217, 227, 224, 45, 130, 213, 188] []
     [67, 204, 109, 98, 78, 69, 27, 190, 217, 82, 195, 224, 113, 220, 108, 3, 57, 44, 225, 30, 177, 67, 22, 169, 75, 47,
       220, 152, 178, 47, 237, 234] =
     ([83, 193, 232, 190, 242, 219, 184, 242, 80, 94, 192, 16, 167, 175, 226, 29, 90, 142, 109, 216, 249, 135, 228, 234,
       26, 46, 213, 223, 188, 132, 78, 164],
      [0, 219, 52, 73, 111, 210, 21, 53, 38, 198, 232, 124, 54, 105, 66, 0])"
proof -
  have cipher: "chacha20
     [74, 76, 117, 161, 219, 70, 106, 154, 227, 146, 175, 128, 33, 245, 126, 220, 121, 70, 34, 172, 148, 20, 157, 113, 138,
       234, 179, 117, 207, 189, 2, 225]
     [0, 0, 0, 0, 234, 217, 227, 224, 45, 130, 213, 188]
     [67, 204, 109, 98, 78, 69, 27, 190, 217, 82, 195, 224, 113, 220, 108, 3, 57, 44, 225, 30, 177, 67, 22, 169, 75, 47,
       220, 152, 178, 47, 237, 234] =
     [83, 193, 232, 190, 242, 219, 184, 242, 80, 94, 192, 16, 167, 175, 226, 29, 90, 142, 109, 216, 249, 135, 228, 234, 26,
       46, 213, 223, 188, 132, 78, 164]"
    by (simp add: chacha20_def chacha20_stream_short vector3_stream)
  have key: "take 32 (chacha20_block
     [74, 76, 117, 161, 219, 70, 106, 154, 227, 146, 175, 128, 33, 245, 126, 220, 121, 70, 34, 172, 148, 20, 157, 113, 138,
       234, 179, 117, 207, 189, 2, 225] 0
     [0, 0, 0, 0, 234, 217, 227, 224, 45, 130, 213, 188]) =
     [88, 253, 198, 35, 196, 2, 102, 163, 51, 108, 146, 29, 78, 99, 196, 40, 97, 207, 103, 128, 102, 34, 106, 175, 141, 6,
       85, 102, 103, 229, 165, 159]"
    by (simp add: vector3_mac)
  have msg: "pad16 [] @ pad16
     [83, 193, 232, 190, 242, 219, 184, 242, 80, 94, 192, 16, 167, 175, 226, 29, 90, 142, 109, 216, 249, 135, 228, 234, 26,
       46, 213, 223, 188, 132, 78, 164] @
     le_bytes 8 (length ([] :: bytes)) @ le_bytes 8 (length ([83, 193, 232, 190, 242, 219, 184, 242, 80, 94, 192, 16, 167,
       175, 226, 29, 90, 142, 109, 216, 249, 135, 228, 234, 26, 46, 213, 223, 188, 132, 78, 164] :: bytes)) =
     [83, 193, 232, 190, 242, 219, 184, 242, 80, 94, 192, 16, 167, 175, 226, 29, 90, 142, 109, 216, 249, 135, 228, 234, 26,
       46, 213, 223, 188, 132, 78, 164, 0, 0, 0, 0, 0, 0, 0, 0, 32, 0, 0, 0, 0, 0, 0, 0]"
    by (simp add: pad16_def le_bytes_numeral replicate_12)
  have tag: "poly1305
     [88, 253, 198, 35, 196, 2, 102, 163, 51, 108, 146, 29, 78, 99, 196, 40, 97, 207, 103, 128, 102, 34, 106, 175, 141, 6,
       85, 102, 103, 229, 165, 159]
     [83, 193, 232, 190, 242, 219, 184, 242, 80, 94, 192, 16, 167, 175, 226, 29, 90, 142, 109, 216, 249, 135, 228, 234, 26,
       46, 213, 223, 188, 132, 78, 164, 0, 0, 0, 0, 0, 0, 0, 0, 32, 0, 0, 0, 0, 0, 0, 0] =
     [0, 219, 52, 73, 111, 210, 21, 53, 38, 198, 232, 124, 54, 105, 66, 0]"
    by (simp add: poly1305_def le_bytes_numeral vector3_acc)
  show ?thesis unfolding rfc_enc_def Let_def cipher aead_tag_def key msg tag ..
qed

lemma vector3_test:
  "xchacha_test rfc_enc rfc_dec
     ([151, 145, 150, 219, 215, 133, 38, 242, 245, 132, 247, 83, 77, 179, 245, 130, 77, 140, 207, 168, 88, 202, 126, 9,
       189, 211, 101, 110, 205, 54, 3, 60])
     ([217, 168, 33, 62, 138, 105, 117, 8, 128, 92, 44, 23, 26, 213, 68, 135, 234, 217, 227, 224, 45, 130, 213, 188]) []
     ([67, 204, 109, 98, 78, 69, 27, 190, 217, 82, 195, 224, 113, 220, 108, 3, 57, 44, 225, 30, 177, 67, 22, 169, 75, 47,
       220, 152, 178, 47, 237, 234])
     (\<lambda>out. out = [83, 193, 232, 190, 242, 219, 184, 242, 80, 94, 192, 16, 167, 175, 226, 29, 90, 142, 109, 216,
       249, 135, 228, 234, 26, 46, 213, 223, 188, 132, 78, 164, 0, 219, 52, 73, 111, 210, 21, 53, 38, 198, 232, 124, 54,
       105, 66, 0])"
proof -
  have nonce: "derived_nonce
     [217, 168, 33, 62, 138, 105, 117, 8, 128, 92, 44, 23, 26, 213, 68, 135, 234, 217, 227, 224, 45, 130, 213, 188] =
     [0, 0, 0, 0, 234, 217, 227, 224, 45, 130, 213, 188]"
    unfolding derived_nonce_def put_slice_def replicate_12 by simp
  have enc: "rfc_enc (derived_key
     [151, 145, 150, 219, 215, 133, 38, 242, 245, 132, 247, 83, 77, 179, 245, 130, 77, 140, 207, 168, 88, 202, 126, 9, 189,
       211, 101, 110, 205, 54, 3, 60]
     [217, 168, 33, 62, 138, 105, 117, 8, 128, 92, 44, 23, 26, 213, 68, 135, 234, 217, 227, 224, 45, 130, 213, 188])
     (derived_nonce [217, 168, 33, 62, 138, 105, 117, 8, 128, 92, 44, 23, 26, 213, 68, 135, 234, 217, 227, 224, 45, 130,
       213, 188]) []
     [67, 204, 109, 98, 78, 69, 27, 190, 217, 82, 195, 224, 113, 220, 108, 3, 57, 44, 225, 30, 177, 67, 22, 169, 75, 47,
       220, 152, 178, 47, 237, 234] =
     ([83, 193, 232, 190, 242, 219, 184, 242, 80, 94, 192, 16, 167, 175, 226, 29, 90, 142, 109, 216, 249, 135, 228, 234,
       26, 46, 213, 223, 188, 132, 78, 164],
      [0, 219, 52, 73, 111, 210, 21, 53, 38, 198, 232, 124, 54, 105, 66, 0])"
    unfolding vector3_key nonce by (rule vector3_enc)
  show ?thesis by (rule xchacha_test_passes [OF lawful_rfc _ _ enc]) simp_all
qed

lemma wireguard_go_vectors_pass: "wireguard_go_vectors rfc_enc rfc_dec"
  unfolding wireguard_go_vectors_def xchacha_vectors_def list.pred_inject(2) prod.case
  by (intro conjI vector1_test vector2_test vector3_test list.pred_inject(1))

end
