(* ===== verification/RateTest.thy ===== *)
theory RateTest
  imports RateLimiter
begin

text \<open>
  The test of \<open>src/ratelimiter.rs\<close>, translated: a burst, a refusal, and packets after waiting, for fourteen
  addresses. The clock is an argument; the test passes for every clock that moves between two packets of an
  address and loses at most the time of one packet in all.
\<close>

section \<open>The test\<close>

text \<open>The expected answers and the time to sleep before them.\<close>

definition rate_items :: "(bool \<times> duration) list" where
  "rate_items =
     replicate (unat PACKETS_BURSTABLE) (True, 0) @
     [(False, 0), (True, unat PACKET_COST), (False, 0), (True, 2 * unat PACKET_COST), (True, 0), (False, 0)]"

definition rate_ips :: "ip_addr list" where
  "rate_ips =
     [IpV4 0x7F000001, IpV4 0xC0A80101, IpV4 0xACA70203, IpV4 0x61E7FCD7, IpV4 0xF8615BA7, IpV4 0xBCD0E92F,
      IpV4 0x6802B7B3, IpV4 0x48812E78,
      IpV6 0x20010db80a0b12f00000000000000001, IpV6 0xf5c2818fc052655a9860b136689425f0,
      IpV6 0xb2d715ab48a7b07ca541f144a9fe54fc, IpV6 0xa47b786e1671a22bd6f94ab0abc7c918,
      IpV6 0xea1ed1557f7a98fb2bf5948380f65445, IpV6 0x3f0e54a2f5b4cd19a21d58e1374684c4]"

text \<open>\<open>ck ip\<close> are the two readings of the clock in the call of \<open>allow\<close>; \<open>None\<close> is the panic of the test.\<close>

fun rate_check :: "(ip_addr \<Rightarrow> instant \<times> instant) \<Rightarrow> bool \<Rightarrow> ip_addr list \<Rightarrow> rate_limiter \<Rightarrow> rate_limiter option" where
  "rate_check ck allowed [] rl = Some rl"
| "rate_check ck allowed (ip # ips) rl =
     (let (ok, rl) = allow (fst (ck ip)) (snd (ck ip)) ip rl in
      if ok \<noteq> allowed then None else rate_check ck allowed ips rl)"

fun rate_loop :: "(nat \<Rightarrow> ip_addr \<Rightarrow> instant \<times> instant) \<Rightarrow> ip_addr list \<Rightarrow> nat \<Rightarrow> (bool \<times> duration) list \<Rightarrow> rate_limiter \<Rightarrow>
    rate_limiter option" where
  "rate_loop clock ips k [] rl = Some rl"
| "rate_loop clock ips k ((allowed, _) # items) rl =
     Option.bind (rate_check (clock k) allowed ips rl) (rate_loop clock ips (Suc k) items)"

definition rate_test :: "(nat \<Rightarrow> ip_addr \<Rightarrow> instant \<times> instant) \<Rightarrow> rate_limiter option" where
  "rate_test clock = rate_loop clock rate_ips 0 rate_items rl_new"

section \<open>Clocks\<close>

text \<open>The readings \<open>clock k ip\<close> of item \<open>k\<close>: the second is not before the first, an address is asked again after
  the sleep and at least a nanosecond later, and in all an address loses at most the time of one packet to
  anything but sleeping.\<close>

definition slept :: "nat \<Rightarrow> nat" where
  "slept k = sum_list (map snd (take (Suc k) rate_items))"

definition test_clock :: "(nat \<Rightarrow> ip_addr \<Rightarrow> instant \<times> instant) \<Rightarrow> bool" where
  "test_clock clock \<longleftrightarrow>
     (\<forall>k ip. fst (clock k ip) \<le> snd (clock k ip) \<and>
        snd (clock k ip) + (slept (Suc k) - slept k) < fst (clock (Suc k) ip)) \<and>
     (\<forall>k < length rate_items. \<forall>ip. snd (clock k ip) \<le> snd (clock 0 ip) + slept k + unat PACKET_COST)"

lemma rate_items_eq:
  "rate_items = [(True, 0), (True, 0), (True, 0), (True, 0), (True, 0), (False, 0), (True, 50000000), (False, 0),
     (True, 100000000), (True, 0), (False, 0)]"
proof -
  have "replicate 5 x = [x, x, x, x, x]" for x :: "bool \<times> duration" by (simp add: numeral_eq_Suc)
  moreover have "unat PACKETS_BURSTABLE = 5" by (simp add: PACKETS_BURSTABLE_def)
  ultimately show ?thesis by (simp add: rate_items_def rl_values)
qed

section \<open>What the loops do\<close>

lemma rate_check_all:
  assumes "distinct ips" and "\<forall>ip \<in> set ips. Q ip (map_of (rl_table rl) ip)"
    and step: "\<And>ip rl. Q ip (map_of (rl_table rl) ip) \<Longrightarrow>
      fst (allow (fst (ck ip)) (snd (ck ip)) ip rl) = allowed \<and>
      Q' ip (map_of (rl_table (snd (allow (fst (ck ip)) (snd (ck ip)) ip rl))) ip)"
  shows "\<exists>rl'. rate_check ck allowed ips rl = Some rl' \<and> (\<forall>ip \<in> set ips. Q' ip (map_of (rl_table rl') ip)) \<and>
    (\<forall>ip. ip \<notin> set ips \<longrightarrow> map_of (rl_table rl') ip = map_of (rl_table rl) ip)"
  using assms(1,2)
proof (induction ips arbitrary: rl)
  case (Cons ip ips)
  let ?rl = "snd (allow (fst (ck ip)) (snd (ck ip)) ip rl)"
  have other: "map_of (rl_table ?rl) a = map_of (rl_table rl) a" if "a \<noteq> ip" for a using that by (intro allow_other) simp
  have "\<forall>a \<in> set ips. Q a (map_of (rl_table ?rl) a)"
  proof
    fix a
    assume "a \<in> set ips"
    moreover then have "a \<noteq> ip" using Cons.prems(1) by auto
    ultimately show "Q a (map_of (rl_table ?rl) a)" using Cons.prems(2) other by simp
  qed
  moreover have "distinct ips" using Cons.prems(1) by simp
  ultimately obtain rl' where rl': "rate_check ck allowed ips ?rl = Some rl'"
    "\<forall>a \<in> set ips. Q' a (map_of (rl_table rl') a)" "\<forall>a. a \<notin> set ips \<longrightarrow> map_of (rl_table rl') a = map_of (rl_table ?rl) a"
    using Cons.IH by blast
  have first: "fst (allow (fst (ck ip)) (snd (ck ip)) ip rl) = allowed" "Q' ip (map_of (rl_table ?rl) ip)"
    using step [of ip rl] Cons.prems(2) by simp_all
  then have "rate_check ck allowed (ip # ips) rl = Some rl'" using rl'(1) by (simp add: split_beta)
  moreover have "Q' ip (map_of (rl_table rl') ip)" using first(2) rl'(3) Cons.prems(1) by simp
  ultimately show ?case using rl'(2,3) other by auto
qed simp

text \<open>The bucket of an address after item \<open>k\<close>: it has at least the tokens \<open>base\<close> of a clock without delays, and
  at most the delays more.\<close>

definition bucket :: "(nat \<Rightarrow> ip_addr \<Rightarrow> instant \<times> instant) \<Rightarrow> nat \<Rightarrow> nat \<Rightarrow> ip_addr \<Rightarrow> entry option \<Rightarrow> bool" where
  "bucket clock k base ip e \<longleftrightarrow>
     (\<exists>tk. e = Some \<lparr>last_time = Some (snd (clock k ip)), tokens = tk\<rparr> \<and> base \<le> unat tk \<and>
        unat tk + snd (clock 0 ip) + slept k \<le> base + snd (clock k ip))"

lemma bucket_step:
  assumes clock: "test_clock clock" and k: "Suc k < length rate_items" and b: "bucket clock k base ip (map_of (rl_table rl) ip)"
    and wait: "slept (Suc k) = slept k + w" and low: "base + w \<le> 200000000" "allowed \<longleftrightarrow> 50000000 \<le> base + w"
    and deny: "\<not> allowed \<longrightarrow> base + w = 0"
  shows "fst (allow (fst (clock (Suc k) ip)) (snd (clock (Suc k) ip)) ip rl) = allowed \<and>
    bucket clock (Suc k) (base + w - (if allowed then 50000000 else 0)) ip
      (map_of (rl_table (snd (allow (fst (clock (Suc k) ip)) (snd (clock (Suc k) ip)) ip rl))) ip)"
proof -
  let ?n1 = "fst (clock (Suc k) ip)" and ?n2 = "snd (clock (Suc k) ip)" and ?l = "snd (clock k ip)"
  obtain tk where e: "map_of (rl_table rl) ip = Some \<lparr>last_time = Some ?l, tokens = tk\<rparr>" and tk: "base \<le> unat tk"
    "unat tk + snd (clock 0 ip) + slept k \<le> base + ?l" using b by (auto simp: bucket_def)
  have t: "?n1 \<le> ?n2" "?l + w < ?n1" "?n2 \<le> snd (clock 0 ip) + slept k + w + 50000000"
  proof -
    show "?n1 \<le> ?n2" using clock by (simp add: test_clock_def)
    have "?l + (slept (Suc k) - slept k) < ?n1" using clock unfolding test_clock_def by blast
    then show "?l + w < ?n1" by (simp add: wait)
    have "?n2 \<le> snd (clock 0 ip) + slept (Suc k) + unat PACKET_COST" using clock k unfolding test_clock_def by blast
    then show "?n2 \<le> snd (clock 0 ip) + slept k + w + 50000000" by (simp add: wait rl_values)
  qed
  define d where "d = ?n1 - ?l"
  have d: "w < d" "d < 1000000000" "unat tk + d \<le> base + w + 50000000" using t tk low(1) unfolding d_def by linarith+
  have tokens: "unat (min MAX_TOKENS (tk + of_nat d)) = unat tk + d"
  proof -
    have "entry_ok ?l \<lparr>last_time = Some ?l, tokens = tk\<rparr>"
      using d low(1) by (simp add: entry_ok_def word_le_nat_alt rl_values)
    from unat_refill [OF this, of d] d low(1) show ?thesis by (simp add: subsec_nanos_def)
  qed
  let ?tk = "min MAX_TOKENS (tk + of_nat d)"
  have sub: "subsec_nanos (elapsed (Some ?l) ?n1) = d" using d t by (simp add: subsec_nanos_def elapsed_def d_def)
  have "50000000 < unat tk + d \<longleftrightarrow> allowed"
  proof (cases allowed)
    case True
    then have "50000000 \<le> base + w" using low(2) by simp
    then have "50000000 < unat tk + d" using tk(1) d(1) by linarith
    then show ?thesis using True by simp
  next
    case False
    then have "unat tk + d \<le> 50000000" using deny d(3) by simp
    then show ?thesis using False by simp
  qed
  then have less: "PACKET_COST < ?tk \<longleftrightarrow> allowed" unfolding word_less_nat_alt tokens rl_values .
  define tk' where "tk' = (if allowed then ?tk - PACKET_COST else ?tk)"
  have tk': "unat tk' + (if allowed then 50000000 else 0) = unat tk + d"
  proof (cases allowed)
    case True
    then have le: "PACKET_COST \<le> ?tk" using less less_imp_le by blast
    have "unat (?tk - PACKET_COST) = unat tk + d - 50000000" unfolding unat_sub [OF le] tokens rl_values ..
    moreover have "50000000 \<le> unat tk + d" using le unfolding word_le_nat_alt tokens rl_values .
    ultimately have "unat (?tk - PACKET_COST) + 50000000 = unat tk + d" by linarith
    then show ?thesis using True unfolding tk'_def by (simp only: if_True)
  next
    case False
    then show ?thesis unfolding tk'_def using tokens by (simp only: if_False add_0_right)
  qed
  have step: "allow ?n1 ?n2 ip rl = (allowed, rl\<lparr>rl_table := AList.update ip \<lparr>last_time = Some ?n2, tokens = tk'\<rparr> (rl_table rl)\<rparr>)"
    unfolding allow_def e option.case Let_def entry.simps timestamp_now_def sub less tk'_def by simp
  have "?n1 = ?l + d" using t(2) by (simp add: d_def)
  moreover define b' where "b' = base + w - (if allowed then 50000000 else 0)"
  moreover have "b' + (if allowed then 50000000 else 0) = base + w" using low(2) by (simp add: b'_def)
  ultimately have "b' \<le> unat tk'" "unat tk' + snd (clock 0 ip) + (slept k + w) \<le> b' + ?n2"
    using tk tk' d(1) t(1) by linarith+
  then show ?thesis unfolding step b'_def [symmetric] by (simp add: bucket_def wait)
qed

lemma bucket_first:
  assumes "map_of (rl_table rl) ip = None"
  shows "fst (allow (fst (clock 0 ip)) (snd (clock 0 ip)) ip rl) = True \<and>
    bucket clock 0 200000000 ip (map_of (rl_table (snd (allow (fst (clock 0 ip)) (snd (clock 0 ip)) ip rl))) ip)"
  using allow_new [OF assms, of "fst (clock 0 ip)" "snd (clock 0 ip)"]
  by (simp add: bucket_def slept_def rate_items_eq rl_values)

text \<open>The plan of a test: the tokens of a clock without delays decide every answer.\<close>

fun plan_ok :: "nat \<Rightarrow> (bool \<times> duration) list \<Rightarrow> bool" where
  "plan_ok base [] \<longleftrightarrow> True"
| "plan_ok base ((allowed, w) # items) \<longleftrightarrow>
     base + w \<le> 200000000 \<and> (allowed \<longleftrightarrow> 50000000 \<le> base + w) \<and> (\<not> allowed \<longrightarrow> base + w = 0) \<and>
     plan_ok (base + w - (if allowed then 50000000 else 0)) items"

lemma rate_loop_passes:
  assumes "test_clock clock" and "distinct ips" and "drop (Suc k) rate_items = items" and "plan_ok base items"
    and "\<And>ip. ip \<in> set ips \<Longrightarrow> bucket clock k base ip (map_of (rl_table rl) ip)"
  shows "rate_loop clock ips (Suc k) items rl \<noteq> None"
  using assms(3-5)
proof (induction items arbitrary: k base rl)
  case (Cons item items)
  obtain allowed w where item: "item = (allowed, w)" by fastforce
  have k: "Suc k < length rate_items"
  proof (rule ccontr)
    assume "\<not> Suc k < length rate_items"
    then have "drop (Suc k) rate_items = []" by simp
    with Cons.prems(1) show False by simp
  qed
  then have nth: "rate_items ! Suc k = (allowed, w)" "drop (Suc (Suc k)) rate_items = items"
    using Cons.prems(1) Cons_nth_drop_Suc [OF k] by (simp_all add: item)
  have wait: "slept (Suc k) = slept k + w" 
    unfolding slept_def take_Suc_conv_app_nth [OF k] nth(1) by simp
  let ?base = "base + w - (if allowed then 50000000 else 0)"
  have plan: "base + w \<le> 200000000" "allowed \<longleftrightarrow> 50000000 \<le> base + w" "\<not> allowed \<longrightarrow> base + w = 0" "plan_ok ?base items"
    using Cons.prems(2) unfolding item plan_ok.simps by blast+
  have "\<forall>ip \<in> set ips. bucket clock k base ip (map_of (rl_table rl) ip)" using Cons.prems(3) by blast
  then have "\<exists>rl'. rate_check (clock (Suc k)) allowed ips rl = Some rl' \<and>
      (\<forall>ip \<in> set ips. bucket clock (Suc k) ?base ip (map_of (rl_table rl') ip)) \<and>
      (\<forall>ip. ip \<notin> set ips \<longrightarrow> map_of (rl_table rl') ip = map_of (rl_table rl) ip)"
  proof (rule rate_check_all [OF assms(2)])
    fix ip and rl :: rate_limiter
    assume "bucket clock k base ip (map_of (rl_table rl) ip)"
    from bucket_step [OF assms(1) k this wait plan(1-3)]
    show "fst (allow (fst (clock (Suc k) ip)) (snd (clock (Suc k) ip)) ip rl) = allowed \<and>
      bucket clock (Suc k) ?base ip (map_of (rl_table (snd (allow (fst (clock (Suc k) ip)) (snd (clock (Suc k) ip)) ip rl))) ip)" .
  qed
  then obtain rl' where rl': "rate_check (clock (Suc k)) allowed ips rl = Some rl'"
    "\<And>ip. ip \<in> set ips \<Longrightarrow> bucket clock (Suc k) ?base ip (map_of (rl_table rl') ip)" by auto
  from Cons.IH [OF nth(2) plan(4) rl'(2)] show ?case by (simp add: item rl'(1))
qed simp

text \<open>The test passes.\<close>

lemma rate_test_passes:
  assumes "test_clock clock"
  shows "rate_test clock \<noteq> None"
proof -
  have dist: "distinct rate_ips" by (simp add: rate_ips_def)
  have "\<forall>ip \<in> set rate_ips. map_of (rl_table rl_new) ip = None" by (simp add: rl_new_def)
  from rate_check_all [where Q = "\<lambda>_ e. e = None" and Q' = "bucket clock 0 200000000", OF dist this bucket_first]
  obtain rl where rl: "rate_check (clock 0) True rate_ips rl_new = Some rl"
    "\<And>ip. ip \<in> set rate_ips \<Longrightarrow> bucket clock 0 200000000 ip (map_of (rl_table rl) ip)" by auto
  have "rate_loop clock rate_ips (Suc 0) (tl rate_items) rl \<noteq> None"
    by (rule rate_loop_passes [OF assms dist _ _ rl(2)]) (simp_all add: drop_Suc rate_items_eq)
  then show ?thesis by (simp add: rate_test_def rate_items_eq rl(1))
qed

text \<open>Such clocks exist, and with a clock that stands still the fifth packet of the burst is refused: the test
  relies on the time its own calls take.\<close>

lemma test_clock_exists: "test_clock (\<lambda>k ip. (slept k + k, slept k + k))"
proof -
  have "slept k \<le> slept (Suc k)" for k
    unfolding slept_def by (cases "Suc k < length rate_items") (simp_all add: take_Suc_conv_app_nth [of "Suc k"])
  then have "slept k + k + (slept (Suc k) - slept k) < slept (Suc k) + Suc k" for k by (metis add.assoc add.commute add_less_cancel_left le_add_diff_inverse lessI)
  moreover have "length rate_items = 11" by (simp add: rate_items_eq)
  ultimately show ?thesis unfolding test_clock_def rl_values by simp
qed

lemma burst_needs_time:
  "map fst (fst (foldl (\<lambda>(rs, rl) _. let r = allow t t ip rl in (rs @ [r], snd r)) ([], rl_new) [0..<5])) =
     [True, True, True, True, False]"
proof -
  have five: "[0..<5] = [0, 1, 2, 3, 4 :: nat]" by (simp add: upt_rec)
  show ?thesis
    unfolding five
    by (simp add: allow_def rl_new_def Let_def timestamp_now_def subsec_nanos_def MAX_TOKENS_def PACKET_COST_def
        PACKETS_PER_SECOND_def PACKETS_BURSTABLE_def)
qed

end
