(* ===== verification/SessionMachine.thy ===== *)
theory SessionMachine
  imports PeerTransport
begin

text \<open>
  The life of the sessions of a peer as an abstract state machine on receiver indices, and the proof that
  the operations of \<open>src/peer.rs\<close> implement it. A state of the machine has the indices of the past, the
  current and the next session; a step is labelled with the indices it opens and those it drops.
\<close>

section \<open>The machine\<close>

type_synonym slots = "u32 option \<times> u32 option \<times> u32 option"

inductive slot_step :: "slots \<Rightarrow> u32 list \<Rightarrow> u32 list \<Rightarrow> slots \<Rightarrow> bool" where
  keep: "slot_step s [] [] s"
| open_first: "slot_step (p, c, None) [i] [] (p, c, Some i)"
| open_again: "slot_step (p, c, Some n) [i] (opt_list p) (Some n, c, Some i)"
| establish: "slot_step (p, c, Some n) [] (opt_list p) (c, Some n, None)"
| abandon: "slot_step (p, c, Some n) [] [n] (p, c, None)"
| wipe: "slot_step (p, c, n) [] (opt_list p @ opt_list c @ opt_list n) (None, None, None)"

inductive_cases slot_stepE: "slot_step s opened dead s'"

fun slot_indices :: "slots \<Rightarrow> u32 list" where
  "slot_indices (p, c, n) = opt_list p @ opt_list c @ opt_list n"

text \<open>What happens to the indices in a step: none appears or disappears unnoticed.\<close>

lemma slot_step_ledger:
  "slot_step s opened dead s' \<Longrightarrow> mset (slot_indices s') + mset dead = mset (slot_indices s) + mset opened"
  by (induction rule: slot_step.induct) (auto simp: ac_simps)

text \<open>States reached from the empty one when no index is opened twice; \<open>used\<close> has the indices opened so far.\<close>

inductive slots_reachable :: "u32 list \<Rightarrow> slots \<Rightarrow> bool" where
  start: "slots_reachable [] (None, None, None)"
| step: "slots_reachable used s \<Longrightarrow> slot_step s opened dead s' \<Longrightarrow> distinct (used @ opened) \<Longrightarrow>
    slots_reachable (used @ opened) s'"

lemma slots_reachable_distinct:
  "slots_reachable used s \<Longrightarrow> distinct (slot_indices s) \<and> set (slot_indices s) \<subseteq> set used"
proof (induction rule: slots_reachable.induct)
  case (step used s opened dead s')
  have "mset (slot_indices s') \<subseteq># mset (slot_indices s @ opened)"
    using slot_step_ledger [OF step.hyps(2)] by (metis mset_append mset_subset_eq_add_left)
  moreover have "distinct (slot_indices s @ opened)" using step.IH step.hyps(3) by auto
  ultimately have "distinct (slot_indices s')" "set (slot_indices s') \<subseteq> set (slot_indices s @ opened)"
    using distinct_mset_subset [of "slot_indices s'" "slot_indices s @ opened"] set_mset_mono by fastforce+
  then show ?case using step.IH by auto
qed simp

lemma slots_reachable_used: "slots_reachable used s \<Longrightarrow> distinct used"
  by (induction rule: slots_reachable.induct) simp_all

section \<open>The implementation\<close>

definition slots_of :: "'n peer \<Rightarrow> slots" where
  "slots_of p =
     (map_option our_index (past (sessions p)), map_option our_index (current (sessions p)),
      map_option our_index (next_s (sessions p)))"

text \<open>The indices an operation reports as dead, which its caller takes out of the index map.\<close>

fun reported_dead :: "'n noise_ops \<Rightarrow> crypto \<Rightarrow> ip_parsers \<Rightarrow> 'n peer_event \<Rightarrow> 'n peer \<Rightarrow> u32 list" where
  "reported_dead N C P (InitiateSession k i ent now wall) p =
     (case fst (initiate_new_session N C k i ent now wall p) of Inr (_, _, d) \<Rightarrow> opt_list d | Inl _ \<Rightarrow> [])"
| "reported_dead N C P (CompleteHandshake addr i h now) p =
     (case fst (complete_incoming_handshake N C addr i h now p) of Inr (_, d) \<Rightarrow> opt_list d | Inl _ \<Rightarrow> [])"
| "reported_dead N C P (HandshakeResponse addr packet now) p =
     (case fst (process_incoming_handshake_response N addr packet now p) of Inr d \<Rightarrow> opt_list d | Inl _ \<Rightarrow> [])"
| "reported_dead N C P (IncomingTransport addr packet now) p =
     (case fst (handle_incoming_transport N P addr packet now p) of Inr (_, t) \<Rightarrow> transition_dead t | Inl _ \<Rightarrow> [])"
| "reported_dead N C P WipeSessions p = (case fst (wipe_sessions p) of Inr indices \<Rightarrow> indices | Inl _ \<Rightarrow> [])"
| "reported_dead N C P _ p = []"

definition lost_handshake :: "'n noise_ops \<Rightarrow> 'n peer_event \<Rightarrow> 'n peer \<Rightarrow> bool" where
  "lost_handshake N ev p =
     (case ev of
        HandshakeResponse addr packet now \<Rightarrow>
          next_s (sessions p) \<noteq> None \<and> isl (fst (process_incoming_handshake_response N addr packet now p))
      | _ \<Rightarrow> False)"

lemma slots_of_simps [simp]:
  "slots_of (p\<lparr>info := i\<rparr>) = slots_of p" "slots_of (p\<lparr>timers := t\<rparr>) = slots_of p"
  "slots_of (p\<lparr>outgoing_queue := q\<rparr>) = slots_of p" "slots_of (p\<lparr>p_cookie := g\<rparr>) = slots_of p"
  "slots_of (p\<lparr>last_handshake_tai64n := l\<rparr>) = slots_of p"
  "slots_of (p\<lparr>tx_bytes := x\<rparr>) = slots_of p" "slots_of (p\<lparr>rx_bytes := x\<rparr>) = slots_of p"
  "slots_of (note_received addr packet raw now p) = slots_of p" "slots_of (note_sent pkt msg now p) = slots_of p"
  by (simp_all add: slots_of_def note_received_def note_sent_def)

lemma slots_of_cong: "sessions p' = sessions p \<Longrightarrow> slots_of p' = slots_of p"
  by (simp add: slots_of_def)

lemma slots_of_put: "session_at ty p = Some s \<Longrightarrow> our_index s' = our_index s \<Longrightarrow> slots_of (put_session ty s' p) = slots_of p"
  by (cases ty) (auto simp: session_at_def put_session_def slots_of_def)

lemma replace_next_step:
  assumes "replace_next s p = (d, p')"
  shows "slot_step (slots_of p) [our_index s] (opt_list d) (slots_of p')"
proof (cases "next_s (sessions p)")
  case None
  then show ?thesis using assms by (auto simp: replace_next_def slots_of_def intro: slot_step.intros)
next
  case (Some n)
  then have "d = map_option our_index (past (sessions p))"
    "slots_of p' = (Some (our_index n), map_option our_index (current (sessions p)), Some (our_index s))"
    using assms by (auto simp: replace_next_def slots_of_def)
  then show ?thesis using Some
    slot_step.open_again [of "map_option our_index (past (sessions p))" "map_option our_index (current (sessions p))" "our_index n" "our_index s"]
    by (simp add: slots_of_def [of p])
qed

section \<open>Every operation is a step\<close>

lemma establish_step:
  assumes "next_s (sessions p) = Some s" and "our_index s' = our_index s"
    and "sessions p' = \<lparr>past = current (sessions p), current = Some s', next_s = None\<rparr>"
  shows "slot_step (slots_of p) [] (opt_list (map_option our_index (past (sessions p)))) (slots_of p')"
  using assms slot_step.establish [of "map_option our_index (past (sessions p))" "map_option our_index (current (sessions p))" "our_index s"]
  by (simp add: slots_of_def)

lemma initiate_step:
  "slot_step (slots_of p) [i] (reported_dead N C P (InitiateSession k i ent now wall) p)
     (slots_of (snd (initiate_new_session N C k i ent now wall p))) \<or>
   slots_of (snd (initiate_new_session N C k i ent now wall p)) = slots_of p \<and>
     reported_dead N C P (InitiateSession k i ent now wall) p = []"
proof -
  obtain r p' where r: "initiate_new_session N C k i ent now wall p = (r, p')" by fastforce
  then show ?thesis
  proof (cases rule: initiate_cases)
    case (ok noise0 ep msg noise mac1 mac2 cookie d)
    have "slot_step (slots_of p) [i] (opt_list d) (slots_of p')"
      using replace_next_step [OF ok(5)] by (simp add: session_new_def)
    then show ?thesis using r ok(6) by simp
  qed (use r in simp)
qed

lemma complete_step:
  "slot_step (slots_of p) [i] (reported_dead N C P (CompleteHandshake addr i h now) p)
     (slots_of (snd (complete_incoming_handshake N C addr i h now p))) \<or>
   slots_of (snd (complete_incoming_handshake N C addr i h now p)) = slots_of p \<and>
     reported_dead N C P (CompleteHandshake addr i h now) p = []"
proof -
  obtain r p' where r: "complete_incoming_handshake N C addr i h now p = (r, p')" by fastforce
  then show ?thesis
  proof (cases rule: complete_cases)
    case (ok noise1 msg noise2 mac1 mac2 cookie noise3 d q)
    have "slots_of p' = slots_of q" by (rule slots_of_cong) (simp add: ok(7))
    then have "slot_step (slots_of p) [i] (opt_list d) (slots_of p')"
      using replace_next_step [OF ok(6)] by (simp add: session_with_their_index_def)
    then show ?thesis using r ok(8) by simp
  next
    case (err e)
    then show ?thesis using r slots_of_cong [of p' p] by simp
  qed
qed

lemma response_step:
  "slot_step (slots_of p) [] (reported_dead N C P (HandshakeResponse addr packet now) p)
     (slots_of (snd (process_incoming_handshake_response N addr packet now p))) \<or>
   lost_handshake N (HandshakeResponse addr packet now) p \<and>
     reported_dead N C P (HandshakeResponse addr packet now) p = [] \<and>
     slot_step (slots_of p) [] (opt_list (map_option our_index (next_s (sessions p))))
       (slots_of (snd (process_incoming_handshake_response N addr packet now p)))"
proof -
  obtain r p' where r: "process_incoming_handshake_response N addr packet now p = (r, p')" by fastforce
  then show ?thesis
  proof (cases rule: handshake_response_cases)
    case none
    then show ?thesis using r slot_step.keep by simp
  next
    case (err e s)
    have "slot_step (slots_of p) [] [our_index s] (slots_of p')"
      using slot_step.abandon [of "map_option our_index (past (sessions p))" "map_option our_index (current (sessions p))" "our_index s"]
      by (simp add: slots_of_def err)
    then show ?thesis using r err by (simp add: lost_handshake_def)
  next
    case (ok s payload noise1 noise2)
    have "slot_step (slots_of p) [] (opt_list (map_option our_index (past (sessions p)))) (slots_of p')"
      by (rule establish_step [OF ok(1)]) (simp_all add: ok(5))
    then show ?thesis using r ok(4) by simp
  qed
qed

lemma incoming_step:
  "slot_step (slots_of p) [] (reported_dead N C P (IncomingTransport addr packet now) p)
     (slots_of (snd (handle_incoming_transport N P addr packet now p)))"
proof -
  obtain r p' where r: "handle_incoming_transport N P addr packet now p = (r, p')" by fastforce
  then show ?thesis
  proof (cases rule: incoming_cases)
    case none
    then show ?thesis using r slot_step.keep by simp
  next
    case (err s ty e s')
    have "slots_of p' = slots_of p"
      using slots_of_put [OF find_sessionD(1) [OF err(1)] receive_index [OF err(2)]] err(4) by simp
    then show ?thesis using r err(3) slot_step.keep by simp
  next
    case (ok s ty raw s')
    have "slots_of p' = slots_of p"
      using slots_of_put [OF find_sessionD(1) [OF ok(1)] receive_index [OF ok(3)]] ok(5) by simp
    then show ?thesis using r ok(4) slot_step.keep by (simp add: transition_dead_def)
  next
    case (rotate s raw s')
    have "next_s (sessions p) = Some s" using find_sessionD(1) [OF rotate(1)] by (simp add: session_at_def)
    then have "slot_step (slots_of p) [] (opt_list (map_option our_index (past (sessions p)))) (slots_of p')"
      by (rule establish_step [OF _ receive_index [OF rotate(2)]])
        (simp add: rotate(4) note_received_def rotate_sessions_def put_session_def)
    then show ?thesis using r rotate(3) by (simp add: transition_dead_def)
  qed
qed

lemma outgoing_slots: "slots_of (snd (handle_outgoing_transport N packet now p)) = slots_of p"
proof -
  obtain r p' where r: "handle_outgoing_transport N packet now p = (r, p')" by fastforce
  then have "slots_of p' = slots_of p"
  proof (cases rule: outgoing_cases)
    case (late e s noise)
    then show ?thesis using slots_of_put [of Current p s "s\<lparr>s_noise := noise\<rparr>"] by (simp add: session_at_def)
  next
    case (ok s ep nonce msg noise)
    then show ?thesis using slots_of_put [of Current p s "s\<lparr>s_noise := noise\<rparr>"] by (simp add: session_at_def)
  qed simp
  then show ?thesis using r by simp
qed

lemma peer_step_slots:
  "\<exists>opened dead. slot_step (slots_of p) opened dead (slots_of (peer_step N C P ev p)) \<and> set opened \<subseteq> set (event_index ev) \<and>
     (reported_dead N C P ev p = dead \<or>
      lost_handshake N ev p \<and> reported_dead N C P ev p = [] \<and> dead = opt_list (map_option our_index (next_s (sessions p))))"
proof (cases ev)
  case (InitiateSession k i ent now wall)
  then show ?thesis using initiate_step [of p i N C P k ent now wall] slot_step.keep [of "slots_of p"] by fastforce
next
  case (CompleteHandshake addr i h now)
  then show ?thesis using complete_step [of p i N C P addr h now] slot_step.keep [of "slots_of p"] by fastforce
next
  case (HandshakeResponse addr packet now)
  then show ?thesis using response_step [of p N C P addr packet now] by fastforce
next
  case (IncomingTransport addr packet now)
  then show ?thesis using incoming_step [of p N C P addr packet now] by fastforce
next
  case WipeSessions
  have "slot_step (slots_of p) [] (get_mapped_indices p) (None, None, None)"
    using slot_step.wipe [of "map_option our_index (past (sessions p))" "map_option our_index (current (sessions p))"
        "map_option our_index (next_s (sessions p))"]
    by (simp add: slots_of_def get_mapped_indices_def index_of_opt_list opt_list_def split: option.splits)
  moreover have "slots_of (peer_step N C P ev p) = (None, None, None)" "reported_dead N C P ev p = get_mapped_indices p"
    by (simp_all add: WipeSessions wipe_sessions_def wipe_def slots_of_def sessions_default_def get_mapped_indices_def)
  ultimately show ?thesis by (metis empty_subsetI list.set(1))
next
  case (OutgoingTransport packet now)
  then show ?thesis using slot_step.keep [of "slots_of p"] by (fastforce simp: outgoing_slots)
next
  case (QueueEgress packet)
  have "slots_of (queue_egress packet p) = slots_of p" by (rule slots_of_cong) (simp add: queue_egress_def)
  then show ?thesis using slot_step.keep [of "slots_of p"] by (fastforce simp: QueueEgress)
next
  case (ConsumeCookie reply now)
  have "slots_of (snd (consume_cookie_reply C reply now p)) = slots_of p"
    by (rule slots_of_cong) (simp add: consume_cookie_reply_def split: prod.split)
  then show ?thesis using slot_step.keep [of "slots_of p"] by (fastforce simp: ConsumeCookie)
qed (use slot_step.keep [of "slots_of p"] in \<open>fastforce+\<close>)

text \<open>So the sessions of a peer always have different indices, as long as no index is drawn twice.\<close>

lemma peer_run_slots:
  "slots_reachable used (slots_of p) \<Longrightarrow> distinct (concat (map event_index evs)) \<Longrightarrow>
     set used \<inter> set (concat (map event_index evs)) = {} \<Longrightarrow> \<exists>used'. slots_reachable used' (slots_of (peer_run N C P evs p))"
proof (induction evs arbitrary: used p)
  case (Cons ev evs)
  obtain opened dead where s: "slot_step (slots_of p) opened dead (slots_of (peer_step N C P ev p))" "set opened \<subseteq> set (event_index ev)"
    using peer_step_slots [of p N C P ev] by blast
  have "distinct opened" using s(1) by (auto elim: slot_stepE)
  then have "slots_reachable (used @ opened) (slots_of (peer_step N C P ev p))"
    using Cons.prems s slots_reachable_used [OF Cons.prems(1)] by (intro slots_reachable.step [OF Cons.prems(1) s(1)]) auto
  moreover have "distinct (concat (map event_index evs))" "set (used @ opened) \<inter> set (concat (map event_index evs)) = {}"
    using Cons.prems(2,3) s(2) by auto
  ultimately show ?case using Cons.IH by auto
qed auto

lemma peer_sessions_distinct:
  fixes N :: "'n noise_ops"
  assumes "distinct (concat (map event_index evs))"
  shows "distinct (slot_indices (slots_of (peer_run N C P evs (peer_new C i))))"
proof -
  have "slots_of (peer_new C i :: 'n peer) = (None, None, None)" by (simp add: slots_of_def peer_new_def sessions_default_def)
  then have "slots_reachable [] (slots_of (peer_new C i :: 'n peer))" by (simp add: slots_reachable.start)
  from peer_run_slots [OF this assms] slots_reachable_distinct show ?thesis by fastforce
qed

text \<open>C16: the operations of a peer implement the session machine: whatever an operation does, the indices of the
  past, current and next session change by a step of the machine, a new session has the index the caller
  drew, and the indices the operation reports as dead are those the machine drops. The one exception is a
  handshake response that fails: it drops the pending session without reporting its index.\<close>

theorem session_machine_refined:
  "\<exists>opened dead. slot_step (slots_of p) opened dead (slots_of (peer_step N C P ev p)) \<and> set opened \<subseteq> set (event_index ev) \<and>
     (reported_dead N C P ev p = dead \<or>
      lost_handshake N ev p \<and> reported_dead N C P ev p = [] \<and> dead = opt_list (map_option our_index (next_s (sessions p))))"
  by (rule peer_step_slots)

end
