(* ===== verification/TimerProperties.thy ===== *)
theory TimerProperties
  imports DeviceRun
begin

text \<open>
  What the timers of the peer server promise: how often a handshake is retried, and when keepalives stop.
\<close>

section \<open>Retries of a handshake\<close>

abbreviation attempts :: "peer_ref \<Rightarrow> ('n, 't4, 't6) server \<Rightarrow> u64" where
  "attempts r sv \<equiv> handshake_attempts (timers (peer_at sv r))"

text \<open>A series of rekey ticks of a peer while no packet is queued for it, and the number of initiations that
  retry an unanswered handshake.\<close>

definition retries :: "u32 \<Rightarrow> peer_ref \<Rightarrow> unit result \<Rightarrow> ('n, 't4, 't6) server \<Rightarrow> bool" where
  "retries index r x sv \<longleftrightarrow>
     x = Inr () \<and> (case find_session index (peer_at sv r) of Some (_, Next) \<Rightarrow> True | _ \<Rightarrow> False)"

fun rekey_ticks ::
  "('n, 't4, 't6) libs \<Rightarrow> peer_ref \<Rightarrow> (env \<times> u32) list \<Rightarrow> ('n, 't4, 't6) server \<Rightarrow> nat \<times> ('n, 't4, 't6) server" where
  "rekey_ticks L r [] sv = (0, sv)"
| "rekey_ticks L r ((E, index) # ticks) sv =
     (let (x, sv') = handle_timer L E (Rekey r index) sv;
          (n, sv'') = rekey_ticks L r ticks sv'
      in (of_bool (retries index r x sv) + n, sv''))"

lemma timers_initiate:
  "timers (snd (initiate_new_session N C key index ent now wall p)) = timers p"
  by (auto simp: initiate_new_session_def replace_next_def Let_def split: sum.splits option.splits prod.splits)

lemma attempts_simps [simp]:
  "attempts r (snd (arm E wait m sv)) = attempts r sv" "attempts r (snd (send_to_peer message sv)) = attempts r sv"
  "attempts r (set_timers q (handshake_initialized_update f) sv) = attempts r sv"
  by (auto simp: peer_at_def arm_def send_to_peer_def set_timers_def set_peer_def put_peer_def split: prod.split option.split)

lemma attempts_open_session: "attempts r (snd (open_session L E key index q sv)) = attempts r sv"
  using timers_initiate [of "noise_lib L" "crypto_lib L" key index "e_entropy E" "e_now E" "e_wall E" "peer_at sv q"]
  by (auto simp: open_session_def peer_call_def Let_def split: and_then_splits prod.splits)

lemma attempts_send_handshake_init: "attempts r (snd (send_handshake_init L E q sv)) = attempts r sv"
  by (auto simp: send_handshake_init_def Let_def case_prod_beta attempts_open_session split: option.split
      intro!: and_then_inv [where P = "\<lambda>s. attempts r s = attempts r sv"])

lemma attempts_step: "a < MAX_HANDSHAKE_ATTEMPTS \<Longrightarrow> unat (a + 1) = unat a + 1"
proof -
  assume "a < MAX_HANDSHAKE_ATTEMPTS"
  then have "unat a < 17" by (simp add: MAX_HANDSHAKE_ATTEMPTS_value word_less_nat_alt)
  then show "unat (a + 1) = unat a + 1" by (simp add: unat_word_ariths)
qed

lemma rekey_tick_attempts:
  assumes "handle_timer L E (Rekey r index) sv = (x, sv')"
  shows "if retries index r x sv then attempts r sv < MAX_HANDSHAKE_ATTEMPTS \<and> attempts r sv' = attempts r sv + 1
    else unat (attempts r sv) \<le> unat (attempts r sv')"
proof (cases "upgrade r sv")
  case False
  then show ?thesis using assms by (auto simp: handle_timer_def retries_def)
next
  case True
  have tick: "handle_rekey L E r index sv = (x, sv')" using assms True by (simp add: handle_timer_def)
  show ?thesis
  proof (cases "\<exists>s. find_session index (peer_at sv r) = Some (s, Next)")
    case next_session: True
    then show ?thesis
    proof (cases "elapsed (handshake_initialized (timers (peer_at sv r))) (e_now E) < REKEY_TIMEOUT \<or>
        MAX_HANDSHAKE_ATTEMPTS \<le> attempts r sv")
      case True
      then show ?thesis using tick next_session
        by (auto simp: handle_rekey_def rearm_def retries_def Let_def split: if_splits)
    next
      case False
      let ?sv = "set_timers r (handshake_attempts_update (\<lambda>n. n + 1)) sv"
      have "attempts r ?sv = attempts r sv + 1" by (simp add: set_timers_def)
      moreover have "attempts r sv' = attempts r ?sv"
        using tick next_session False attempts_send_handshake_init [where r = r and L = L and E = E and q = r and sv = ?sv]
        by (auto simp: handle_rekey_def Let_def split: and_then_splits)
      ultimately show ?thesis using False attempts_step [of "attempts r sv"] by (auto simp: not_le)
    qed
  next
    case False
    then have no: "\<not> retries index r x sv" by (auto simp: retries_def split: option.splits session_type.splits)
    have "attempts r sv' = attempts r sv"
      using tick False attempts_send_handshake_init [where r = r and L = L and E = E and q = r and sv = sv]
      by (auto simp: handle_rekey_def rearm_def Let_def split: option.splits session_type.splits if_splits and_then_splits)
    then show ?thesis using no by simp
  qed
qed

text \<open>C10: an unanswered handshake is retried at most \<open>MAX_HANDSHAKE_ATTEMPTS\<close> times: in any series of rekey ticks
  of a peer without a new packet for it, whatever the clock, the random draws and the other answers of
  the system are, the number of initiations sent again is at most what is left of that limit.\<close>

theorem rekey_retries_bounded:
  "fst (rekey_ticks L r ticks sv) \<le>
     unat MAX_HANDSHAKE_ATTEMPTS - unat (handshake_attempts (timers (peer_at sv r)))"
proof (induction ticks arbitrary: sv)
  case (Cons tick ticks)
  obtain E index where t: "tick = (E, index)" by fastforce
  obtain x sv' where h: "handle_timer L E (Rekey r index) sv = (x, sv')" by fastforce
  have ih: "fst (rekey_ticks L r ticks sv') \<le> unat MAX_HANDSHAKE_ATTEMPTS - unat (attempts r sv')" by (rule Cons)
  show ?case
  proof (cases "retries index r x sv")
    case True
    then have "attempts r sv < MAX_HANDSHAKE_ATTEMPTS" "unat (attempts r sv') = unat (attempts r sv) + 1"
      using rekey_tick_attempts [OF h] attempts_step [of "attempts r sv"] by auto
    then have "unat (attempts r sv) < unat MAX_HANDSHAKE_ATTEMPTS" "unat (attempts r sv') = unat (attempts r sv) + 1"
      by (simp_all add: word_less_nat_alt)
    then show ?thesis using ih True by (simp add: t h case_prod_beta)
  next
    case False
    then have "unat (attempts r sv) \<le> unat (attempts r sv')" using rekey_tick_attempts [OF h] by simp
    then show ?thesis using ih False by (simp add: t h case_prod_beta)
  qed
qed simp

section \<open>Keepalives\<close>

text \<open>C39: a persistent keepalive that falls due while the peer has no current session is not only skipped: the
  handler fails before it arms the next timer, so no keepalive is sent again until the interval is
  configured anew.\<close>

theorem persistent_keepalive_lost:
  assumes "upgrade r sv" and "persistent_keepalive (info (peer_at sv r)) = Some interval"
    and "interval \<le> elapsed (authenticated_traversed (timers (peer_at sv r))) (e_now E)"
    and "current (sessions (peer_at sv r)) = None"
  shows "handle_timer L E (PersistentKeepAlive r) sv = (Inl (Err ''no current noise session''), sv)"
proof -
  have "set_peer r (peer_at sv r) sv = sv" by (simp add: set_peer_def put_peer_def peer_at_def)
  then show ?thesis using assms
    by (simp add: handle_timer_def handle_persistent_keepalive_def send_transport_def peer_call_def handle_outgoing_transport_def)
qed

definition keepalive_server ::
  "(clear_session, ((32 word \<times> nat) \<times> peer_ref) list, ((128 word \<times> nat) \<times> peer_ref) list) server" where
  "keepalive_server =
     (interface_start test_libs 0)
       \<lparr>shared_state := (state_default test_crypto alist_router)
          \<lparr>heap := \<lambda>_. peer_new test_crypto (peer_info_default\<lparr>keepalive := Some 25\<rparr>), pubkey_map := [(replicate 32 0, 0)]\<rparr>\<rparr>"

theorem persistent_keepalive_lost_witness:
  "handle_timer test_libs (test_env 7) (PersistentKeepAlive 0) keepalive_server =
     (Inl (Err ''no current noise session''), keepalive_server)"
  by (rule persistent_keepalive_lost [where interval = "secs 25"])
    (simp_all add: keepalive_server_def upgrade_def interface_start_def peer_server_new_def peer_at_def peer_new_def
      persistent_keepalive_def peer_info_default_def timers_default_def timestamp_default_def elapsed_def FOREVER_def secs_def
      sessions_default_def)

end
