(* ===== verification/Spec2Isabelle.thy ===== *)
theory Spec2Isabelle
  imports Program ReplayTest Timestamp Message ChaChaPoly Cookie Router RateTest SessionMachine ServerProperties
    TimerProperties
begin

text \<open>
  A verification development of the userspace WireGuard implementation under \<open>src/src\<close>.

  \<^bold>\<open>The program.\<close> One process drives one tunnel interface. \<open>Interface::start\<close> (\<open>interface/mod.rs\<close>) joins the
  futures of the tunnel device, the configuration service (\<open>interface/config.rs\<close>) and the peer server
  (\<open>interface/peer_server.rs\<close>), which share a \<open>State\<close>: the peers by public key, the peers by receiver index,
  the routing table (\<open>router.rs\<close>) and the interface settings. The peer server reacts to configuration
  events, timers (\<open>timer.rs\<close>), datagrams of the UDP sockets (\<open>udp/\<close>), packets of the tunnel and queued
  handshakes. It calls the peers (\<open>peer.rs\<close>), which hold the past, current and next session, each with a
  Noise session (\<open>noise.rs\<close>), a replay window (\<open>anti_replay.rs\<close>) and indices, and answers floods of
  handshakes with cookies (\<open>cookie.rs\<close>, \<open>xchacha20poly1305.rs\<close>) and a rate limiter (\<open>ratelimiter.rs\<close>).

  \<^bold>\<open>Conventions.\<close> \<open>Prelude\<close> has the machine integers as words, buffers as lists of bytes, the error type
  (\<open>Err\<close> with the source's message, \<open>Panicked\<close> for every panic that can be reached), \<open>and_then\<close> for the \<open>?\<close>
  operator of methods that change \<open>self\<close>, slices, byte orders and hash maps as association lists. A method
  with \<open>&mut self\<close> returns its result and the new state. Durations and instants are natural numbers of
  nanoseconds. Clock readings and random draws are arguments; a handler of the peer server reads them from
  a record \<open>env\<close>, one per call, so all readings within one call are the same. Code outside the repository is
  a parameter: the Noise sessions, the cryptographic primitives, the IP header parsers, the routing tables,
  hexadecimal text, the operating system's sockets and files. What is assumed of a parameter is a
  predicate (\<open>lawful_noise\<close>, \<open>lawful_crypto\<close>, \<open>lawful_router\<close>, \<open>lawful_hex\<close>, \<open>lawful_fs\<close> and so on), and each
  has an instance that satisfies it, on which the witnesses run. The standard library is not a parameter:
  numbers and addresses in text, UTF-8 and collections are defined.

  \<^bold>\<open>Theories, and what they show.\<close>

  \<^item> \<open>Consts\<close> (\<open>consts.rs\<close>), \<open>Types\<close> (\<open>types.rs\<close> and the endpoints of \<open>udp/mod.rs\<close>), \<open>Tunnel\<close> (packets of the
    tunnel device, \<open>interface/mod.rs\<close>): the data and the constants at their types.
  \<^item> \<open>Timestamp\<close> (\<open>timestamp.rs\<close>): the byte order of TAI64N is a linear order and the order of time.
  \<^item> \<open>AntiReplay\<close> (\<open>anti_replay.rs\<close>): the bitmap gives the verdicts of a specification that remembers every
    nonce, and accepts none twice. \<open>ReplayTest\<close>: the test of the file, which the specification decides.
  \<^item> \<open>Message\<close> (\<open>message.rs\<close>): which datagrams parse, and the field accessors, one of which reads the wrong
    bytes.
  \<^item> \<open>XChaCha\<close> (\<open>xchacha20poly1305.rs\<close>): the unrolled rounds equal the reference definition; encryption and
    decryption are inverse. \<open>ChaChaPoly\<close>: ChaCha20-Poly1305 of RFC 8439 as an instance of the AEAD, with which the
    tests of the file pass; the simplifier evaluates its vectors on lists of bits.
  \<^item> \<open>Cookie\<close> (\<open>cookie.rs\<close>): agreement of both MACs between generator and validator.
  \<^item> \<open>Router\<close> (\<open>router.rs\<close>, \<open>ip_packet.rs\<close>): after any history a lookup is the longest prefix match; the
    verdicts of the source check.
  \<^item> \<open>RateLimiter\<close> (\<open>ratelimiter.rs\<close>): the bound on admitted packets per address, by the token bucket locale,
    and what the refill forgets. \<open>RateTest\<close>: the test of the file passes for every clock that moves between
    packets and loses little time, and fails for one that stands still.
  \<^item> \<open>Timer\<close> (\<open>timer.rs\<close>): a timer delivers at most once. \<open>Noise\<close> (\<open>noise.rs\<close>): the builders and the laws of a
    Noise session.
  \<^item> \<open>Peer\<close>, \<open>PeerSessions\<close>, \<open>PeerTransport\<close> (\<open>peer.rs\<close>): the operations; the locale \<open>session_op\<close>, a ledger of
    session indices that every operation keeps, and replay protection and increasing handshake timestamps
    over the life of a peer; the handshake, the delivery of packets, sizes and the absence of panics.
    \<open>SessionMachine\<close>: the session slots as an inductive step relation, and the refinement of every operation
    to a step of it.
  \<^item> \<open>Device\<close> (\<open>State\<close> and \<open>handle_update\<close>): peers live in a store, a \<open>SharedPeer\<close> is a reference into it.
    \<open>wf_state\<close> relates the maps, the routes and the session indices, and every update keeps it.
  \<^item> \<open>Udp\<close> (\<open>udp/mod.rs\<close>, \<open>udp/frame.rs\<close>): the framed sink loses and reorders nothing; sending with packet
    information and its fallback; replies leave from the address a datagram arrived at.
  \<^item> \<open>PeerServer\<close>: every handler. \<open>ServerContract\<close>: three locales, the contract of an invariant with the
    primitive steps of the server, in which the invariant is carried through all handlers once.
    \<open>ServerPoll\<close>: the loops of \<open>poll\<close>, which end because handlers do not add to the queues they serve.
    \<open>ServerSafety\<close>, \<open>ServerProperties\<close>, \<open>DeviceRun\<close>: interpretations of the contract for well-formed states and
    absence of panics, for the origin of session indices, and for what handlers leave unchanged; runs of
    the whole device under every interleaving of events; source checks, admission of handshakes, draining
    of the queues.
  \<^item> \<open>TimerProperties\<close>: the number of retries of a handshake, and when keepalives stop.
  \<^item> \<open>Text\<close>, \<open>NetText\<close>: the standard library's text forms of numbers and addresses; parsing inverts
    printing. \<open>Config\<close> (\<open>UpdateEvent::from\<close>, \<open>ConfigurationCodec\<close>, the commands, \<open>to_config_string\<close>): a saved
    configuration can be restored, decoded keys have their size, the decoder's errors and panics, and two faults
    of the protocol. \<open>ConfigService\<close>: a connection with its read buffer and the loop that decodes, handles and
    answers; a command is served once however its text is split into reads.
  \<^item> \<open>Lifecycle\<close>: the socket file of the configuration service, the watcher of \<open>grim_reaper.rs\<close>, and \<open>main.rs\<close>.
  \<^item> \<open>Program\<close>: \<open>Interface::start\<close> with the device, the connections of the configuration socket and the watcher
    under every interleaving. Every run keeps the invariant, panics only in the decoder of the configuration
    protocol, keeps all keys at their size, serves at most one command per connection, and has its socket file
    exactly while the reactor runs.

  \<^bold>\<open>Loops and bounds.\<close> The only loop that may run on is the search for an unused receiver index. It consumes a
  list of draws, and \<open>Looping\<close> is its value when they run out; \<open>unused_index_returns\<close> shows that it returns as
  soon as the draws have more values than the index map has entries. All other loops are structural or come
  with a termination proof. Runs of the device are lists of events of any length. \<open>good_world\<close> asks that the
  draws of two handler calls do not coincide, which random 32 bit draws satisfy but for collisions, and that
  the socket calls succeed where the code unwraps them.

  \<^bold>\<open>Assumptions of the model.\<close> The process is single threaded, and the borrows of the \<open>RefCell\<close>s never conflict.
  A weak reference can be upgraded while the maps or the channel hold the peer. Channels do not lose
  messages. \<open>Display\<close> and \<open>Debug\<close> texts for the log are left out, and error messages that carry numbers are
  kept without them where nothing depends on them.

  \<^bold>\<open>Not modelled.\<close> The tokio reactor with its wake-ups, its listener and its framed streams: a run is any
  sequence of polls, reads and connections, and a framed stream decodes what has been read until the decoder
  asks for more. The creation of the tunnel device, of threads and of signal streams, the parser of the command
  line and the daemon are crates, whose answers are arguments. The unused accessors of \<open>UdpFramed\<close>, the
  benchmarks of \<open>anti_replay.rs\<close>, and \<open>lib.rs\<close> and \<open>error.rs\<close>, which have no behaviour, are left out.
\<close>

end
